(* ===== verification/Prelude.thy ===== *)
theory Prelude
  imports Main "HOL-Library.AList" "HOL-Library.Word" "HOL-Library.Sublist"
begin

text \<open>
  What the components share: Go's run-time panics as values, 64-bit wrap-around, Go maps as
  association lists, generic lemmas on lists, prefixes and maps, and the collections of
  simplification rules the component proofs use.

  A Go \<^verbatim>\<open>int\<close> is modelled by \<^typ>\<open>int\<close>. Index arithmetic of the program stays between \<open>-1\<close>
  and the length of a slice, so only the increment of the term, which nothing bounds, is written
  with the 64-bit wrap-around of \<open>int64\<close>.
\<close>

named_theorems node_simps \<open>what the operations of a node do to its fields\<close>
named_theorems wal_simps \<open>what the operations of the write-ahead log do to the file\<close>
named_theorems journal_simps \<open>records a node operation appends to its journal\<close>

type_synonym byte = "8 word"

abbreviation len :: "'a list \<Rightarrow> int" where
  "len xs \<equiv> int (length xs)"

subsection \<open>Run-time panics\<close>

text \<open>An index expression \<^verbatim>\<open>s[i]\<close> panics outside \<open>0 \<dots> len s - 1\<close>; nothing recovers the panic.\<close>

datatype panic = IndexOutOfRange int int

type_synonym 'a go = "panic + 'a"

definition index_at :: "'a list \<Rightarrow> int \<Rightarrow> 'a go" where
  "index_at xs i = (if 0 \<le> i \<and> i < len xs then Inr (xs ! nat i) else Inl (IndexOutOfRange i (len xs)))"

definition go_bind :: "'a go \<Rightarrow> ('a \<Rightarrow> 'b go) \<Rightarrow> 'b go" where
  "go_bind m f = (case m of Inl p \<Rightarrow> Inl p | Inr x \<Rightarrow> f x)"

subsection \<open>64-bit integers\<close>

definition int64 :: "int \<Rightarrow> int" where
  "int64 x = (x + 2 ^ 63) mod 2 ^ 64 - 2 ^ 63"

definition max_int :: int where
  "max_int = 2 ^ 63 - 1"

subsection \<open>Go maps\<close>

text \<open>
  A Go map is an association list with distinct keys. Reading an absent key gives the zero value
  of the element type. Iteration visits the entries in an order the language leaves open; the
  definitions that iterate either do not depend on the order or take it as an argument.
\<close>

type_synonym ('k, 'v) go_map = "('k \<times> 'v) list"

definition go_map_inv :: "('k, 'v) go_map \<Rightarrow> bool" where
  "go_map_inv m \<longleftrightarrow> distinct (map fst m)"

definition go_get :: "('k, 'v) go_map \<Rightarrow> 'k \<Rightarrow> 'v \<Rightarrow> 'v" where
  "go_get m k zero = (case map_of m k of None \<Rightarrow> zero | Some v \<Rightarrow> v)"

subsection \<open>Lemmas\<close>

lemma index_at_in_range [simp]:
  "0 \<le> i \<Longrightarrow> i < len xs \<Longrightarrow> index_at xs i = Inr (xs ! nat i)"
  by (simp add: index_at_def)

lemma index_at_Inr_iff:
  "index_at xs i = Inr x \<longleftrightarrow> 0 \<le> i \<and> i < len xs \<and> x = xs ! nat i"
  by (auto simp: index_at_def)

lemma index_at_Inl_iff:
  "index_at xs i = Inl p \<longleftrightarrow> \<not> (0 \<le> i \<and> i < len xs) \<and> p = IndexOutOfRange i (len xs)"
  by (auto simp: index_at_def)

lemma go_bind_simps [simp]:
  "go_bind (Inl p) f = Inl p"
  "go_bind (Inr x) f = f x"
  by (simp_all add: go_bind_def)

lemma go_bind_Inr_iff: "go_bind m f = Inr y \<longleftrightarrow> (\<exists>x. m = Inr x \<and> f x = Inr y)"
  by (auto simp: go_bind_def split: sum.splits)

lemma int64_id: "- (2 ^ 63) \<le> x \<Longrightarrow> x < 2 ^ 63 \<Longrightarrow> int64 x = x"
  by (simp add: int64_def)

lemma int64_bounds: "- (2 ^ 63) \<le> int64 x" "int64 x < 2 ^ 63"
  by (simp_all add: int64_def)

lemma int64_succ: "- (2 ^ 63) \<le> x \<Longrightarrow> x < max_int \<Longrightarrow> int64 (x + 1) = x + 1"
  by (simp add: int64_id max_int_def)

lemma int64_succ_max: "int64 (max_int + 1) = - (2 ^ 63)"
  by (simp add: int64_def max_int_def)

lemma go_map_inv_update [simp]: "go_map_inv m \<Longrightarrow> go_map_inv (AList.update k v m)"
  by (simp add: go_map_inv_def distinct_update)

lemma go_map_inv_delete [simp]: "go_map_inv m \<Longrightarrow> go_map_inv (AList.delete k m)"
  by (simp add: go_map_inv_def distinct_delete)

lemma go_map_inv_Nil [simp]: "go_map_inv []"
  by (simp add: go_map_inv_def)

lemma go_get_update: "go_get (AList.update k v m) j z = (if j = k then v else go_get m j z)"
  by (simp add: go_get_def update_conv')

text \<open>Prefixes of lists, as logs use them.\<close>

lemma prefix_takeI: "prefix (take n xs) xs"
  by (simp add: take_is_prefix)

lemma prefix_iff_take: "prefix xs ys \<longleftrightarrow> length xs \<le> length ys \<and> take (length xs) ys = xs"
proof
  assume "prefix xs ys"
  then show "length xs \<le> length ys \<and> take (length xs) ys = xs"
    by (auto simp: prefix_def)
next
  assume "length xs \<le> length ys \<and> take (length xs) ys = xs"
  then show "prefix xs ys"
    by (metis take_is_prefix)
qed

lemma prefix_nth: "prefix xs ys \<Longrightarrow> i < length xs \<Longrightarrow> xs ! i = ys ! i"
  by (auto simp: prefix_def nth_append)

lemma prefix_take_take: "prefix xs ys \<Longrightarrow> n \<le> length xs \<Longrightarrow> take n xs = take n ys"
  by (auto simp: prefix_def)

lemma take_eq_mono: "take n xs = take n ys \<Longrightarrow> m \<le> n \<Longrightarrow> take m xs = take m ys"
  by (metis min.absorb1 take_take)

lemma take_eq_nth: "take n xs = take n ys \<Longrightarrow> i < n \<Longrightarrow> xs ! i = ys ! i"
  by (metis nth_take)

lemma take_Suc_eq_iff:
  "n < length xs \<Longrightarrow> n < length ys \<Longrightarrow>
   take (Suc n) xs = take (Suc n) ys \<longleftrightarrow> take n xs = take n ys \<and> xs ! n = ys ! n"
  by (simp add: take_Suc_conv_app_nth)

end
