(* ===== verification/Kv_Store.thy ===== *)
theory Kv_Store
  imports Prelude
begin

text \<open>
  The in-memory key-value store (\<^verbatim>\<open>internal/kv/store.go\<close>): a Go map from strings to strings
  behind a mutex, so each operation is one atomic step. The locale \<open>kv_map\<close> is the contract the
  replicated state machine relies on; the store's operations are its interpretation.
\<close>

record store =
  data :: "(string, string) go_map"

definition NewStore :: store where
  "NewStore = \<lparr>data = []\<rparr>"

definition Store_Set :: "string \<Rightarrow> string \<Rightarrow> store \<Rightarrow> store" where
  "Store_Set k v s = s\<lparr>data := AList.update k v (data s)\<rparr>"

definition Store_Delete :: "string \<Rightarrow> store \<Rightarrow> store" where
  "Store_Delete k s = s\<lparr>data := AList.delete k (data s)\<rparr>"

definition Store_Get :: "string \<Rightarrow> store \<Rightarrow> string \<times> bool" where
  "Store_Get k s = (case map_of (data s) k of Some v \<Rightarrow> (v, True) | None \<Rightarrow> ('''', False))"

text \<open>\<open>GetAll\<close> inserts every entry into a fresh map, in the map's iteration order.\<close>

definition Store_GetAll :: "store \<Rightarrow> (string, string) go_map" where
  "Store_GetAll s = fold (\<lambda>(k, v) m. AList.update k v m) (data s) []"

definition store_inv :: "store \<Rightarrow> bool" where
  "store_inv s \<longleftrightarrow> go_map_inv (data s)"

text \<open>The abstract contents of a store.\<close>

definition store_abs :: "store \<Rightarrow> string \<rightharpoonup> string" where
  "store_abs s = map_of (data s)"

subsection \<open>The contract of a key-value map\<close>

locale kv_map =
  fixes empty :: 's
    and set_key :: "'k \<Rightarrow> 'v \<Rightarrow> 's \<Rightarrow> 's"
    and del_key :: "'k \<Rightarrow> 's \<Rightarrow> 's"
    and lookup :: "'s \<Rightarrow> 'k \<rightharpoonup> 'v"
    and invar :: "'s \<Rightarrow> bool"
  assumes lookup_empty: "lookup empty = Map.empty"
    and lookup_set: "invar s \<Longrightarrow> lookup (set_key k v s) = (lookup s)(k \<mapsto> v)"
    and lookup_del: "invar s \<Longrightarrow> lookup (del_key k s) = (lookup s)(k := None)"
    and invar_empty: "invar empty"
    and invar_set: "invar s \<Longrightarrow> invar (set_key k v s)"
    and invar_del: "invar s \<Longrightarrow> invar (del_key k s)"
begin

text \<open>A command is a write of a key or a deletion of it; a run is a list of commands.\<close>

definition exec1 :: "'k \<times> 'v option \<Rightarrow> 's \<Rightarrow> 's" where
  "exec1 c s = (case snd c of Some v \<Rightarrow> set_key (fst c) v s | None \<Rightarrow> del_key (fst c) s)"

definition spec1 :: "'k \<times> 'v option \<Rightarrow> ('k \<rightharpoonup> 'v) \<Rightarrow> ('k \<rightharpoonup> 'v)" where
  "spec1 c m = m(fst c := snd c)"

lemma exec1_refines:
  assumes "invar s"
  shows "lookup (exec1 c s) = spec1 c (lookup s)" and "invar (exec1 c s)"
  using assms by (auto simp: exec1_def spec1_def lookup_set lookup_del invar_set invar_del
      split: option.splits)

lemma exec_refines:
  "invar s \<Longrightarrow> lookup (fold exec1 cs s) = fold spec1 cs (lookup s) \<and> invar (fold exec1 cs s)"
  by (induction cs arbitrary: s) (auto simp: exec1_refines)

lemma spec_untouched: "k \<notin> fst ` set cs \<Longrightarrow> fold spec1 cs m k = m k"
  by (induction cs arbitrary: m) (auto simp: spec1_def)

text \<open>The last command on a key decides what a later lookup of it sees.\<close>

lemma last_write_wins:
  assumes "invar s" and "k \<notin> fst ` set cs'"
  shows "lookup (fold exec1 (cs @ (k, v) # cs') s) k = v"
proof -
  have "lookup (fold exec1 (cs @ (k, v) # cs') s) k
      = fold spec1 cs' (spec1 (k, v) (fold spec1 cs (lookup s))) k"
    using exec_refines [OF assms(1), of "cs @ (k, v) # cs'"] by simp
  also have "\<dots> = v"
    using assms(2) by (simp add: spec_untouched) (simp add: spec1_def)
  finally show ?thesis .
qed

end

subsection \<open>The store implements the contract\<close>

lemma store_abs_Set: "store_abs (Store_Set k v s) = (store_abs s)(k \<mapsto> v)"
  by (simp add: store_abs_def Store_Set_def update_conv')

lemma store_abs_Delete: "store_inv s \<Longrightarrow> store_abs (Store_Delete k s) = (store_abs s)(k := None)"
  by (simp add: store_abs_def Store_Delete_def delete_conv')

lemma store_inv_ops [simp, intro]:
  "store_inv NewStore"
  "store_inv s \<Longrightarrow> store_inv (Store_Set k v s)"
  "store_inv s \<Longrightarrow> store_inv (Store_Delete k s)"
  by (simp_all add: store_inv_def NewStore_def Store_Set_def Store_Delete_def)

interpretation kvs: kv_map NewStore Store_Set Store_Delete store_abs store_inv
  by unfold_locales
    (simp_all add: store_abs_Set store_abs_Delete, simp add: store_abs_def NewStore_def)

lemma Store_Get_abs:
  "Store_Get k s = (case store_abs s k of Some v \<Rightarrow> (v, True) | None \<Rightarrow> ('''', False))"
  by (simp add: Store_Get_def store_abs_def)

lemma fold_update_map_of:
  "map_of (fold (\<lambda>(k, v) m. AList.update k v m) xs m) = map_of m ++ map_of (rev xs)"
  by (induction xs arbitrary: m) (auto simp: update_conv' map_add_assoc [symmetric])

lemma store_abs_GetAll:
  assumes "store_inv s"
  shows "map_of (Store_GetAll s) = store_abs s"
proof -
  have "distinct (map fst (rev (data s)))"
    using assms by (simp add: store_inv_def go_map_inv_def rev_map [symmetric])
  then have "map_of (rev (data s)) = map_of (data s)"
    using assms by (intro map_of_inject_set [THEN iffD2]) (simp_all add: store_inv_def go_map_inv_def)
  then show ?thesis
    by (simp add: Store_GetAll_def store_abs_def fold_update_map_of)
qed

subsection \<open>Reading back\<close>

text \<open>
  The store is a last-write-wins map: after any run of \<open>Set\<close> and \<open>Delete\<close> calls on a
  new store, \<open>Get\<close> of a key returns what the last call on that key left: its value, or nothing
  after a deletion, whatever the calls on other keys do.
\<close>

lemma store_last_write_wins:
  assumes "k \<notin> fst ` set later"
  shows "Store_Get k (fold kvs.exec1 (earlier @ (k, v) # later) NewStore) =
    (case v of Some x \<Rightarrow> (x, True) | None \<Rightarrow> ('''', False))"
  using kvs.last_write_wins [OF store_inv_ops(1) assms] by (simp add: Store_Get_abs)

end
