(* ===== verification/Wal_Format.thy ===== *)
theory Wal_Format
  imports Prelude
begin

unbundle bit_operations_syntax

text \<open>
  The data of the write-ahead log (\<^verbatim>\<open>internal/storage/wal.go\<close>): log entries, records, and the
  parts of a frame on disk, that is big-endian 32-bit integers (\<^verbatim>\<open>encoding/binary\<close>) and the
  IEEE CRC-32 checksum (\<^verbatim>\<open>hash/crc32\<close>). The lemmas show that the integers round-trip and that
  the checksum sees every change that is confined to one byte.
\<close>

subsection \<open>Entries and records\<close>

type_synonym OpType = string

definition OpSet :: OpType where
  "OpSet = ''SET''"

definition OpDelete :: OpType where
  "OpDelete = ''DELETE''"

record LogEntry =
  Index :: int
  Term :: int
  Operation :: OpType
  Key :: string
  Value :: string

type_synonym RecordType = string

definition RecordState :: RecordType where
  "RecordState = ''STATE''"

definition RecordEntry :: RecordType where
  "RecordEntry = ''ENTRY''"

definition RecordTruncate :: RecordType where
  "RecordTruncate = ''TRUNCATE''"

definition RecordCommit :: RecordType where
  "RecordCommit = ''COMMIT''"

record WALRecord =
  rec_Type :: RecordType
  rec_Term :: int
  rec_VotedFor :: string
  rec_CommitIndex :: int
  rec_Entry :: "LogEntry option"

text \<open>The four composite literals the program writes; the fields left out are zero.\<close>

definition state_record :: "int \<Rightarrow> string \<Rightarrow> WALRecord" where
  "state_record t v =
     \<lparr>rec_Type = RecordState, rec_Term = t, rec_VotedFor = v, rec_CommitIndex = 0, rec_Entry = None\<rparr>"

definition entry_record :: "LogEntry \<Rightarrow> WALRecord" where
  "entry_record e =
     \<lparr>rec_Type = RecordEntry, rec_Term = 0, rec_VotedFor = '''', rec_CommitIndex = 0, rec_Entry = Some e\<rparr>"

definition truncate_record :: "int \<Rightarrow> WALRecord" where
  "truncate_record i =
     \<lparr>rec_Type = RecordTruncate, rec_Term = 0, rec_VotedFor = '''', rec_CommitIndex = i, rec_Entry = None\<rparr>"

definition commit_record :: "int \<Rightarrow> WALRecord" where
  "commit_record i =
     \<lparr>rec_Type = RecordCommit, rec_Term = 0, rec_VotedFor = '''', rec_CommitIndex = i, rec_Entry = None\<rparr>"

subsection \<open>Big-endian integers\<close>

definition PutUint32 :: "32 word \<Rightarrow> byte list" where
  "PutUint32 v = [ucast (drop_bit 24 v), ucast (drop_bit 16 v), ucast (drop_bit 8 v), ucast v]"

definition Uint32 :: "byte list \<Rightarrow> 32 word" where
  "Uint32 b = ucast (b ! 3) OR push_bit 8 (ucast (b ! 2)) OR push_bit 16 (ucast (b ! 1))
     OR push_bit 24 (ucast (b ! 0))"

subsection \<open>CRC-32\<close>

text \<open>The reflected polynomial \<open>0xEDB88320\<close>, one bit, one byte, and the whole checksum.\<close>

definition crc_poly :: "32 word" where
  "crc_poly = 0xEDB88320"

definition crc_bit :: "32 word \<Rightarrow> 32 word" where
  "crc_bit s = (if bit s 0 then drop_bit 1 s XOR crc_poly else drop_bit 1 s)"

definition crc_byte :: "32 word \<Rightarrow> byte \<Rightarrow> 32 word" where
  "crc_byte s b = (crc_bit ^^ 8) (s XOR ucast b)"

definition ChecksumIEEE :: "byte list \<Rightarrow> 32 word" where
  "ChecksumIEEE bs = NOT (foldl crc_byte (NOT 0) bs)"

text \<open>\<open>[4 bytes payload length][4 bytes CRC32][payload bytes]\<close>\<close>

definition wal_header :: "byte list \<Rightarrow> byte list" where
  "wal_header bs = PutUint32 (of_nat (length bs)) @ PutUint32 (ChecksumIEEE bs)"

subsection \<open>Lemmas\<close>

lemma record_types_distinct [simp]:
  "RecordState \<noteq> RecordEntry" "RecordState \<noteq> RecordTruncate" "RecordState \<noteq> RecordCommit"
  "RecordEntry \<noteq> RecordState" "RecordEntry \<noteq> RecordTruncate" "RecordEntry \<noteq> RecordCommit"
  "RecordTruncate \<noteq> RecordState" "RecordTruncate \<noteq> RecordEntry" "RecordTruncate \<noteq> RecordCommit"
  "RecordCommit \<noteq> RecordState" "RecordCommit \<noteq> RecordEntry" "RecordCommit \<noteq> RecordTruncate"
  by (simp_all add: RecordState_def RecordEntry_def RecordTruncate_def RecordCommit_def)

lemma op_types_distinct [simp]: "OpSet \<noteq> OpDelete" "OpDelete \<noteq> OpSet"
  by (simp_all add: OpSet_def OpDelete_def)

lemma length_PutUint32 [simp]: "length (PutUint32 v) = 4"
  by (simp add: PutUint32_def)

lemma length_wal_header [simp]: "length (wal_header bs) = 8"
  by (simp add: wal_header_def)

lemma Uint32_PutUint32 [simp]: "Uint32 (PutUint32 v) = v"
proof (rule bit_word_eqI)
  fix n :: nat
  assume "n < LENGTH(32)"
  then consider "n < 8" | "8 \<le> n \<and> n < 16" | "16 \<le> n \<and> n < 24" | "24 \<le> n \<and> n < 32"
    by fastforce
  then show "bit (Uint32 (PutUint32 v)) n = bit v n"
    by cases (simp_all add: Uint32_def PutUint32_def bit_simps less_diff_conv2)
qed

lemma wal_header_fields [simp]:
  "Uint32 (take 4 (wal_header bs)) = of_nat (length bs)"
  "Uint32 (drop 4 (wal_header bs)) = ChecksumIEEE bs"
  by (simp_all add: wal_header_def)

text \<open>One step of the register can be undone: its top bit says which branch was taken.\<close>

lemma crc_bit_top: "bit (crc_bit s) 31 = bit s 0"
  by (auto simp: crc_bit_def crc_poly_def bit_simps dest: bit_imp_le_length)

lemma crc_bit_inj: "crc_bit a = crc_bit b \<Longrightarrow> a = b"
proof (rule bit_word_eqI)
  fix n :: nat
  assume eq: "crc_bit a = crc_bit b" and n: "n < LENGTH(32)"
  have b0: "bit a 0 = bit b 0"
    using crc_bit_top [of a] crc_bit_top [of b] eq by simp
  have "drop_bit 1 a = drop_bit 1 b"
  proof (cases "bit a 0")
    case True
    then have "(drop_bit 1 a XOR crc_poly) XOR crc_poly = (drop_bit 1 b XOR crc_poly) XOR crc_poly"
      using eq b0 by (simp add: crc_bit_def)
    then show ?thesis by (simp add: xor.assoc)
  next
    case False
    then show ?thesis using eq b0 by (simp add: crc_bit_def)
  qed
  then have "bit (drop_bit 1 a) (n - 1) = bit (drop_bit 1 b) (n - 1)" by simp
  then show "bit a n = bit b n"
    using b0 by (cases n) (simp_all add: bit_simps)
qed

lemma crc_bits_inj: "(crc_bit ^^ k) a = (crc_bit ^^ k) b \<Longrightarrow> a = b"
  by (induction k arbitrary: a b) (auto dest: crc_bit_inj)

lemma xor_ucast_inj:
  fixes s t :: "32 word" and b c :: byte
  shows "s XOR ucast b = s XOR ucast c \<Longrightarrow> b = c"
    and "s XOR ucast b = t XOR ucast b \<Longrightarrow> s = t"
proof -
  assume "s XOR ucast b = s XOR ucast c"
  then have "s XOR (s XOR ucast b) = s XOR (s XOR ucast c)" by simp
  then have eq: "(ucast b :: 32 word) = ucast c" by (simp add: xor.assoc [symmetric])
  show "b = c"
  proof (rule bit_word_eqI)
    fix n :: nat
    assume "n < LENGTH(8)"
    moreover have "bit (ucast b :: 32 word) n = bit (ucast c :: 32 word) n" using eq by simp
    ultimately show "bit b n = bit c n" by (simp add: bit_simps)
  qed
next
  assume "s XOR ucast b = t XOR ucast b"
  then have "(s XOR ucast b) XOR ucast b = (t XOR ucast b) XOR ucast b" by simp
  then show "s = t" by (simp add: xor.assoc)
qed

lemma crc_byte_inj:
  "crc_byte s b = crc_byte s c \<Longrightarrow> b = c"
  "crc_byte s b = crc_byte t b \<Longrightarrow> s = t"
  by (auto simp: crc_byte_def dest!: crc_bits_inj xor_ucast_inj)

lemma foldl_crc_inj: "foldl crc_byte s bs = foldl crc_byte t bs \<Longrightarrow> s = t"
  by (induction bs arbitrary: s t) (auto dest: crc_byte_inj(2))

lemma checksum_single_byte:
  assumes "ChecksumIEEE (xs @ b # ys) = ChecksumIEEE (xs @ c # ys)"
  shows "b = c"
proof -
  have "foldl crc_byte (NOT 0) (xs @ b # ys) = foldl crc_byte (NOT 0) (xs @ c # ys)"
    using assms by (metis ChecksumIEEE_def bit.double_compl)
  then show ?thesis
    by (auto dest!: foldl_crc_inj crc_byte_inj(1))
qed

end
