(* ===== verification/Rpc.thy ===== *)
theory Rpc
  imports Wal_Format
begin

text \<open>
  The messages between nodes and their envelope (\<^verbatim>\<open>internal/transport/rpc.go\<close>), and the two ends
  of one call over TCP (\<^verbatim>\<open>internal/transport/tcp.go\<close>): \<open>SendRPC\<close> wraps a request, exchanges it
  for a response and unwraps that, \<open>handleConn\<close> dispatches a request to the node. The connection
  with its timeouts and gob streams is an argument \<open>exchange\<close>: the reply of the peer, or nothing.
\<close>

type_synonym RPCType = string

definition RPCRequestVoteReq :: RPCType where
  "RPCRequestVoteReq = ''RV_REQ''"

definition RPCRequestVoteResp :: RPCType where
  "RPCRequestVoteResp = ''RV_RESP''"

definition RPCAppendEntriesReq :: RPCType where
  "RPCAppendEntriesReq = ''AE_REQ''"

definition RPCAppendEntriesResp :: RPCType where
  "RPCAppendEntriesResp = ''AE_RESP''"

record RequestVoteRequest =
  rv_Term :: int
  rv_CandidateID :: string
  rv_LastLogIndex :: int
  rv_LastLogTerm :: int

record RequestVoteResponse =
  rvr_Term :: int
  rvr_VoteGranted :: bool

record AppendEntriesRequest =
  ae_Term :: int
  ae_LeaderID :: string
  ae_PrevLogIndex :: int
  ae_PrevLogTerm :: int
  ae_Entries :: "LogEntry list"
  ae_LeaderCommit :: int

record AppendEntriesResponse =
  aer_Term :: int
  aer_Success :: bool
  aer_MatchIndex :: int

record RPC =
  rpc_Type :: RPCType
  rpc_RVReq :: "RequestVoteRequest option"
  rpc_RVResp :: "RequestVoteResponse option"
  rpc_AEreq :: "AppendEntriesRequest option"
  rpc_AEresp :: "AppendEntriesResponse option"

definition empty_RPC :: RPC where
  "empty_RPC =
     \<lparr>rpc_Type = '''', rpc_RVReq = None, rpc_RVResp = None, rpc_AEreq = None, rpc_AEresp = None\<rparr>"

text \<open>The zero values the callers pass in for the response.\<close>

definition zero_RVResp :: RequestVoteResponse where
  "zero_RVResp = \<lparr>rvr_Term = 0, rvr_VoteGranted = False\<rparr>"

definition zero_AEResp :: AppendEntriesResponse where
  "zero_AEResp = \<lparr>aer_Term = 0, aer_Success = False, aer_MatchIndex = 0\<rparr>"

subsection \<open>The calling end\<close>

text \<open>
  \<open>SendRPC\<close> is called with a pair of request and response types; the two instances follow. The
  result is \<open>None\<close> when dialling, encoding or decoding failed. A reply without the expected part
  leaves the caller's zero value in place.
\<close>

definition SendRPC_RV ::
    "(RPC \<Rightarrow> RPC option) \<Rightarrow> RPCType \<Rightarrow> RequestVoteRequest \<Rightarrow> RequestVoteResponse option" where
  "SendRPC_RV exchange rpcType req =
     (case exchange (empty_RPC\<lparr>rpc_Type := rpcType, rpc_RVReq := Some req\<rparr>) of
        None \<Rightarrow> None
      | Some rpcResp \<Rightarrow>
          Some (case rpc_RVResp rpcResp of Some v \<Rightarrow> v | None \<Rightarrow> zero_RVResp))"

definition SendRPC_AE ::
    "(RPC \<Rightarrow> RPC option) \<Rightarrow> RPCType \<Rightarrow> AppendEntriesRequest \<Rightarrow> AppendEntriesResponse option" where
  "SendRPC_AE exchange rpcType req =
     (case exchange (empty_RPC\<lparr>rpc_Type := rpcType, rpc_AEreq := Some req\<rparr>) of
        None \<Rightarrow> None
      | Some rpcResp \<Rightarrow>
          Some (case rpc_AEresp rpcResp of Some v \<Rightarrow> v | None \<Rightarrow> zero_AEResp))"

subsection \<open>The serving end\<close>

type_synonym 's rv_handler = "RequestVoteRequest \<Rightarrow> 's \<Rightarrow> 's \<times> RequestVoteResponse"
type_synonym 's ae_handler = "AppendEntriesRequest \<Rightarrow> 's \<Rightarrow> ('s \<times> AppendEntriesResponse) go"

definition handleConn ::
    "'s rv_handler \<Rightarrow> 's ae_handler \<Rightarrow> RPC \<Rightarrow> 's \<Rightarrow> ('s \<times> RPC) go" where
  "handleConn hrv hae rpcReq s =
     (if rpc_Type rpcReq = RPCRequestVoteReq then
        (case rpc_RVReq rpcReq of
           None \<Rightarrow> Inr (s, empty_RPC)
         | Some req \<Rightarrow>
             (let (s', resp) = hrv req s
              in Inr (s', empty_RPC\<lparr>rpc_Type := RPCRequestVoteResp, rpc_RVResp := Some resp\<rparr>)))
      else if rpc_Type rpcReq = RPCAppendEntriesReq then
        (case rpc_AEreq rpcReq of
           None \<Rightarrow> Inr (s, empty_RPC)
         | Some req \<Rightarrow>
             (case hae req s of
                Inl p \<Rightarrow> Inl p
              | Inr (s', resp) \<Rightarrow>
                  Inr (s', empty_RPC\<lparr>rpc_Type := RPCAppendEntriesResp, rpc_AEresp := Some resp\<rparr>)))
      else Inr (s, empty_RPC))"

text \<open>One call that reaches its peer: the reply the peer's \<open>handleConn\<close> writes. A panic of the
  handler ends the peer's process, and the caller reads no reply.\<close>

definition served_by :: "'s rv_handler \<Rightarrow> 's ae_handler \<Rightarrow> 's \<Rightarrow> RPC \<Rightarrow> RPC option" where
  "served_by hrv hae s rpcReq =
     (case handleConn hrv hae rpcReq s of Inl p \<Rightarrow> None | Inr (s', resp) \<Rightarrow> Some resp)"

subsection \<open>The contract of a handler\<close>

text \<open>
  What a caller may rely on, whichever node serves it: a node's term never goes down, the reply
  carries the node's term after the call, and a positive reply is given only in the request's own
  term. A caller can therefore read a higher term in a reply as news, and a positive reply as
  support for the term it asked about.
\<close>

locale rpc_handler =
  fixes hrv :: "'s rv_handler"
    and hae :: "'s ae_handler"
    and term_of :: "'s \<Rightarrow> int"
  assumes rv_mono: "hrv req s = (s', resp) \<Longrightarrow> term_of s \<le> term_of s'"
    and rv_term: "hrv req s = (s', resp) \<Longrightarrow> rvr_Term resp = term_of s'"
    and rv_grant: "hrv req s = (s', resp) \<Longrightarrow> rvr_VoteGranted resp \<Longrightarrow> term_of s' = rv_Term req"
    and ae_mono: "hae areq s = Inr (s', aresp) \<Longrightarrow> term_of s \<le> term_of s'"
    and ae_term: "hae areq s = Inr (s', aresp) \<Longrightarrow> aer_Term aresp = term_of s'"
    and ae_accept: "hae areq s = Inr (s', aresp) \<Longrightarrow> aer_Success aresp \<Longrightarrow> term_of s' = ae_Term areq"
begin

lemma handleConn_mono: "handleConn hrv hae rpc s = Inr (s', resp) \<Longrightarrow> term_of s \<le> term_of s'"
  by (auto simp: handleConn_def split: if_splits option.splits sum.splits prod.splits
      dest: rv_mono ae_mono)

lemma rv_reply_no_higher_grant:
  assumes "hrv req s = (s', resp)" and "rvr_VoteGranted resp"
  shows "rvr_Term resp = rv_Term req"
  using rv_term [OF assms(1)] rv_grant [OF assms] by simp

text \<open>A node that granted a vote or accepted entries for a term serves no lower term positively
  afterwards.\<close>

lemma no_later_lower_accept:
  assumes "hrv req s = (s1, resp)" and "rvr_VoteGranted resp"
    and "term_of s1 \<le> term_of s2"
    and "hae areq s2 = Inr (s3, aresp)" and "aer_Success aresp"
  shows "rv_Term req \<le> ae_Term areq"
  using rv_grant [OF assms(1,2)] assms(3) ae_mono [OF assms(4)] ae_accept [OF assms(4,5)] by simp

end

subsection \<open>Lemmas\<close>

lemma rpc_types_distinct [simp]:
  "RPCRequestVoteReq \<noteq> RPCAppendEntriesReq" "RPCAppendEntriesReq \<noteq> RPCRequestVoteReq"
  by (simp_all add: RPCRequestVoteReq_def RPCAppendEntriesReq_def)

lemma SendRPC_RV_served:
  "SendRPC_RV (served_by hrv hae s) RPCRequestVoteReq req = Some (snd (hrv req s))"
  by (simp add: SendRPC_RV_def served_by_def handleConn_def split: prod.splits)

lemma SendRPC_AE_served:
  "SendRPC_AE (served_by hrv hae s) RPCAppendEntriesReq req =
     (case hae req s of Inl p \<Rightarrow> None | Inr (s', resp) \<Rightarrow> Some resp)"
  by (simp add: SendRPC_AE_def served_by_def handleConn_def split: sum.splits prod.splits)

end
