(* ===== verification/Raft_State.thy ===== *)
theory Raft_State
  imports Kv_Store Rpc
begin

text \<open>
  The state of a consensus node (\<^verbatim>\<open>internal/raft/state.go\<close>) with its accessors. A node's mutex
  makes every method one atomic step on this record.

  The node's write-ahead log is kept here as the list of the records appended so far with the flag
  whether the file is still open; \<open>Wal\<close> shows that the file on disk implements this. The
  election timer is the number of the latest \<^verbatim>\<open>time.AfterFunc\<close> and whether it is running; its
  duration is drawn from the random source that is an argument of \<open>election_timeout\<close>.
  The field \<^verbatim>\<open>electionTimeout\<close> of the struct is never read or written and is left out.
\<close>

datatype NodeState = Follower | Candidate | Leader

text \<open>The program assigns no other value, so the default of the switch, \<^verbatim>\<open>UNKNOWN\<close>, is never reached and is left out.\<close>

fun NodeState_String :: "NodeState \<Rightarrow> string" where
  "NodeState_String Follower = ''FOLLOWER''"
| "NodeState_String Candidate = ''CANDIDATE''"
| "NodeState_String Leader = ''LEADER''"

text \<open>The order of the constants (\<^verbatim>\<open>iota\<close>).\<close>

fun NodeState_int :: "NodeState \<Rightarrow> int" where
  "NodeState_int Follower = 0"
| "NodeState_int Candidate = 1"
| "NodeState_int Leader = 2"

lemma NodeState_int_inj: "NodeState_int a = NodeState_int b \<longleftrightarrow> a = b"
  by (cases a; cases b) simp_all

instantiation NodeState :: linorder
begin

definition less_eq_NodeState :: "NodeState \<Rightarrow> NodeState \<Rightarrow> bool" where
  "less_eq_NodeState a b \<longleftrightarrow> NodeState_int a \<le> NodeState_int b"

definition less_NodeState :: "NodeState \<Rightarrow> NodeState \<Rightarrow> bool" where
  "less_NodeState a b \<longleftrightarrow> NodeState_int a < NodeState_int b"

instance
  by standard (auto simp: less_eq_NodeState_def less_NodeState_def NodeState_int_inj)

end

text \<open>A client's request; \<open>ResCh\<close> names the channel the answer goes to.\<close>

record ClientReq =
  req_Op :: OpType
  req_Key :: string
  req_Value :: string
  req_ResCh :: nat

text \<open>The node's view of its write-ahead log.\<close>

record wal_journal =
  j_open :: bool
  j_records :: "WALRecord list"

definition wal_append :: "WALRecord \<Rightarrow> wal_journal \<Rightarrow> wal_journal" where
  "wal_append r j = (if j_open j then j\<lparr>j_records := j_records j @ [r]\<rparr> else j)"

definition wal_close :: "wal_journal \<Rightarrow> wal_journal" where
  "wal_close j = j\<lparr>j_open := False\<rparr>"

datatype timer = NoTimer | Armed nat | Stopped nat

record node =
  ID :: string
  Addr :: string
  Peers :: "(string, string) go_map"
  State :: NodeState
  CurrentTerm :: int
  VotedFor :: string
  Log :: "LogEntry list"
  CommitIndex :: int
  LastApplied :: int
  NextIndex :: "(string, int) go_map"
  MatchIndex :: "(string, int) go_map"
  KVStore :: store
  electionTimer :: timer
  wal :: wal_journal
  stopped :: bool
  clientCh :: "ClientReq list"
  applyNotify :: bool

definition node_append :: "WALRecord \<Rightarrow> node \<Rightarrow> node" where
  "node_append r n = n\<lparr>wal := wal_append r (wal n)\<rparr>"

abbreviation records :: "node \<Rightarrow> WALRecord list" where
  "records n \<equiv> j_records (wal n)"

subsection \<open>Accessors\<close>

definition GetState :: "string \<Rightarrow> node \<Rightarrow> string \<times> bool" where
  "GetState key n = Store_Get key (KVStore n)"

definition GetRole :: "node \<Rightarrow> string" where
  "GetRole n = NodeState_String (State n)"

definition GetTerm :: "node \<Rightarrow> int" where
  "GetTerm n = CurrentTerm n"

definition GetCommit :: "node \<Rightarrow> int" where
  "GetCommit n = CommitIndex n"

definition GetLastApplied :: "node \<Rightarrow> int" where
  "GetLastApplied n = LastApplied n"

definition GetLogEntries :: "node \<Rightarrow> LogEntry list" where
  "GetLogEntries n = Log n"

definition GetAllKeys :: "node \<Rightarrow> (string, string) go_map" where
  "GetAllKeys n = Store_GetAll (KVStore n)"

subsection \<open>The election timer\<close>

text \<open>\<^verbatim>\<open>resetElectionTimer\<close> of \<^verbatim>\<open>node.go\<close>: stop the running timer and start the next one.\<close>

fun next_timer :: "timer \<Rightarrow> timer" where
  "next_timer NoTimer = Armed 0"
| "next_timer (Armed g) = Armed (Suc g)"
| "next_timer (Stopped g) = Armed (Suc g)"

definition resetElectionTimer :: "node \<Rightarrow> node" where
  "resetElectionTimer n = n\<lparr>electionTimer := next_timer (electionTimer n)\<rparr>"

text \<open>The duration in milliseconds of timer \<open>g\<close>; \<^verbatim>\<open>rand.Intn(300)\<close> is a draw reduced below 300.\<close>

definition election_timeout :: "(nat \<Rightarrow> nat) \<Rightarrow> nat \<Rightarrow> nat" where
  "election_timeout rnd g = 300 + rnd g mod 300"

subsection \<open>Lemmas\<close>

lemma wal_append_simps [simp]:
  "j_open (wal_append r j) = j_open j"
  "j_open j \<Longrightarrow> j_records (wal_append r j) = j_records j @ [r]"
  "\<not> j_open j \<Longrightarrow> wal_append r j = j"
  by (simp_all add: wal_append_def)

lemma resetElectionTimer_simps [node_simps]:
  "ID (resetElectionTimer n) = ID n"
  "Addr (resetElectionTimer n) = Addr n"
  "Peers (resetElectionTimer n) = Peers n"
  "State (resetElectionTimer n) = State n"
  "CurrentTerm (resetElectionTimer n) = CurrentTerm n"
  "VotedFor (resetElectionTimer n) = VotedFor n"
  "Log (resetElectionTimer n) = Log n"
  "CommitIndex (resetElectionTimer n) = CommitIndex n"
  "LastApplied (resetElectionTimer n) = LastApplied n"
  "NextIndex (resetElectionTimer n) = NextIndex n"
  "MatchIndex (resetElectionTimer n) = MatchIndex n"
  "KVStore (resetElectionTimer n) = KVStore n"
  "wal (resetElectionTimer n) = wal n"
  "stopped (resetElectionTimer n) = stopped n"
  "clientCh (resetElectionTimer n) = clientCh n"
  "applyNotify (resetElectionTimer n) = applyNotify n"
  by (simp_all add: resetElectionTimer_def)

lemma node_append_simps [node_simps]:
  "ID (node_append r n) = ID n"
  "Addr (node_append r n) = Addr n"
  "Peers (node_append r n) = Peers n"
  "State (node_append r n) = State n"
  "CurrentTerm (node_append r n) = CurrentTerm n"
  "VotedFor (node_append r n) = VotedFor n"
  "Log (node_append r n) = Log n"
  "CommitIndex (node_append r n) = CommitIndex n"
  "LastApplied (node_append r n) = LastApplied n"
  "NextIndex (node_append r n) = NextIndex n"
  "MatchIndex (node_append r n) = MatchIndex n"
  "KVStore (node_append r n) = KVStore n"
  "wal (node_append r n) = wal_append r (wal n)"
  "electionTimer (node_append r n) = electionTimer n"
  "stopped (node_append r n) = stopped n"
  "clientCh (node_append r n) = clientCh n"
  "applyNotify (node_append r n) = applyNotify n"
  by (simp_all add: node_append_def)

end
