(* ===== verification/State_Machine.thy ===== *)
theory State_Machine
  imports Raft_State
begin

text \<open>
  The replicated state machine: what one committed entry does to the store (the same code in
  \<^verbatim>\<open>recoverState\<close> of \<^verbatim>\<open>node.go\<close> and in \<^verbatim>\<open>apply.go\<close>), and \<open>applyCommittedEntries\<close>, the
  step of the apply loop. The store after \<open>applyCommittedEntries\<close> is the run of the log's prefix
  up to \<open>LastApplied\<close>; an abstract map specifies that run.
\<close>

definition apply_entry :: "LogEntry \<Rightarrow> store \<Rightarrow> store" where
  "apply_entry e s =
     (if Operation e = OpSet then Store_Set (Key e) (Value e) s
      else if Operation e = OpDelete then Store_Delete (Key e) s
      else s)"

text \<open>\<open>apply.go\<close>: the loop of \<^verbatim>\<open>applyCommittedEntries\<close>.\<close>

function applyCommittedEntries :: "node \<Rightarrow> node go" where
  "applyCommittedEntries n =
     (if LastApplied n < CommitIndex n \<and> LastApplied n < len (Log n) - 1
      then go_bind (index_at (Log n) (LastApplied n + 1))
             (\<lambda>entry. applyCommittedEntries
                (n\<lparr>LastApplied := LastApplied n + 1, KVStore := apply_entry entry (KVStore n)\<rparr>))
      else Inr n)"
  by pat_completeness auto
termination
  by (relation "measure (\<lambda>n. nat (len (Log n) - 1 - LastApplied n))") auto

declare applyCommittedEntries.simps [simp del]

text \<open>One turn of \<^verbatim>\<open>applyLoop\<close>, woken by a notification, which it takes from the channel, or by the
  ticker.\<close>

definition applyLoop_turn :: "bool \<Rightarrow> node \<Rightarrow> node go" where
  "applyLoop_turn ticker n =
     (if ticker then applyCommittedEntries n
      else if applyNotify n then applyCommittedEntries (n\<lparr>applyNotify := False\<rparr>)
      else Inr n)"

text \<open>The specification of an entry on the abstract contents.\<close>

definition entry_spec :: "LogEntry \<Rightarrow> (string \<rightharpoonup> string) \<Rightarrow> (string \<rightharpoonup> string)" where
  "entry_spec e m =
     (if Operation e = OpSet then m(Key e \<mapsto> Value e)
      else if Operation e = OpDelete then m(Key e := None) else m)"

text \<open>The store that the first entries of a log, up to and with index \<open>i\<close>, produce.\<close>

definition run_log :: "LogEntry list \<Rightarrow> int \<Rightarrow> store" where
  "run_log es i = fold apply_entry (take (nat (i + 1)) es) NewStore"

definition applied_ok :: "node \<Rightarrow> bool" where
  "applied_ok n \<longleftrightarrow>
     -1 \<le> LastApplied n \<and> LastApplied n < len (Log n) \<and> KVStore n = run_log (Log n) (LastApplied n)"

subsection \<open>Deterministic state machines over a log\<close>

text \<open>
  A machine that applies the commands of a log in order. Two replicas whose logs agree up to the
  smaller of their applied positions are in states of the same run: the one behind reaches the
  other's state by applying the entries in between.
\<close>

locale log_machine =
  fixes apply1 :: "'e \<Rightarrow> 's \<Rightarrow> 's"
    and start :: 's
begin

definition run :: "'e list \<Rightarrow> nat \<Rightarrow> 's" where
  "run es k = fold apply1 (take k es) start"

lemma run_prefix_eq: "take k es = take k es' \<Longrightarrow> run es k = run es' k"
  by (simp add: run_def)

lemma run_append: "k \<le> length es \<Longrightarrow> run (es @ es') k = run es k"
  by (simp add: run_def)

lemma run_Suc: "k < length es \<Longrightarrow> run es (Suc k) = apply1 (es ! k) (run es k)"
  by (simp add: run_def take_Suc_conv_app_nth)

lemma run_catch_up:
  assumes "take j es = take j es'" and "i \<le> j"
  shows "run es' j = fold apply1 (drop i (take j es)) (run es i)"
proof -
  have "take j es = take i es @ drop i (take j es)"
    using assms(2) by (metis append_take_drop_id min.absorb1 take_take)
  then show ?thesis
    unfolding run_def assms(1) [symmetric] by (metis fold_append comp_apply)
qed

end

interpretation rsm: log_machine apply_entry NewStore .

lemma run_log_eq: "run_log es i = rsm.run es (nat (i + 1))"
  by (simp add: run_log_def rsm.run_def)

subsection \<open>The store refines the abstract map\<close>

lemma apply_entry_inv [simp]: "store_inv s \<Longrightarrow> store_inv (apply_entry e s)"
  by (auto simp: apply_entry_def)

lemma apply_entry_spec: "store_inv s \<Longrightarrow> store_abs (apply_entry e s) = entry_spec e (store_abs s)"
  by (auto simp: apply_entry_def entry_spec_def store_abs_Set store_abs_Delete)

lemma fold_apply_entry_inv: "store_inv s \<Longrightarrow> store_inv (fold apply_entry es s)"
  by (induction es arbitrary: s) auto

lemma fold_apply_entry_spec:
  "store_inv s \<Longrightarrow> store_abs (fold apply_entry es s) = fold entry_spec es (store_abs s)"
  by (induction es arbitrary: s) (auto simp: apply_entry_spec)

lemma run_log_inv: "store_inv (run_log es i)"
  by (simp add: run_log_def fold_apply_entry_inv)

lemma store_abs_NewStore [simp]: "store_abs NewStore = Map.empty"
  by (simp add: store_abs_def NewStore_def)

lemma run_log_spec: "store_abs (run_log es i) = fold entry_spec (take (nat (i + 1)) es) Map.empty"
  by (simp add: run_log_def fold_apply_entry_spec)

lemma run_log_start [simp]: "run_log es (-1) = NewStore"
  by (simp add: run_log_def)

lemma run_log_step:
  assumes "-1 \<le> i" and "i + 1 < len es"
  shows "run_log es (i + 1) = apply_entry (es ! nat (i + 1)) (run_log es i)"
proof -
  have "nat (i + 1 + 1) = Suc (nat (i + 1))" using assms by simp
  then show ?thesis
    using rsm.run_Suc [of "nat (i + 1)" es] assms by (simp add: run_log_eq)
qed

lemma run_log_cong: "take (nat (i + 1)) es = take (nat (i + 1)) es' \<Longrightarrow> run_log es i = run_log es' i"
  by (simp add: run_log_def)

subsection \<open>The apply step\<close>

definition apply_target :: "node \<Rightarrow> int" where
  "apply_target n = max (LastApplied n) (min (CommitIndex n) (len (Log n) - 1))"

lemma applyCommittedEntries_result:
  assumes "applied_ok n"
  shows "applyCommittedEntries n =
    Inr (n\<lparr>LastApplied := apply_target n, KVStore := run_log (Log n) (apply_target n)\<rparr>)"
  using assms
proof (induction n rule: applyCommittedEntries.induct)
  case (1 n)
  show ?case
  proof (cases "LastApplied n < CommitIndex n \<and> LastApplied n < len (Log n) - 1")
    case True
    let ?e = "Log n ! nat (LastApplied n + 1)"
    let ?n = "n\<lparr>LastApplied := LastApplied n + 1, KVStore := apply_entry ?e (KVStore n)\<rparr>"
    have at: "index_at (Log n) (LastApplied n + 1) = Inr ?e"
      using True "1.prems" by (simp add: applied_ok_def)
    have "applied_ok ?n"
      using True "1.prems" by (simp add: applied_ok_def run_log_step)
    then have "applyCommittedEntries ?n =
        Inr (?n\<lparr>LastApplied := apply_target ?n, KVStore := run_log (Log ?n) (apply_target ?n)\<rparr>)"
      using "1.IH" [OF True] by simp
    moreover have "apply_target ?n = apply_target n"
      using True by (simp add: apply_target_def)
    ultimately show ?thesis
      using True at by (simp add: applyCommittedEntries.simps [of n])
  next
    case False
    then have "apply_target n = LastApplied n"
      by (auto simp: apply_target_def)
    then show ?thesis
      using "1.prems" False by (auto simp: applyCommittedEntries.simps [of n] applied_ok_def)
  qed
qed

lemma applyCommittedEntries_ok:
  assumes "applied_ok n" and "applyCommittedEntries n = Inr n'"
  shows "applied_ok n'"
  using assms
  by (auto simp: applyCommittedEntries_result applied_ok_def apply_target_def)

subsection \<open>Properties\<close>

text \<open>
  C25: \<open>applyCommittedEntries\<close> never indexes outside the log and ends with the store that the log's
  prefix up to \<open>LastApplied\<close> produces: on the abstract contents this is the left-to-right run of
  \<open>SET\<close> and \<open>DELETE\<close> of those entries. Every committed entry the node has is applied, each
  exactly once, and nothing else of the node changes.
\<close>

theorem apply_refines_log:
  assumes "applied_ok n"
  shows "\<exists>n'. applyCommittedEntries n = Inr n' \<and>
    n' = n\<lparr>LastApplied := LastApplied n', KVStore := KVStore n'\<rparr> \<and>
    LastApplied n' = max (LastApplied n) (min (CommitIndex n) (len (Log n) - 1)) \<and>
    store_abs (KVStore n') = fold entry_spec (take (nat (LastApplied n' + 1)) (Log n)) Map.empty"
  using applyCommittedEntries_result [OF assms] by (auto simp: run_log_spec apply_target_def)

definition sample_entry :: "int \<Rightarrow> int \<Rightarrow> string \<Rightarrow> string \<Rightarrow> LogEntry" where
  "sample_entry i t k v = \<lparr>Index = i, Term = t, Operation = OpSet, Key = k, Value = v\<rparr>"

definition sample_node :: "LogEntry list \<Rightarrow> int \<Rightarrow> node" where
  "sample_node es c =
     \<lparr>ID = ''n1'', Addr = ''h:1'', Peers = [(''n2'', ''h:2''), (''n3'', ''h:3'')], State = Follower,
      CurrentTerm = 1, VotedFor = '''', Log = es, CommitIndex = c, LastApplied = -1,
      NextIndex = [], MatchIndex = [], KVStore = NewStore, electionTimer = NoTimer,
      wal = \<lparr>j_open = True, j_records = []\<rparr>, stopped = False, clientCh = [], applyNotify = False\<rparr>"

lemma sample_node_applied: "applied_ok (sample_node es c)"
  by (simp add: applied_ok_def sample_node_def)

theorem apply_refines_log_witness:
  "\<exists>n'. applyCommittedEntries (sample_node [sample_entry 0 1 ''a'' ''1'', sample_entry 1 1 ''a'' ''2''] 1) = Inr n' \<and>
     LastApplied n' = 1 \<and> store_abs (KVStore n') = [''a'' \<mapsto> ''2'']"
  using apply_refines_log [OF sample_node_applied [of "[sample_entry 0 1 ''a'' ''1'', sample_entry 1 1 ''a'' ''2'']" 1]]
  by (auto simp: sample_node_def sample_entry_def entry_spec_def)

end
