(* ===== verification/Election.thy ===== *)
theory Election
  imports State_Machine
begin

text \<open>
  Leader election (\<^verbatim>\<open>internal/raft/election.go\<close>). \<^verbatim>\<open>startElection\<close> releases the node's mutex while
  it waits for its peers, so it is four atomic sections: \<open>startElection_begin\<close> up to the first
  unlock, \<open>startElection_reply\<close> for the check of one reply, \<open>startElection_count\<close> for the
  count of one vote, and \<open>startElection_finish\<close> after \<^verbatim>\<open>wg.Wait\<close>. Other steps of the node can
  happen between any two of them.
\<close>

text \<open>The local variables of a running election.\<close>

record election =
  el_term :: int
  el_lastLogIndex :: int
  el_lastLogTerm :: int
  el_votes :: int
  el_peersCount :: int

definition stepDown :: "int \<Rightarrow> node \<Rightarrow> node" where
  "stepDown t n =
     resetElectionTimer
       (node_append (state_record t '''') (n\<lparr>State := Follower, CurrentTerm := t, VotedFor := ''''\<rparr>))"

text \<open>
  \<open>becomeLeader\<close> also starts a goroutine that runs \<open>sendHeartbeats\<close>; a leader may run that at
  any moment, so nothing has to be recorded for it.
\<close>

definition becomeLeader :: "node \<Rightarrow> node" where
  "becomeLeader n =
     (if State n = Leader then n
      else let nextIdx = len (Log n); ids = map fst (Peers n)
           in resetElectionTimer
                (n\<lparr>State := Leader,
                   NextIndex := fold (\<lambda>id. AList.update id nextIdx) ids (NextIndex n),
                   MatchIndex := fold (\<lambda>id. AList.update id (-1)) ids (MatchIndex n)\<rparr>))"

text \<open>Index and term of the last entry, as \<^verbatim>\<open>startElection\<close> and \<^verbatim>\<open>HandleRequestVote\<close> compute them.\<close>

definition lastLogIndex :: "LogEntry list \<Rightarrow> int" where
  "lastLogIndex es = (if es = [] then -1 else Index (last es))"

definition lastLogTerm :: "LogEntry list \<Rightarrow> int" where
  "lastLogTerm es = (if es = [] then 0 else Term (last es))"

definition startElection_begin :: "node \<Rightarrow> node \<times> election option" where
  "startElection_begin n =
     (if State n = Leader then (n, None)
      else let n1 = n\<lparr>State := Candidate, CurrentTerm := int64 (CurrentTerm n + 1), VotedFor := ID n\<rparr>;
               n2 = node_append (state_record (CurrentTerm n1) (VotedFor n1)) n1
           in (resetElectionTimer n2,
               Some \<lparr>el_term = CurrentTerm n1,
                     el_lastLogIndex = lastLogIndex (Log n1),
                     el_lastLogTerm = lastLogTerm (Log n1),
                     el_votes = 1,
                     el_peersCount = len (Peers n1) + 1\<rparr>))"

text \<open>The request each goroutine sends.\<close>

definition vote_request :: "string \<Rightarrow> election \<Rightarrow> RequestVoteRequest" where
  "vote_request i el =
     \<lparr>rv_Term = el_term el, rv_CandidateID = i,
      rv_LastLogIndex = el_lastLogIndex el, rv_LastLogTerm = el_lastLogTerm el\<rparr>"

text \<open>The check of a reply; the flag says whether the goroutine goes on to count a vote.\<close>

definition startElection_reply :: "election \<Rightarrow> RequestVoteResponse \<Rightarrow> node \<Rightarrow> node \<times> bool" where
  "startElection_reply el resp n =
     (if CurrentTerm n \<noteq> el_term el \<or> State n \<noteq> Candidate then (n, False)
      else if rvr_Term resp > CurrentTerm n then (stepDown (rvr_Term resp) n, False)
      else (n, rvr_VoteGranted resp))"

definition startElection_count :: "election \<Rightarrow> node \<Rightarrow> node \<times> election" where
  "startElection_count el n =
     (let el' = el\<lparr>el_votes := el_votes el + 1\<rparr>
      in (if el_votes el' > el_peersCount el div 2
            \<and> State n = Candidate \<and> CurrentTerm n = el_term el
          then becomeLeader n else n,
          el'))"

definition startElection_finish :: "election \<Rightarrow> node \<Rightarrow> node" where
  "startElection_finish el n =
     (if State n \<noteq> Candidate \<or> CurrentTerm n \<noteq> el_term el then n
      else if el_votes el > el_peersCount el div 2 then becomeLeader n
      else resetElectionTimer n)"

text \<open>A whole election during which nothing else happens on the node: the replies in the order in
  which the goroutines process them, \<open>None\<close> for a call that failed.\<close>

fun election_replies ::
    "RequestVoteResponse option list \<Rightarrow> node \<times> election \<Rightarrow> node \<times> election" where
  "election_replies [] ne = ne"
| "election_replies (None # rs) ne = election_replies rs ne"
| "election_replies (Some r # rs) (n, el) =
     (let (n1, counts) = startElection_reply el r n
      in election_replies rs (if counts then startElection_count el n1 else (n1, el)))"

definition startElection :: "RequestVoteResponse option list \<Rightarrow> node \<Rightarrow> node" where
  "startElection rs n =
     (case startElection_begin n of
        (n1, None) \<Rightarrow> n1
      | (n1, Some el) \<Rightarrow>
          (let (n2, el') = election_replies rs (n1, el) in startElection_finish el' n2))"

subsection \<open>What the sections do to the fields\<close>

lemma stepDown_simps [node_simps]:
  "ID (stepDown t n) = ID n"
  "Addr (stepDown t n) = Addr n"
  "Peers (stepDown t n) = Peers n"
  "State (stepDown t n) = Follower"
  "CurrentTerm (stepDown t n) = t"
  "VotedFor (stepDown t n) = ''''"
  "Log (stepDown t n) = Log n"
  "CommitIndex (stepDown t n) = CommitIndex n"
  "LastApplied (stepDown t n) = LastApplied n"
  "NextIndex (stepDown t n) = NextIndex n"
  "MatchIndex (stepDown t n) = MatchIndex n"
  "KVStore (stepDown t n) = KVStore n"
  "wal (stepDown t n) = wal_append (state_record t '''') (wal n)"
  "stopped (stepDown t n) = stopped n"
  "clientCh (stepDown t n) = clientCh n"
  "applyNotify (stepDown t n) = applyNotify n"
  by (simp_all add: stepDown_def node_simps)

lemma becomeLeader_simps [node_simps]:
  "ID (becomeLeader n) = ID n"
  "Addr (becomeLeader n) = Addr n"
  "Peers (becomeLeader n) = Peers n"
  "State (becomeLeader n) = Leader"
  "CurrentTerm (becomeLeader n) = CurrentTerm n"
  "VotedFor (becomeLeader n) = VotedFor n"
  "Log (becomeLeader n) = Log n"
  "CommitIndex (becomeLeader n) = CommitIndex n"
  "LastApplied (becomeLeader n) = LastApplied n"
  "KVStore (becomeLeader n) = KVStore n"
  "wal (becomeLeader n) = wal n"
  "stopped (becomeLeader n) = stopped n"
  "clientCh (becomeLeader n) = clientCh n"
  "applyNotify (becomeLeader n) = applyNotify n"
  by (simp_all add: becomeLeader_def Let_def node_simps)

lemma map_of_fold_update_const:
  "map_of (fold (\<lambda>id. AList.update id v) ids m) k = (if k \<in> set ids then Some v else map_of m k)"
  by (induction ids arbitrary: m) (auto simp: update_conv')

lemma go_map_inv_fold_update:
  "go_map_inv m \<Longrightarrow> go_map_inv (fold (\<lambda>id. AList.update id v) ids m)"
  by (induction ids arbitrary: m) auto

lemma becomeLeader_indexes:
  assumes "State n \<noteq> Leader"
  shows "map_of (NextIndex (becomeLeader n)) k =
      (if k \<in> fst ` set (Peers n) then Some (len (Log n)) else map_of (NextIndex n) k)"
    and "map_of (MatchIndex (becomeLeader n)) k =
      (if k \<in> fst ` set (Peers n) then Some (-1) else map_of (MatchIndex n) k)"
  using assms by (simp_all add: becomeLeader_def Let_def node_simps map_of_fold_update_const)

end
