(* ===== verification/Replication.thy ===== *)
theory Replication
  imports Election
begin

text \<open>
  Log replication (\<^verbatim>\<open>internal/raft/replication.go\<close>): the two handlers of remote calls, which run
  under the node's mutex from start to end, and the leader's side. The leader's \<^verbatim>\<open>sendHeartbeats\<close>
  takes a snapshot (\<open>sendHeartbeats\<close>), then per peer \<^verbatim>\<open>replicateToPeer\<close> builds a request under the
  mutex (\<open>replicateToPeer_request\<close>), sends it without the mutex, and handles the reply under it
  (\<open>replicateToPeer_reply\<close>).
\<close>

definition notifyApply :: "node \<Rightarrow> node" where
  "notifyApply n = n\<lparr>applyNotify := True\<rparr>"

subsection \<open>The leader's side\<close>

text \<open>One pending call of \<^verbatim>\<open>replicateToPeer\<close> with its arguments.\<close>

record replicate_call =
  rc_peer :: string
  rc_addr :: string
  rc_next :: int
  rc_term :: int
  rc_commit :: int

definition sendHeartbeats :: "node \<Rightarrow> replicate_call list" where
  "sendHeartbeats n =
     (if State n \<noteq> Leader then []
      else map (\<lambda>(i, addr). \<lparr>rc_peer = i, rc_addr = addr, rc_next = go_get (NextIndex n) i 0,
                              rc_term = CurrentTerm n, rc_commit = CommitIndex n\<rparr>) (Peers n))"

definition replicateToPeer_request :: "replicate_call \<Rightarrow> node \<Rightarrow> AppendEntriesRequest option" where
  "replicateToPeer_request c n =
     (if State n \<noteq> Leader \<or> CurrentTerm n \<noteq> rc_term c then None
      else let nextIdx = rc_next c;
               prevLogIndex = nextIdx - 1;
               prevLogTerm = (if prevLogIndex \<ge> 0 \<and> prevLogIndex < len (Log n)
                              then Term (Log n ! nat prevLogIndex) else 0);
               entries = (if nextIdx \<ge> 0 \<and> nextIdx < len (Log n) then drop (nat nextIdx) (Log n) else [])
           in Some \<lparr>ae_Term = rc_term c, ae_LeaderID = ID n, ae_PrevLogIndex = prevLogIndex,
                    ae_PrevLogTerm = prevLogTerm, ae_Entries = entries,
                    ae_LeaderCommit = rc_commit c\<rparr>)"

text \<open>The loop of \<^verbatim>\<open>advanceCommitIndex\<close>, from index \<open>N\<close> downwards.\<close>

function advance_from :: "int \<Rightarrow> node \<Rightarrow> node go" where
  "advance_from N n =
     (if N > CommitIndex n
      then go_bind (index_at (Log n) N) (\<lambda>e.
             if Term e \<noteq> CurrentTerm n then advance_from (N - 1) n
             else if 1 + len (filter (\<lambda>(i, match). match \<ge> N) (MatchIndex n))
                       > (len (Peers n) + 1) div 2
             then Inr (notifyApply (node_append (commit_record N) (n\<lparr>CommitIndex := N\<rparr>)))
             else advance_from (N - 1) n)
      else Inr n)"
  by pat_completeness auto
termination
  by (relation "measure (\<lambda>(N, n). nat (N - CommitIndex n))") auto

declare advance_from.simps [simp del]

definition advanceCommitIndex :: "node \<Rightarrow> node go" where
  "advanceCommitIndex n = advance_from (len (Log n) - 1) n"

definition replicateToPeer_reply ::
    "replicate_call \<Rightarrow> AppendEntriesRequest \<Rightarrow> AppendEntriesResponse \<Rightarrow> node \<Rightarrow> node go" where
  "replicateToPeer_reply c req resp n =
     (if State n \<noteq> Leader \<or> CurrentTerm n \<noteq> rc_term c then Inr n
      else if aer_Term resp > CurrentTerm n then Inr (stepDown (aer_Term resp) n)
      else if aer_Success resp then
        (if len (ae_Entries req) > 0
         then let m = ae_PrevLogIndex req + len (ae_Entries req)
              in advanceCommitIndex
                   (n\<lparr>MatchIndex := AList.update (rc_peer c) m (MatchIndex n),
                      NextIndex := AList.update (rc_peer c) (m + 1) (NextIndex n)\<rparr>)
         else Inr n)
      else Inr (if rc_next c > 0
                then n\<lparr>NextIndex := AList.update (rc_peer c) (rc_next c - 1) (NextIndex n)\<rparr> else n))"

subsection \<open>The follower's side\<close>

definition truncate_log :: "int \<Rightarrow> node \<Rightarrow> node" where
  "truncate_log i n = node_append (truncate_record (i - 1)) (n\<lparr>Log := take (nat i) (Log n)\<rparr>)"

definition append_entry :: "LogEntry \<Rightarrow> node \<Rightarrow> node" where
  "append_entry e n = node_append (entry_record e) (n\<lparr>Log := Log n @ [e]\<rparr>)"

text \<open>The loop over the entries of a request; \<open>idx\<close> is \<^verbatim>\<open>req.PrevLogIndex + 1 + i\<close>.\<close>

fun append_new :: "int \<Rightarrow> LogEntry list \<Rightarrow> node \<Rightarrow> node go" where
  "append_new idx [] n = Inr n"
| "append_new idx (entry # rest) n =
     (if idx < len (Log n)
      then go_bind (index_at (Log n) idx) (\<lambda>e.
             if Term e \<noteq> Term entry
             then Inr (fold append_entry (entry # rest) (truncate_log idx n))
             else append_new (idx + 1) rest n)
      else append_new (idx + 1) rest (append_entry entry n))"

text \<open>The check at \<^verbatim>\<open>PrevLogIndex\<close>: \<open>Inl\<close> is the early return with a negative reply.\<close>

definition check_prev :: "AppendEntriesRequest \<Rightarrow> node \<Rightarrow> node + node" where
  "check_prev req n =
     (let prev = ae_PrevLogIndex req
      in if prev \<ge> 0 then
           (if prev \<ge> len (Log n) \<or> Term (Log n ! nat prev) \<noteq> ae_PrevLogTerm req
            then Inl (truncate_log (min prev (len (Log n))) n)
            else Inr n)
         else if prev = -1 then
           (if len (ae_Entries req) > 0 \<and> len (Log n) > 0
               \<and> Term (Log n ! 0) \<noteq> Term (ae_Entries req ! 0)
            then Inr (truncate_log 0 n) else Inr n)
         else Inr n)"

definition follow_commit :: "AppendEntriesRequest \<Rightarrow> node \<Rightarrow> node" where
  "follow_commit req n =
     (if ae_LeaderCommit req > CommitIndex n
      then let lastLogIdx = len (Log n) - 1;
               ci = (if ae_LeaderCommit req < lastLogIdx then ae_LeaderCommit req else lastLogIdx)
           in notifyApply (node_append (commit_record ci) (n\<lparr>CommitIndex := ci\<rparr>))
      else n)"

text \<open>What \<^verbatim>\<open>HandleAppendEntries\<close> does first when the request is not stale.\<close>

definition accept_term :: "AppendEntriesRequest \<Rightarrow> node \<Rightarrow> node" where
  "accept_term req n =
     resetElectionTimer
       (if ae_Term req > CurrentTerm n then stepDown (ae_Term req) n else n\<lparr>State := Follower\<rparr>)"

definition HandleAppendEntries ::
    "AppendEntriesRequest \<Rightarrow> node \<Rightarrow> (node \<times> AppendEntriesResponse) go" where
  "HandleAppendEntries req n =
     (if ae_Term req < CurrentTerm n
      then Inr (n, \<lparr>aer_Term = CurrentTerm n, aer_Success = False, aer_MatchIndex = 0\<rparr>)
      else case check_prev req (accept_term req n) of
             Inl n1 \<Rightarrow>
               Inr (n1, \<lparr>aer_Term = CurrentTerm n1, aer_Success = False, aer_MatchIndex = 0\<rparr>)
           | Inr n1 \<Rightarrow>
               go_bind (append_new (ae_PrevLogIndex req + 1) (ae_Entries req) n1) (\<lambda>n2.
                 let n3 = follow_commit req n2
                 in Inr (n3, \<lparr>aer_Term = CurrentTerm n3, aer_Success = True,
                              aer_MatchIndex = len (Log n3) - 1\<rparr>)))"

text \<open>The comparison of a candidate's log with the voter's own.\<close>

definition log_up_to_date :: "RequestVoteRequest \<Rightarrow> LogEntry list \<Rightarrow> bool" where
  "log_up_to_date req es =
     (if rv_LastLogTerm req > lastLogTerm es then True
      else if rv_LastLogTerm req = lastLogTerm es \<and> rv_LastLogIndex req \<ge> lastLogIndex es then True
      else False)"

definition HandleRequestVote :: "RequestVoteRequest \<Rightarrow> node \<Rightarrow> node \<times> RequestVoteResponse" where
  "HandleRequestVote req n =
     (if rv_Term req < CurrentTerm n
      then (n, \<lparr>rvr_Term = CurrentTerm n, rvr_VoteGranted = False\<rparr>)
      else let n1 = (if rv_Term req > CurrentTerm n then stepDown (rv_Term req) n else n);
               canVote = (VotedFor n1 = '''' \<or> VotedFor n1 = rv_CandidateID req)
           in if canVote \<and> log_up_to_date req (Log n1)
              then let n2 = n1\<lparr>VotedFor := rv_CandidateID req\<rparr>;
                       n3 = resetElectionTimer
                              (node_append (state_record (CurrentTerm n2) (VotedFor n2)) n2)
                   in (n3, \<lparr>rvr_Term = CurrentTerm n3, rvr_VoteGranted = True\<rparr>)
              else (n1, \<lparr>rvr_Term = CurrentTerm n1, rvr_VoteGranted = False\<rparr>))"

subsection \<open>What the parts do to the fields\<close>

lemma notifyApply_simps [node_simps]:
  "ID (notifyApply n) = ID n" "Addr (notifyApply n) = Addr n" "Peers (notifyApply n) = Peers n"
  "State (notifyApply n) = State n" "CurrentTerm (notifyApply n) = CurrentTerm n"
  "VotedFor (notifyApply n) = VotedFor n" "Log (notifyApply n) = Log n"
  "CommitIndex (notifyApply n) = CommitIndex n" "LastApplied (notifyApply n) = LastApplied n"
  "NextIndex (notifyApply n) = NextIndex n" "MatchIndex (notifyApply n) = MatchIndex n"
  "KVStore (notifyApply n) = KVStore n" "wal (notifyApply n) = wal n"
  "electionTimer (notifyApply n) = electionTimer n"
  "stopped (notifyApply n) = stopped n" "clientCh (notifyApply n) = clientCh n"
  by (simp_all add: notifyApply_def)

text \<open>Two nodes that differ in the log and the journal only.\<close>

definition same_but_log :: "node \<Rightarrow> node \<Rightarrow> bool" where
  "same_but_log n n' \<longleftrightarrow> n' = n\<lparr>Log := Log n', wal := wal n'\<rparr>"

lemma same_but_log_refl [simp]: "same_but_log n n"
  by (simp add: same_but_log_def)

lemma same_but_log_trans: "same_but_log a b \<Longrightarrow> same_but_log b c \<Longrightarrow> same_but_log a c"
  by (cases a, cases b, cases c) (simp add: same_but_log_def)

lemma same_but_log_fields:
  assumes "same_but_log n n'"
  shows "ID n' = ID n" "Addr n' = Addr n" "Peers n' = Peers n" "State n' = State n"
    "CurrentTerm n' = CurrentTerm n" "VotedFor n' = VotedFor n" "CommitIndex n' = CommitIndex n"
    "LastApplied n' = LastApplied n" "NextIndex n' = NextIndex n" "MatchIndex n' = MatchIndex n"
    "KVStore n' = KVStore n" "electionTimer n' = electionTimer n" "stopped n' = stopped n"
    "clientCh n' = clientCh n" "applyNotify n' = applyNotify n"
  using assms by (cases n, cases n', simp add: same_but_log_def)+

lemma truncate_log_same: "same_but_log n (truncate_log i n)"
  by (cases n) (simp add: same_but_log_def truncate_log_def node_append_def)

lemma append_entry_same: "same_but_log n (append_entry e n)"
  by (cases n) (simp add: same_but_log_def append_entry_def node_append_def)

lemma fold_append_entry_same: "same_but_log n (fold append_entry es n)"
  by (induction es arbitrary: n) (auto intro: same_but_log_trans append_entry_same)

lemma log_ops [node_simps]:
  "Log (truncate_log i n) = take (nat i) (Log n)"
  "wal (truncate_log i n) = wal_append (truncate_record (i - 1)) (wal n)"
  "Log (append_entry e n) = Log n @ [e]"
  "wal (append_entry e n) = wal_append (entry_record e) (wal n)"
  by (simp_all add: truncate_log_def append_entry_def node_simps)

lemma Log_fold_append_entry [node_simps]: "Log (fold append_entry es n) = Log n @ es"
  by (induction es arbitrary: n) (auto simp: node_simps)

lemma append_new_same: "append_new idx es n = Inr n' \<Longrightarrow> same_but_log n n'"
proof (induction idx es n arbitrary: n' rule: append_new.induct)
  case (1 idx n)
  then show ?case by simp
next
  case (2 idx entry rest n)
  show ?case
  proof (cases "idx < len (Log n)")
    case True
    with "2.prems" obtain e where e: "index_at (Log n) idx = Inr e"
      by (auto simp: go_bind_Inr_iff)
    show ?thesis
    proof (cases "Term e = Term entry")
      case eq: True
      then show ?thesis using "2.IH"(1) [OF True] "2.prems" True e by simp
    next
      case False
      then have "n' = fold append_entry (entry # rest) (truncate_log idx n)"
        using "2.prems" True e by simp
      then show ?thesis
        using truncate_log_same fold_append_entry_same same_but_log_trans by metis
    qed
  next
    case False
    then have "append_new (idx + 1) rest (append_entry entry n) = Inr n'"
      using "2.prems" by simp
    then show ?thesis
      using "2.IH"(2) [OF False] append_entry_same same_but_log_trans by blast
  qed
qed

subsection \<open>The merge of a follower's log with the entries of a request\<close>

text \<open>
  A reference for \<open>append_new\<close>: the number of entries whose terms agree with what the log holds,
  and the log after the merge at position \<open>k\<close>.
\<close>

fun match_len :: "LogEntry list \<Rightarrow> LogEntry list \<Rightarrow> nat" where
  "match_len (x # xs) (e # es) = (if Term x = Term e then Suc (match_len xs es) else 0)"
| "match_len xs es = 0"

definition merge_log :: "nat \<Rightarrow> LogEntry list \<Rightarrow> LogEntry list \<Rightarrow> LogEntry list" where
  "merge_log k es new =
     (let m = match_len (drop k es) new
      in if m = length new then es else take (k + m) es @ drop m new)"

lemma match_len_le: "match_len xs es \<le> length xs" "match_len xs es \<le> length es"
  by (induction xs es rule: match_len.induct) auto

lemma match_len_Nil [simp]: "match_len [] es = 0" "match_len xs [] = 0"
  by (cases es; simp) (cases xs; simp)

lemma merge_log_step:
  assumes "k < length es" and "Term (es ! k) = Term e"
  shows "merge_log k es (e # new) = merge_log (Suc k) es new"
proof -
  have "drop k es = es ! k # drop (Suc k) es"
    using assms(1) by (simp add: Cons_nth_drop_Suc)
  then show ?thesis
    using assms(2) by (simp add: merge_log_def Let_def)
qed

lemma merge_log_conflict:
  assumes "k < length es" and "Term (es ! k) \<noteq> Term e"
  shows "merge_log k es (e # new) = take k es @ e # new"
proof -
  have "drop k es = es ! k # drop (Suc k) es"
    using assms(1) by (simp add: Cons_nth_drop_Suc)
  then show ?thesis
    using assms(2) by (simp add: merge_log_def)
qed

lemma merge_log_end: "length es \<le> k \<Longrightarrow> merge_log k es new = es @ new"
  by (simp add: merge_log_def)

lemma append_new_merge:
  assumes "0 \<le> idx" and "idx \<le> len (Log n)"
  shows "\<exists>n'. append_new idx new n = Inr n' \<and> Log n' = merge_log (nat idx) (Log n) new"
  using assms
proof (induction idx new n rule: append_new.induct)
  case (1 idx n)
  then show ?case by (simp add: merge_log_def)
next
  case (2 idx entry rest n)
  let ?k = "nat idx"
  show ?case
  proof (cases "idx < len (Log n)")
    case True
    then have at: "index_at (Log n) idx = Inr (Log n ! ?k)" and k: "?k < length (Log n)"
      using "2.prems" by auto
    show ?thesis
    proof (cases "Term (Log n ! ?k) = Term entry")
      case eq: True
      then have "\<exists>n'. append_new (idx + 1) rest n = Inr n' \<and>
          Log n' = merge_log (nat (idx + 1)) (Log n) rest"
        using "2.IH"(1) [OF True, of "Log n ! ?k"] True "2.prems" by simp
      moreover have "nat (idx + 1) = Suc ?k" using "2.prems" by simp
      ultimately show ?thesis
        using True at eq by (simp add: merge_log_step [OF k eq])
    next
      case False
      then show ?thesis
        using True at by (simp add: merge_log_conflict [OF k False] node_simps)
    qed
  next
    case False
    then have idx: "idx = len (Log n)" using "2.prems" by simp
    then have "\<exists>n'. append_new (idx + 1) rest (append_entry entry n) = Inr n' \<and>
        Log n' = merge_log (nat (idx + 1)) (Log n @ [entry]) rest"
      using "2.IH"(2) [OF False] by (simp add: node_simps)
    then show ?thesis
      using False idx by (simp add: merge_log_end)
  qed
qed

end
