(* ===== verification/Client_Request.thy ===== *)
theory Client_Request
  imports Replication
begin

text \<open>
  Client proposals (\<^verbatim>\<open>internal/raft/client.go\<close>). \<^verbatim>\<open>Submit\<close> queues a request for the one goroutine
  that handles them. \<^verbatim>\<open>handleClientReq\<close> appends an entry under the mutex
  (\<open>handleClientReq_begin\<close>) and then polls every 10 ms (\<open>handleClientReq_poll\<close>) until the entry
  is committed, leadership is lost, the node is stopped or five seconds are over.
\<close>

datatype client_error = ErrNotLeader | ErrLostLeadership | ErrTimeout | NodeStopped

fun client_error_string :: "client_error \<Rightarrow> string" where
  "client_error_string ErrNotLeader = ''NOT_LEADER''"
| "client_error_string ErrLostLeadership = ''LOST_LEADERSHIP''"
| "client_error_string ErrTimeout = ''TIMEOUT''"
| "client_error_string NodeStopped = ''NODE_STOPPED''"

text \<open>
  \<^verbatim>\<open>Submit\<close>: when both cases of the select are ready the choice is free (\<open>prefer_stop\<close>); with a
  full queue of 100 on a running node the caller blocks, which is \<open>None\<close>.
\<close>

definition Submit :: "bool \<Rightarrow> ClientReq \<Rightarrow> node \<Rightarrow> (node \<times> client_error option) option" where
  "Submit prefer_stop req n =
     (if stopped n \<and> (prefer_stop \<or> length (clientCh n) \<ge> 100) then Some (n, Some NodeStopped)
      else if length (clientCh n) < 100 then Some (n\<lparr>clientCh := clientCh n @ [req]\<rparr>, None)
      else None)"

text \<open>One turn of \<^verbatim>\<open>clientHandler\<close>: the request it takes from the queue, \<open>None\<close> if it waits or
  returns.\<close>

definition clientHandler_take :: "bool \<Rightarrow> node \<Rightarrow> (node \<times> ClientReq) option" where
  "clientHandler_take prefer_stop n =
     (if stopped n \<and> prefer_stop then None
      else case clientCh n of [] \<Rightarrow> None | req # rest \<Rightarrow> Some (n\<lparr>clientCh := rest\<rparr>, req))"

definition client_entry :: "ClientReq \<Rightarrow> node \<Rightarrow> LogEntry" where
  "client_entry req n =
     \<lparr>Index = len (Log n), Term = CurrentTerm n, Operation = req_Op req,
      Key = req_Key req, Value = req_Value req\<rparr>"

text \<open>The result is an immediate error, or the index and term the poll waits for.\<close>

definition handleClientReq_begin :: "ClientReq \<Rightarrow> node \<Rightarrow> node \<times> (client_error + int \<times> int)" where
  "handleClientReq_begin req n =
     (if State n \<noteq> Leader then (n, Inl ErrNotLeader)
      else (append_entry (client_entry req n) n, Inr (len (Log n), CurrentTerm n)))"

text \<open>
  One turn of the polling loop: the answer to the client, \<open>None\<close> to go on waiting. A stop is
  noticed instead of the tick when the select takes that case.
\<close>

definition handleClientReq_poll ::
    "bool \<Rightarrow> bool \<Rightarrow> int \<Rightarrow> int \<Rightarrow> node \<Rightarrow> (client_error option) option" where
  "handleClientReq_poll prefer_stop deadline_passed idx t n =
     (if stopped n \<and> prefer_stop then Some (Some NodeStopped)
      else if State n \<noteq> Leader \<or> CurrentTerm n \<noteq> t then Some (Some ErrLostLeadership)
      else if CommitIndex n \<ge> idx then Some None
      else if deadline_passed then Some (Some ErrTimeout)
      else None)"

end
