(* ===== verification/Wal.thy ===== *)
theory Wal
  imports Wal_Format
begin

text \<open>
  The write-ahead log (\<^verbatim>\<open>internal/storage/wal.go\<close>): the file with its write head, \<open>OpenWAL\<close>,
  \<open>Append\<close>, \<open>ReadAll\<close> and \<open>Close\<close>, byte by byte. The encoder and the decoder of
  \<^verbatim>\<open>encoding/gob\<close> are the arguments \<open>enc\<close> and \<open>dec\<close>; what the program relies on is
  \<open>gob_codec\<close>: decoding what was encoded gives the record back.
  Failures of the operating system are arguments too: a write can stop after a number of bytes,
  \<open>fsync\<close> and \<open>lseek\<close> can fail, and a read can hit a bad byte.

  The locale \<open>journal\<close> is what the consensus node relies on: an append adds one record at the
  end of what a later read returns. \<open>ReadAll\<close> on the bytes \<open>Append\<close> wrote is its
  interpretation.
\<close>

datatype wal_error = ErrClosed | ErrEncode | ErrIO

text \<open>The file of a \<^verbatim>\<open>WAL\<close>: \<open>w_open\<close> is \<^verbatim>\<open>w.file != nil\<close>, and the bytes outlive the handle.\<close>

record WAL =
  w_open :: bool
  w_disk :: "byte list"
  w_off :: nat

type_synonym gob_enc = "WALRecord \<Rightarrow> byte list option"
type_synonym gob_dec = "byte list \<Rightarrow> WALRecord option"

definition OpenWAL :: "bool \<Rightarrow> bool \<Rightarrow> byte list \<Rightarrow> wal_error + WAL" where
  "OpenWAL open_ok seek_ok disk =
     (if \<not> open_ok then Inl ErrIO
      else if \<not> seek_ok then Inl ErrIO
      else Inr \<lparr>w_open = True, w_disk = disk, w_off = length disk\<rparr>)"

definition WAL_Close :: "bool \<Rightarrow> WAL \<Rightarrow> wal_error option \<times> WAL" where
  "WAL_Close close_ok w =
     (if w_open w then (if close_ok then None else Some ErrIO, w\<lparr>w_open := False\<rparr>) else (None, w))"

subsection \<open>Writing\<close>

text \<open>
  A write at the head replaces what is there and extends the file. With a fault \<open>Some n\<close> only
  the first \<open>n\<close> bytes reach the file and the call reports an error.
\<close>

definition overwrite :: "byte list \<Rightarrow> nat \<Rightarrow> byte list \<Rightarrow> byte list" where
  "overwrite disk off bs =
     take off disk @ replicate (off - length disk) 0 @ bs @ drop (off + length bs) disk"

definition file_Write :: "nat option \<Rightarrow> byte list \<Rightarrow> WAL \<Rightarrow> bool \<times> WAL" where
  "file_Write fault bs w =
     (let out = (case fault of None \<Rightarrow> bs | Some n \<Rightarrow> take n bs)
      in (fault = None,
          w\<lparr>w_disk := overwrite (w_disk w) (w_off w) out, w_off := w_off w + length out\<rparr>))"

record append_faults =
  header_fault :: "nat option"
  payload_fault :: "nat option"
  sync_ok :: bool

definition no_faults :: append_faults where
  "no_faults = \<lparr>header_fault = None, payload_fault = None, sync_ok = True\<rparr>"

definition WAL_Append ::
    "gob_enc \<Rightarrow> append_faults \<Rightarrow> WALRecord \<Rightarrow> WAL \<Rightarrow> wal_error option \<times> WAL" where
  "WAL_Append enc f r w =
     (if \<not> w_open w then (Some ErrClosed, w)
      else case enc r of
        None \<Rightarrow> (Some ErrEncode, w)
      | Some bs \<Rightarrow>
          (let (ok1, w1) = file_Write (header_fault f) (wal_header bs) w
           in if \<not> ok1 then (Some ErrIO, w1)
              else let (ok2, w2) = file_Write (payload_fault f) bs w1
                   in if \<not> ok2 then (Some ErrIO, w2)
                      else (if sync_ok f then None else Some ErrIO, w2)))"

subsection \<open>Reading\<close>

text \<open>
  \<^verbatim>\<open>io.ReadFull\<close> of \<open>n\<close> bytes at an offset. \<open>bad = Some b\<close> is a device error at byte \<open>b\<close>.
\<close>

datatype read_result = ReadOk "byte list" | ReadEOF | ReadUnexpectedEOF | ReadError nat

definition ReadFull :: "nat option \<Rightarrow> byte list \<Rightarrow> nat \<Rightarrow> nat \<Rightarrow> read_result" where
  "ReadFull bad disk off n =
     (if n = 0 then ReadOk []
      else case bad of
        Some b \<Rightarrow>
          if b < min (off + n) (length disk) then ReadError b
          else if off + n \<le> length disk then ReadOk (take n (drop off disk))
          else if length disk \<le> off then ReadEOF else ReadUnexpectedEOF
      | None \<Rightarrow>
          if off + n \<le> length disk then ReadOk (take n (drop off disk))
          else if length disk \<le> off then ReadEOF else ReadUnexpectedEOF)"

lemma ReadFull_ok_bound: "ReadFull bad disk off n = ReadOk bs \<Longrightarrow> n \<noteq> 0 \<Longrightarrow> off + n \<le> length disk"
  by (auto simp: ReadFull_def split: option.splits if_splits)

text \<open>
  The loop of \<open>ReadAll\<close>. It returns the records and, when reading a header failed with an error
  other than end of file, that error and the offset at which the file was left.
\<close>

function read_loop ::
    "gob_dec \<Rightarrow> nat option \<Rightarrow> byte list \<Rightarrow> nat \<Rightarrow> WALRecord list \<Rightarrow> WALRecord list \<times> nat option" where
  "read_loop dec bad disk off records =
     (case ReadFull bad disk off 8 of
        ReadEOF \<Rightarrow> (records, None)
      | ReadUnexpectedEOF \<Rightarrow> (records, None)
      | ReadError b \<Rightarrow> (records, Some b)
      | ReadOk header \<Rightarrow>
          (let n = unat (Uint32 (take 4 header)); expectedChecksum = Uint32 (drop 4 header)
           in case ReadFull bad disk (off + 8) n of
                ReadOk bs \<Rightarrow>
                  if ChecksumIEEE bs \<noteq> expectedChecksum then (records, None)
                  else (case dec bs of
                          None \<Rightarrow> (records, None)
                        | Some r \<Rightarrow> read_loop dec bad disk (off + 8 + n) (records @ [r]))
              | _ \<Rightarrow> (records, None)))"
  by pat_completeness auto

termination
proof (relation "measure (\<lambda>(dec, bad, disk, off, records). length disk - off)", goal_cases)
  case 1
  then show ?case by simp
next
  case (2 dec bad disk off records header n expectedChecksum bs r)
  have "off + 8 \<le> length disk"
    using ReadFull_ok_bound [OF 2(1)] by simp
  then show ?case by simp
qed

declare read_loop.simps [simp del]

definition WAL_ReadAll ::
    "gob_dec \<Rightarrow> bool \<Rightarrow> nat option \<Rightarrow> WAL \<Rightarrow> (WALRecord list \<times> wal_error option) \<times> WAL" where
  "WAL_ReadAll dec seek_ok bad w =
     (if \<not> w_open w then (([], Some ErrClosed), w)
      else if \<not> seek_ok then (([], Some ErrIO), w)
      else case read_loop dec bad (w_disk w) 0 [] of
             (records, Some b) \<Rightarrow> ((records, Some ErrIO), w\<lparr>w_off := b\<rparr>)
           | (records, None) \<Rightarrow> ((records, None), w\<lparr>w_off := length (w_disk w)\<rparr>))"

subsection \<open>What the program relies on of encoding/gob\<close>

definition gob_codec :: "gob_enc \<Rightarrow> gob_dec \<Rightarrow> bool" where
  "gob_codec enc dec \<longleftrightarrow> (\<forall>r bs. enc r = Some bs \<longrightarrow> dec bs = Some r)"

text \<open>A record that has an encoding, of a length that fits the 32-bit length field.\<close>

definition fits :: "gob_enc \<Rightarrow> WALRecord \<Rightarrow> bool" where
  "fits enc r \<longleftrightarrow> (case enc r of Some bs \<Rightarrow> length bs < 2 ^ 32 | None \<Rightarrow> False)"

definition frame :: "gob_enc \<Rightarrow> WALRecord \<Rightarrow> byte list" where
  "frame enc r = wal_header (the (enc r)) @ the (enc r)"

definition frames :: "gob_enc \<Rightarrow> WALRecord list \<Rightarrow> byte list" where
  "frames enc rs = concat (map (frame enc) rs)"

subsection \<open>The interface the node uses\<close>

locale journal =
  fixes append :: "'r \<Rightarrow> 'w \<Rightarrow> 'w"
    and read :: "'w \<Rightarrow> 'r list"
    and invar :: "'w \<Rightarrow> bool"
    and ok :: "'r \<Rightarrow> bool"
  assumes read_append: "invar w \<Longrightarrow> ok r \<Longrightarrow> read (append r w) = read w @ [r]"
    and invar_append: "invar w \<Longrightarrow> ok r \<Longrightarrow> invar (append r w)"
begin

lemma appends:
  "invar w \<Longrightarrow> list_all ok rs \<Longrightarrow>
   read (fold append rs w) = read w @ rs \<and> invar (fold append rs w)"
  by (induction rs arbitrary: w) (simp_all add: read_append invar_append)

text \<open>A replay of what was read sees the appended records last, in the order they were appended.\<close>

lemma replay_appends:
  assumes "invar w" and "list_all ok rs"
  shows "fold f (read (fold append rs w)) s = fold f rs (fold f (read w) s)"
  using appends [OF assms] by simp

end

subsection \<open>Lemmas on writing\<close>

lemma frames_simps [simp]:
  "frames enc [] = []"
  "frames enc (r # rs) = frame enc r @ frames enc rs"
  "frames enc (rs @ rs') = frames enc rs @ frames enc rs'"
  by (simp_all add: frames_def)

lemma overwrite_end [simp]: "overwrite disk (length disk) bs = disk @ bs"
  by (simp add: overwrite_def)

lemma file_Write_end:
  "w_off w = length (w_disk w) \<Longrightarrow>
   file_Write None bs w = (True, w\<lparr>w_disk := w_disk w @ bs, w_off := length (w_disk w @ bs)\<rparr>)"
  by (simp add: file_Write_def)

lemma WAL_Append_end:
  assumes "w_open w" and "w_off w = length (w_disk w)" and "enc r = Some bs"
  shows "WAL_Append enc no_faults r w
     = (None, w\<lparr>w_disk := w_disk w @ frame enc r, w_off := length (w_disk w @ frame enc r)\<rparr>)"
  using assms by (simp add: WAL_Append_def no_faults_def file_Write_end frame_def)

text \<open>Whatever fails, the file grows by a prefix of the frame.\<close>

lemma WAL_Append_prefix:
  assumes "w_open w" and "w_off w = length (w_disk w)" and "enc r = Some bs"
  shows "\<exists>p. prefix p (frame enc r) \<and> w_disk (snd (WAL_Append enc f r w)) = w_disk w @ p \<and>
           (fst (WAL_Append enc f r w) = None \<longrightarrow> p = frame enc r)"
proof (cases "header_fault f")
  case (Some n)
  then show ?thesis
    using assms
    by (intro exI [where x = "take n (wal_header bs)"])
      (simp add: WAL_Append_def file_Write_def frame_def take_is_prefix)
next
  case h: None
  show ?thesis
  proof (cases "payload_fault f")
    case (Some n)
    have "prefix (take n bs) bs" by (simp add: take_is_prefix)
    then show ?thesis
      using assms h Some
      by (intro exI [where x = "wal_header bs @ take n bs"])
        (simp add: WAL_Append_def file_Write_def frame_def overwrite_def)
  next
    case None
    then show ?thesis
      using assms h
      by (intro exI [where x = "frame enc r"])
        (simp add: WAL_Append_def file_Write_def frame_def overwrite_def)
  qed
qed

subsection \<open>Lemmas on reading\<close>

lemma ReadFull_simps:
  "off + n \<le> length disk \<Longrightarrow> ReadFull None disk off n = ReadOk (take n (drop off disk))"
  "0 < n \<Longrightarrow> length disk \<le> off \<Longrightarrow> ReadFull None disk off n = ReadEOF"
  "0 < n \<Longrightarrow> off < length disk \<Longrightarrow> length disk < off + n \<Longrightarrow>
     ReadFull None disk off n = ReadUnexpectedEOF"
  by (auto simp: ReadFull_def)

lemma read_loop_end:
  assumes "length disk < off + 8"
  shows "read_loop dec None disk off records = (records, None)"
  using assms
  by (cases "off < length disk") (simp_all add: read_loop.simps [of _ _ _ off] ReadFull_simps)

text \<open>What one turn of the loop does where a header of \<open>bs\<close> stands at the offset.\<close>

lemma read_loop_header:
  assumes "disk = pre @ wal_header bs @ rest" and "length bs < 2 ^ 32"
  shows "read_loop dec None disk (length pre) records =
    (if length rest < length bs then (records, None)
     else if ChecksumIEEE (take (length bs) rest) \<noteq> ChecksumIEEE bs then (records, None)
     else case dec (take (length bs) rest) of
            None \<Rightarrow> (records, None)
          | Some r \<Rightarrow> read_loop dec None disk (length pre + 8 + length bs) (records @ [r]))"
proof -
  have n: "unat (of_nat (length bs) :: 32 word) = length bs"
    using assms(2) by (simp add: unat_of_nat take_bit_nat_eq_self)
  have hdr: "ReadFull None disk (length pre) 8 = ReadOk (wal_header bs)"
    using assms(1) by (simp add: ReadFull_simps)
  have body: "ReadFull None disk (length pre + 8) (length bs) =
      (if length bs \<le> length rest then ReadOk (take (length bs) rest)
       else if rest = [] then ReadEOF else ReadUnexpectedEOF)"
    using assms(1) by (auto simp: ReadFull_def)
  show ?thesis
    by (cases "length bs \<le> length rest")
      (auto simp: read_loop.simps [of _ _ _ "length pre"] hdr n body Let_def split: option.splits)
qed

lemma gob_codecE:
  assumes "gob_codec enc dec" and "fits enc r"
  obtains bs where "enc r = Some bs" and "dec bs = Some r" and "length bs < 2 ^ 32"
  using assms by (auto simp: gob_codec_def fits_def split: option.splits)

lemma read_loop_frame:
  assumes "gob_codec enc dec" and "fits enc r" and "disk = pre @ frame enc r @ rest"
  shows "read_loop dec None disk (length pre) records
       = read_loop dec None disk (length (pre @ frame enc r)) (records @ [r])"
proof -
  obtain bs where bs: "enc r = Some bs" "dec bs = Some r" "length bs < 2 ^ 32"
    using assms(1,2) by (rule gob_codecE)
  moreover have "disk = pre @ wal_header bs @ bs @ rest"
    using assms(3) bs by (simp add: frame_def)
  ultimately show ?thesis
    using bs by (simp add: read_loop_header frame_def add.assoc)
qed

lemma read_loop_frames:
  assumes "gob_codec enc dec" and "list_all (fits enc) rs" and "disk = pre @ frames enc rs @ rest"
  shows "read_loop dec None disk (length pre) records
       = read_loop dec None disk (length (pre @ frames enc rs)) (records @ rs)"
  using assms(2,3)
proof (induction rs arbitrary: pre records)
  case Nil
  then show ?case by simp
next
  case (Cons r rs)
  have "read_loop dec None disk (length pre) records
      = read_loop dec None disk (length (pre @ frame enc r)) (records @ [r])"
    using Cons.prems by (intro read_loop_frame [OF assms(1)]) simp_all
  also have "\<dots> = read_loop dec None disk (length ((pre @ frame enc r) @ frames enc rs)) ((records @ [r]) @ rs)"
    using Cons.prems by (intro Cons.IH) simp_all
  finally show ?case by simp
qed

lemma read_loop_clean:
  assumes "gob_codec enc dec" and "list_all (fits enc) rs"
  shows "read_loop dec None (frames enc rs @ rest) 0 []
       = read_loop dec None (frames enc rs @ rest) (length (frames enc rs)) rs"
  using read_loop_frames [OF assms, of "frames enc rs @ rest" "[]"] by simp

lemma read_all_clean:
  assumes "gob_codec enc dec" and "list_all (fits enc) rs"
  shows "read_loop dec None (frames enc rs) 0 [] = (rs, None)"
  using read_loop_clean [OF assms, of "[]"] by (simp add: read_loop_end)

text \<open>A torn frame at the end hides nothing that stands before it.\<close>

lemma read_all_torn:
  assumes "gob_codec enc dec" and "list_all (fits enc) rs" and "fits enc r"
    and "strict_prefix p (frame enc r)"
  shows "read_loop dec None (frames enc rs @ p) 0 [] = (rs, None)"
proof -
  obtain bs where bs: "enc r = Some bs" and small: "length bs < 2 ^ 32"
    using assms(1,3) by (rule gob_codecE)
  have fr: "frame enc r = wal_header bs @ bs" using bs by (simp add: frame_def)
  have "read_loop dec None (frames enc rs @ p) (length (frames enc rs)) rs = (rs, None)"
  proof (cases "length p < 8")
    case True
    then show ?thesis by (intro read_loop_end) simp
  next
    case False
    from assms(4) obtain zs where zs: "wal_header bs @ bs = p @ zs" and "zs \<noteq> []"
      by (auto simp: fr strict_prefix_def prefix_def)
    define q where "q = drop 8 p"
    have "take 8 (wal_header bs @ bs) = take 8 p" and "drop 8 (wal_header bs @ bs) = q @ zs"
      using False by (simp_all add: zs q_def del: take_append drop_append) simp_all
    then have hdr: "wal_header bs = take 8 p" and q: "bs = q @ zs"
      using False by (simp_all add: min_def)
    have p: "p = wal_header bs @ q" unfolding hdr q_def by simp
    have "length q < length bs" using \<open>zs \<noteq> []\<close> unfolding q by simp
    then show ?thesis
      using read_loop_header [OF _ small, of "frames enc rs @ p" "frames enc rs" q] p by simp
  qed
  then show ?thesis
    using read_loop_clean [OF assms(1,2), of p] by simp
qed

text \<open>A frame whose payload no longer has the checksum of its header ends the reading.\<close>

lemma read_all_corrupt:
  assumes "gob_codec enc dec" and "list_all (fits enc) rs" and "length bs < 2 ^ 32"
    and "length bs' = length bs" and "ChecksumIEEE bs' \<noteq> ChecksumIEEE bs"
  shows "read_loop dec None (frames enc rs @ wal_header bs @ bs' @ rest) 0 [] = (rs, None)"
proof -
  let ?disk = "frames enc rs @ wal_header bs @ bs' @ rest"
  have "read_loop dec None ?disk (length (frames enc rs)) rs = (rs, None)"
    using read_loop_header [OF _ assms(3), of ?disk "frames enc rs" "bs' @ rest"] assms(4,5)
    by simp
  then show ?thesis
    using read_loop_clean [OF assms(1,2), of "wal_header bs @ bs' @ rest"] by simp
qed

subsection \<open>The file implements the journal\<close>

text \<open>A file that holds whole frames, with the write head at its end.\<close>

definition wal_ok :: "gob_enc \<Rightarrow> WAL \<Rightarrow> bool" where
  "wal_ok enc w \<longleftrightarrow> w_open w \<and> w_off w = length (w_disk w) \<and>
     (\<exists>rs. list_all (fits enc) rs \<and> w_disk w = frames enc rs)"

definition wal_add :: "gob_enc \<Rightarrow> WALRecord \<Rightarrow> WAL \<Rightarrow> WAL" where
  "wal_add enc r w = snd (WAL_Append enc no_faults r w)"

definition wal_read :: "gob_dec \<Rightarrow> WAL \<Rightarrow> WALRecord list" where
  "wal_read dec w = fst (fst (WAL_ReadAll dec True None w))"

text \<open>What the program relies on of \<^verbatim>\<open>encoding/gob\<close>, as an interface.\<close>

locale gob =
  fixes enc :: gob_enc and dec :: gob_dec
  assumes decode_encode: "enc r = Some bs \<Longrightarrow> dec bs = Some r"
begin

lemma codec: "gob_codec enc dec"
  by (simp add: gob_codec_def decode_encode)

lemma wal_read_frames:
  "w_open w \<Longrightarrow> list_all (fits enc) rs \<Longrightarrow> w_disk w = frames enc rs \<Longrightarrow> wal_read dec w = rs"
  by (simp add: wal_read_def WAL_ReadAll_def read_all_clean [OF codec])

lemma wal_add_frames:
  assumes "wal_ok enc w" and "fits enc r"
  shows "wal_add enc r w =
    w\<lparr>w_disk := w_disk w @ frame enc r, w_off := length (w_disk w @ frame enc r)\<rparr>"
proof -
  obtain bs where bs: "enc r = Some bs" by (rule gob_codecE [OF codec assms(2)])
  show ?thesis
    using assms(1) WAL_Append_end [of w enc r, OF _ _ bs] by (simp add: wal_add_def wal_ok_def)
qed

end

sublocale gob \<subseteq> journal "wal_add enc" "wal_read dec" "wal_ok enc" "fits enc"
proof unfold_locales
  fix w r assume w: "wal_ok enc w" and r: "fits enc r"
  obtain rs where rs: "list_all (fits enc) rs" "w_disk w = frames enc rs" "w_open w"
    using w by (auto simp: wal_ok_def)
  have new: "w_open (wal_add enc r w)" "w_disk (wal_add enc r w) = frames enc (rs @ [r])"
    "list_all (fits enc) (rs @ [r])"
    using rs r by (simp_all add: wal_add_frames [OF w r])
  show "wal_read dec (wal_add enc r w) = wal_read dec w @ [r]"
    using wal_read_frames [OF new(1,3,2)] wal_read_frames [OF rs(3,1,2)] by simp
  show "wal_ok enc (wal_add enc r w)"
    using rs r new(3) by (auto simp: wal_ok_def wal_add_frames [OF w r] intro!: exI [of _ "rs @ [r]"])
qed

end
