(* ===== verification/Handlers.thy ===== *)
theory Handlers
  imports Replication
begin

text \<open>
  The functional behaviour of the two remote-call handlers on every branch, and the interpretation
  of the contract \<open>rpc_handler\<close> on them.
\<close>

text \<open>What no handler changes.\<close>

definition handler_frame :: "node \<Rightarrow> node \<Rightarrow> bool" where
  "handler_frame n n' \<longleftrightarrow>
     ID n' = ID n \<and> Addr n' = Addr n \<and> Peers n' = Peers n \<and> LastApplied n' = LastApplied n \<and>
     NextIndex n' = NextIndex n \<and> MatchIndex n' = MatchIndex n \<and> KVStore n' = KVStore n \<and>
     stopped n' = stopped n \<and> clientCh n' = clientCh n \<and> j_open (wal n') = j_open (wal n)"

lemma accept_term_simps [node_simps]:
  "ID (accept_term req n) = ID n"
  "Addr (accept_term req n) = Addr n"
  "Peers (accept_term req n) = Peers n"
  "State (accept_term req n) = Follower"
  "VotedFor (accept_term req n) = (if ae_Term req > CurrentTerm n then '''' else VotedFor n)"
  "Log (accept_term req n) = Log n"
  "CommitIndex (accept_term req n) = CommitIndex n"
  "LastApplied (accept_term req n) = LastApplied n"
  "NextIndex (accept_term req n) = NextIndex n"
  "MatchIndex (accept_term req n) = MatchIndex n"
  "KVStore (accept_term req n) = KVStore n"
  "stopped (accept_term req n) = stopped n"
  "clientCh (accept_term req n) = clientCh n"
  "j_open (wal (accept_term req n)) = j_open (wal n)"
  by (auto simp: accept_term_def node_simps)

lemma accept_term_CurrentTerm [node_simps]:
  "CurrentTerm n \<le> ae_Term req \<Longrightarrow> CurrentTerm (accept_term req n) = ae_Term req"
  by (auto simp: accept_term_def node_simps)

lemma check_prev_same:
  "check_prev req n = Inl n' \<Longrightarrow> same_but_log n n' \<and> j_open (wal n') = j_open (wal n)"
  "check_prev req n = Inr n' \<Longrightarrow> same_but_log n n' \<and> j_open (wal n') = j_open (wal n)"
  by (auto simp: check_prev_def Let_def truncate_log_same node_simps split: if_splits)

lemma append_new_open: "append_new idx es n = Inr n' \<Longrightarrow> j_open (wal n') = j_open (wal n)"
proof (induction idx es n arbitrary: n' rule: append_new.induct)
  case (2 idx entry rest n)
  have fold_open: "j_open (wal (fold append_entry es m)) = j_open (wal m)" for es m
    by (induction es arbitrary: m) (auto simp: node_simps)
  from 2 show ?case
    by (auto simp: go_bind_Inr_iff node_simps fold_open split: if_splits)
qed simp

lemma follow_commit_simps [node_simps]:
  "ID (follow_commit req n) = ID n"
  "Addr (follow_commit req n) = Addr n"
  "Peers (follow_commit req n) = Peers n"
  "State (follow_commit req n) = State n"
  "CurrentTerm (follow_commit req n) = CurrentTerm n"
  "VotedFor (follow_commit req n) = VotedFor n"
  "Log (follow_commit req n) = Log n"
  "CommitIndex (follow_commit req n) =
     (if ae_LeaderCommit req > CommitIndex n then min (ae_LeaderCommit req) (len (Log n) - 1)
      else CommitIndex n)"
  "LastApplied (follow_commit req n) = LastApplied n"
  "NextIndex (follow_commit req n) = NextIndex n"
  "MatchIndex (follow_commit req n) = MatchIndex n"
  "KVStore (follow_commit req n) = KVStore n"
  "stopped (follow_commit req n) = stopped n"
  "clientCh (follow_commit req n) = clientCh n"
  "j_open (wal (follow_commit req n)) = j_open (wal n)"
  by (auto simp: follow_commit_def Let_def node_simps)

subsection \<open>The check at the previous index\<close>

text \<open>The condition under which a follower refuses the entries of a current leader.\<close>

definition prev_mismatch :: "AppendEntriesRequest \<Rightarrow> LogEntry list \<Rightarrow> bool" where
  "prev_mismatch req es \<longleftrightarrow>
     0 \<le> ae_PrevLogIndex req \<and>
     (len es \<le> ae_PrevLogIndex req \<or> Term (es ! nat (ae_PrevLogIndex req)) \<noteq> ae_PrevLogTerm req)"

lemma check_prev_mismatch:
  assumes "prev_mismatch req (Log n)"
  shows "\<exists>n'. check_prev req n = Inl n' \<and> Log n' = take (nat (ae_PrevLogIndex req)) (Log n)"
  using assms
  by (auto simp: prev_mismatch_def check_prev_def Let_def node_simps min_def)

lemma check_prev_accept:
  assumes "\<not> prev_mismatch req (Log n)" and "-1 \<le> ae_PrevLogIndex req"
  shows "\<exists>n'. check_prev req n = Inr n' \<and> ae_PrevLogIndex req < len (Log n') \<and>
    merge_log (nat (ae_PrevLogIndex req + 1)) (Log n') (ae_Entries req) =
    merge_log (nat (ae_PrevLogIndex req + 1)) (Log n) (ae_Entries req)"
proof (cases "ae_PrevLogIndex req = -1 \<and> ae_Entries req \<noteq> [] \<and> Log n \<noteq> [] \<and>
    Term (Log n ! 0) \<noteq> Term (ae_Entries req ! 0)")
  case True
  then obtain e es where es: "ae_Entries req = e # es" by (cases "ae_Entries req") auto
  have "merge_log 0 (Log n) (e # es) = e # es"
    using True es by (simp add: merge_log_conflict)
  then show ?thesis
    using True es by (simp add: check_prev_def node_simps merge_log_end)
next
  case False
  then have "check_prev req n = Inr n"
    using assms by (auto simp: prev_mismatch_def check_prev_def Let_def)
  moreover have "ae_PrevLogIndex req < len (Log n)"
    using assms by (auto simp: prev_mismatch_def)
  ultimately show ?thesis by simp
qed

subsection \<open>HandleAppendEntries\<close>

lemma HandleAppendEntries_stale:
  assumes "ae_Term req < CurrentTerm n"
  shows "HandleAppendEntries req n =
    Inr (n, \<lparr>aer_Term = CurrentTerm n, aer_Success = False, aer_MatchIndex = 0\<rparr>)"
  using assms by (simp add: HandleAppendEntries_def)

lemma HandleAppendEntries_mismatch:
  assumes "CurrentTerm n \<le> ae_Term req" and "prev_mismatch req (Log n)"
  shows "\<exists>n' resp. HandleAppendEntries req n = Inr (n', resp) \<and> handler_frame n n' \<and>
    \<not> aer_Success resp \<and> aer_Term resp = ae_Term req \<and> CurrentTerm n' = ae_Term req \<and>
    State n' = Follower \<and> CommitIndex n' = CommitIndex n \<and>
    VotedFor n' = (if ae_Term req > CurrentTerm n then '''' else VotedFor n) \<and>
    Log n' = take (nat (ae_PrevLogIndex req)) (Log n)"
proof -
  let ?a = "accept_term req n"
  obtain n' where n': "check_prev req ?a = Inl n'"
    and log: "Log n' = take (nat (ae_PrevLogIndex req)) (Log n)"
    using check_prev_mismatch [of req ?a] assms(2) by (auto simp: node_simps)
  have same: "same_but_log ?a n'" "j_open (wal n') = j_open (wal ?a)"
    using check_prev_same(1) [OF n'] by simp_all
  show ?thesis
    using assms(1) n' log
    by (simp add: HandleAppendEntries_def node_simps same_but_log_fields [OF same(1)] same(2)
        handler_frame_def)
qed

lemma HandleAppendEntries_accept:
  assumes "CurrentTerm n \<le> ae_Term req" and "\<not> prev_mismatch req (Log n)"
    and "-1 \<le> ae_PrevLogIndex req"
  shows "\<exists>n' resp. HandleAppendEntries req n = Inr (n', resp) \<and> handler_frame n n' \<and>
    aer_Success resp \<and> aer_Term resp = ae_Term req \<and> CurrentTerm n' = ae_Term req \<and>
    State n' = Follower \<and> aer_MatchIndex resp = len (Log n') - 1 \<and>
    VotedFor n' = (if ae_Term req > CurrentTerm n then '''' else VotedFor n) \<and>
    Log n' = merge_log (nat (ae_PrevLogIndex req + 1)) (Log n) (ae_Entries req) \<and>
    CommitIndex n' =
      (if ae_LeaderCommit req > CommitIndex n then min (ae_LeaderCommit req) (len (Log n') - 1)
       else CommitIndex n)"
proof -
  let ?a = "accept_term req n" and ?k = "ae_PrevLogIndex req + 1"
  obtain n1 where n1: "check_prev req ?a = Inr n1" and k: "?k \<le> len (Log n1)"
    and merge: "merge_log (nat ?k) (Log n1) (ae_Entries req) = merge_log (nat ?k) (Log n) (ae_Entries req)"
    using check_prev_accept [of req ?a] assms(2,3) by (auto simp: node_simps)
  obtain n2 where n2: "append_new ?k (ae_Entries req) n1 = Inr n2"
    and log: "Log n2 = merge_log (nat ?k) (Log n1) (ae_Entries req)"
    using append_new_merge [of ?k n1] k assms(3) by auto
  have a: "same_but_log ?a n1" "j_open (wal n1) = j_open (wal ?a)"
    using check_prev_same(2) [OF n1] by simp_all
  have b: "same_but_log n1 n2" "j_open (wal n2) = j_open (wal n1)"
    using append_new_same [OF n2] append_new_open [OF n2] by simp_all
  note fields = same_but_log_fields [OF b(1)] same_but_log_fields [OF a(1)] a(2) b(2)
  show ?thesis
    using assms(1) n1 n2
    by (simp add: HandleAppendEntries_def Let_def node_simps fields handler_frame_def log merge)
qed

lemma HandleAppendEntries_total:
  assumes "-1 \<le> ae_PrevLogIndex req"
  shows "\<exists>n' resp. HandleAppendEntries req n = Inr (n', resp)"
  using HandleAppendEntries_stale [of req n] HandleAppendEntries_mismatch [of n req]
    HandleAppendEntries_accept [of n req, OF _ _ assms]
  by (meson not_le)

text \<open>An early return or an acceptance, whichever the index: the term and its reply.\<close>

lemma HandleAppendEntries_terms:
  assumes "HandleAppendEntries req n = Inr (n', resp)"
  shows "CurrentTerm n' = max (CurrentTerm n) (ae_Term req)" and "aer_Term resp = CurrentTerm n'"
    and "aer_Success resp \<Longrightarrow> CurrentTerm n \<le> ae_Term req"
    and "VotedFor n' = (if ae_Term req > CurrentTerm n then '''' else VotedFor n)"
    and "handler_frame n n'"
proof -
  let ?a = "accept_term req n"
  have "CurrentTerm n' = max (CurrentTerm n) (ae_Term req) \<and> aer_Term resp = CurrentTerm n' \<and>
      (aer_Success resp \<longrightarrow> CurrentTerm n \<le> ae_Term req) \<and>
      VotedFor n' = (if ae_Term req > CurrentTerm n then '''' else VotedFor n) \<and> handler_frame n n'"
  proof (cases "ae_Term req < CurrentTerm n")
    case True
    then show ?thesis
      using assms by (auto simp: HandleAppendEntries_def handler_frame_def)
  next
    case False
    then have t: "CurrentTerm ?a = ae_Term req" by (simp add: node_simps)
    show ?thesis
    proof (cases "check_prev req ?a")
      case (Inl n1)
      then have same: "same_but_log ?a n1" "j_open (wal n1) = j_open (wal ?a)"
        using check_prev_same(1) by simp_all
      have n': "n' = n1"
        and resp: "resp = \<lparr>aer_Term = CurrentTerm n', aer_Success = False, aer_MatchIndex = 0\<rparr>"
        using assms False Inl by (auto simp: HandleAppendEntries_def)
      show ?thesis
        unfolding n' resp using False t
        by (auto simp: same_but_log_fields [OF same(1)] same(2) node_simps handler_frame_def)
    next
      case (Inr n1)
      then obtain n2 where n2: "append_new (ae_PrevLogIndex req + 1) (ae_Entries req) n1 = Inr n2"
        and n': "n' = follow_commit req n2"
        and resp: "resp = \<lparr>aer_Term = CurrentTerm n', aer_Success = True,
          aer_MatchIndex = len (Log n') - 1\<rparr>"
        using assms False by (auto simp: HandleAppendEntries_def go_bind_Inr_iff Let_def)
      have same: "same_but_log ?a n1" "j_open (wal n1) = j_open (wal ?a)"
        using check_prev_same(2) [OF Inr] by simp_all
      note fields = same_but_log_fields [OF append_new_same [OF n2]] append_new_open [OF n2]
        same_but_log_fields [OF same(1)] same(2)
      show ?thesis
        using False t by (auto simp: n' resp fields node_simps handler_frame_def)
    qed
  qed
  then show "CurrentTerm n' = max (CurrentTerm n) (ae_Term req)" "aer_Term resp = CurrentTerm n'"
    "aer_Success resp \<Longrightarrow> CurrentTerm n \<le> ae_Term req"
    "VotedFor n' = (if ae_Term req > CurrentTerm n then '''' else VotedFor n)" "handler_frame n n'"
    by simp_all
qed

subsection \<open>HandleRequestVote\<close>

lemma HandleRequestVote_frame:
  assumes "HandleRequestVote req n = (n', resp)"
  shows "handler_frame n n'" and "Log n' = Log n" and "CommitIndex n' = CommitIndex n"
    and "CurrentTerm n' = max (CurrentTerm n) (rv_Term req)" and "rvr_Term resp = CurrentTerm n'"
  using assms
  by (auto simp: HandleRequestVote_def Let_def node_simps handler_frame_def split: if_splits)

lemma HandleRequestVote_state:
  assumes "HandleRequestVote req n = (n', resp)"
  shows "State n' = (if rv_Term req > CurrentTerm n then Follower else State n)"
  using assms by (auto simp: HandleRequestVote_def Let_def node_simps split: if_splits)

lemma HandleRequestVote_granted:
  assumes "HandleRequestVote req n = (n', resp)" and "rvr_VoteGranted resp"
  shows "CurrentTerm n' = rv_Term req" and "VotedFor n' = rv_CandidateID req"
    and "log_up_to_date req (Log n)" and "CurrentTerm n \<le> rv_Term req"
    and "CurrentTerm n = rv_Term req \<Longrightarrow> VotedFor n = '''' \<or> VotedFor n = rv_CandidateID req"
  using assms by (auto simp: HandleRequestVote_def Let_def node_simps split: if_splits)

lemma HandleRequestVote_refused:
  assumes "HandleRequestVote req n = (n', resp)" and "\<not> rvr_VoteGranted resp"
  shows "VotedFor n' = (if rv_Term req > CurrentTerm n then '''' else VotedFor n)"
  using assms by (auto simp: HandleRequestVote_def Let_def node_simps split: if_splits)

text \<open>A vote is granted exactly when the request is not stale, the voter is free to vote for the
  candidate in that term, and the candidate's log is at least as up to date.\<close>

lemma HandleRequestVote_iff:
  "rvr_VoteGranted (snd (HandleRequestVote req n)) \<longleftrightarrow>
     CurrentTerm n \<le> rv_Term req \<and>
     (CurrentTerm n = rv_Term req \<longrightarrow> VotedFor n = '''' \<or> VotedFor n = rv_CandidateID req) \<and>
     log_up_to_date req (Log n)"
  by (auto simp: HandleRequestVote_def Let_def node_simps)

subsection \<open>The contract\<close>

interpretation raft_rpc: rpc_handler HandleRequestVote HandleAppendEntries CurrentTerm
proof unfold_locales
  fix req :: RequestVoteRequest and s s' resp
  assume "HandleRequestVote req s = (s', resp)"
  note h = this
  show "CurrentTerm s \<le> CurrentTerm s'" and "rvr_Term resp = CurrentTerm s'"
    and "rvr_VoteGranted resp \<Longrightarrow> CurrentTerm s' = rv_Term req"
    using HandleRequestVote_frame(4,5) [OF h] HandleRequestVote_granted(1) [OF h] by auto
next
  fix areq :: AppendEntriesRequest and s s' aresp
  assume h: "HandleAppendEntries areq s = Inr (s', aresp)"
  then show "CurrentTerm s \<le> CurrentTerm s'" and "aer_Term aresp = CurrentTerm s'"
    and "aer_Success aresp \<Longrightarrow> CurrentTerm s' = ae_Term areq"
    using HandleAppendEntries_terms [OF h] by auto
qed

subsection \<open>Properties\<close>

text \<open>
  C23: the voting rule. \<open>HandleRequestVote\<close> grants a vote exactly when the request's term is not
  below the node's, the node has not voted for somebody else in that term, and the candidate's log
  ends in a higher term or in the same term at an index that is not smaller. A granted vote is in
  \<open>VotedFor\<close> and is the last record of the journal before the reply is sent; a refusal never sets
  a vote; the log is untouched in both cases.
\<close>

theorem vote_rule:
  assumes "HandleRequestVote req n = (n', resp)" and "j_open (wal n)"
  shows "(rvr_VoteGranted resp \<longleftrightarrow> CurrentTerm n \<le> rv_Term req \<and>
      (CurrentTerm n = rv_Term req \<longrightarrow> VotedFor n = '''' \<or> VotedFor n = rv_CandidateID req) \<and>
      (lastLogTerm (Log n) < rv_LastLogTerm req \<or>
       lastLogTerm (Log n) = rv_LastLogTerm req \<and> lastLogIndex (Log n) \<le> rv_LastLogIndex req)) \<and>
    rvr_Term resp = max (CurrentTerm n) (rv_Term req) \<and> CurrentTerm n' = rvr_Term resp \<and>
    Log n' = Log n \<and>
    (if rvr_VoteGranted resp
     then VotedFor n' = rv_CandidateID req \<and>
       last (records n') = state_record (rv_Term req) (rv_CandidateID req)
     else VotedFor n' = (if CurrentTerm n < rv_Term req then '''' else VotedFor n))"
proof -
  have "last (records n') = state_record (rv_Term req) (rv_CandidateID req)" if "rvr_VoteGranted resp"
    using assms that
    by (auto simp: HandleRequestVote_def Let_def node_simps log_up_to_date_def split: if_splits)
  then show ?thesis
    using HandleRequestVote_iff [of req n] HandleRequestVote_frame [OF assms(1)] assms(1)
      HandleRequestVote_granted(2) [OF assms(1)] HandleRequestVote_refused [OF assms(1)]
    by (auto simp: log_up_to_date_def split: if_splits)
qed

theorem vote_rule_witness:
  "rvr_VoteGranted (snd (HandleRequestVote
     \<lparr>rv_Term = 2, rv_CandidateID = ''n2'', rv_LastLogIndex = 0, rv_LastLogTerm = 1\<rparr>
     (sample_node [sample_entry 0 1 ''a'' ''1''] (-1)))) \<and>
   \<not> rvr_VoteGranted (snd (HandleRequestVote
     \<lparr>rv_Term = 2, rv_CandidateID = ''n2'', rv_LastLogIndex = 5, rv_LastLogTerm = 0\<rparr>
     (sample_node [sample_entry 0 1 ''a'' ''1''] (-1))))"
  using vote_rule [OF prod.collapse [symmetric], where req =
      "\<lparr>rv_Term = 2, rv_CandidateID = ''n2'', rv_LastLogIndex = 0, rv_LastLogTerm = 1\<rparr>"
      and n = "sample_node [sample_entry 0 1 ''a'' ''1''] (-1)"]
    vote_rule [OF prod.collapse [symmetric], where req =
      "\<lparr>rv_Term = 2, rv_CandidateID = ''n2'', rv_LastLogIndex = 5, rv_LastLogTerm = 0\<rparr>"
      and n = "sample_node [sample_entry 0 1 ''a'' ''1''] (-1)"]
  by (simp add: sample_node_def sample_entry_def lastLogTerm_def lastLogIndex_def)

text \<open>
  C24: a request that passes the consistency check. The node takes over the request's term as a
  follower, its log is the merge of its own log with the request's entries after
  \<^verbatim>\<open>PrevLogIndex\<close> (what agrees in term is kept, the first conflict cuts the log), the commit
  index follows the leader's up to the end of the log, and the reply is positive.
\<close>

theorem append_entries_accept:
  assumes "CurrentTerm n \<le> ae_Term req" and "\<not> prev_mismatch req (Log n)"
    and "-1 \<le> ae_PrevLogIndex req"
  shows "\<exists>n' resp. HandleAppendEntries req n = Inr (n', resp) \<and> aer_Success resp \<and>
    aer_Term resp = ae_Term req \<and> CurrentTerm n' = ae_Term req \<and> State n' = Follower \<and>
    Log n' = merge_log (nat (ae_PrevLogIndex req + 1)) (Log n) (ae_Entries req) \<and>
    CommitIndex n' = (if CommitIndex n < ae_LeaderCommit req
       then min (ae_LeaderCommit req) (len (Log n') - 1) else CommitIndex n)"
  using HandleAppendEntries_accept [OF assms] by fastforce

theorem append_entries_accept_witness:
  "\<exists>n' resp. HandleAppendEntries \<lparr>ae_Term = 2, ae_LeaderID = ''n2'', ae_PrevLogIndex = 0,
      ae_PrevLogTerm = 1, ae_Entries = [sample_entry 1 2 ''b'' ''3''], ae_LeaderCommit = 5\<rparr>
      (sample_node [sample_entry 0 1 ''a'' ''1'', sample_entry 1 1 ''a'' ''2''] (-1)) = Inr (n', resp) \<and>
    Log n' = [sample_entry 0 1 ''a'' ''1'', sample_entry 1 2 ''b'' ''3''] \<and> CommitIndex n' = 1"
  using append_entries_accept [of "sample_node [sample_entry 0 1 ''a'' ''1'', sample_entry 1 1 ''a'' ''2''] (-1)"
      "\<lparr>ae_Term = 2, ae_LeaderID = ''n2'', ae_PrevLogIndex = 0,
      ae_PrevLogTerm = 1, ae_Entries = [sample_entry 1 2 ''b'' ''3''], ae_LeaderCommit = 5\<rparr>"]
  by (auto simp: sample_node_def sample_entry_def prev_mismatch_def merge_log_def)

text \<open>
  C29: when \<open>HandleAppendEntries\<close> panics. It indexes the log with \<^verbatim>\<open>PrevLogIndex + 1\<close>, which is
  negative for a request with a \<^verbatim>\<open>PrevLogIndex\<close> below \<open>-1\<close>; such a request with entries and a
  current term ends the process, and no other request does.
\<close>

theorem append_entries_panics_iff:
  "(\<exists>p. HandleAppendEntries req n = Inl p) \<longleftrightarrow>
     CurrentTerm n \<le> ae_Term req \<and> ae_PrevLogIndex req < -1 \<and> ae_Entries req \<noteq> []"
proof (cases "-1 \<le> ae_PrevLogIndex req")
  case True
  then show ?thesis using HandleAppendEntries_total [OF True, of n] by auto
next
  case False
  then show ?thesis
    by (cases "ae_Entries req")
      (auto simp: HandleAppendEntries_def check_prev_def index_at_def Let_def)
qed

end
