(* ===== verification/Durability.thy ===== *)
theory Durability
  imports Recovery Handlers
begin

text \<open>
  What a node's journal says about it. \<open>journal_state\<close> is the persistent state that the replay of
  the journal gives; \<open>durable\<close> says that term, vote and log of the node are those, and
  \<open>commit_durable\<close> that the commit index is. Every operation of a node with an open journal keeps
  them, so a restart at any moment between operations loses none of them.
\<close>

record persistent =
  p_term :: int
  p_vote :: string
  p_log :: "LogEntry list"
  p_commit :: int

definition persist_of :: "node \<Rightarrow> persistent" where
  "persist_of n = \<lparr>p_term = CurrentTerm n, p_vote = VotedFor n, p_log = Log n, p_commit = CommitIndex n\<rparr>"

definition blank_node :: "persistent \<Rightarrow> node" where
  "blank_node p =
     (initial_node '''' '''' [] \<lparr>j_open = True, j_records = []\<rparr>)
       \<lparr>CurrentTerm := p_term p, VotedFor := p_vote p, Log := p_log p, CommitIndex := p_commit p\<rparr>"

definition persist_replay :: "WALRecord \<Rightarrow> persistent \<Rightarrow> persistent" where
  "persist_replay r p = persist_of (replay_record r (blank_node p))"

definition persist0 :: persistent where
  "persist0 = \<lparr>p_term = 0, p_vote = '''', p_log = [], p_commit = -1\<rparr>"

definition journal_state :: "node \<Rightarrow> persistent" where
  "journal_state n = fold persist_replay (records n) persist0"

definition durable :: "node \<Rightarrow> bool" where
  "durable n \<longleftrightarrow>
     p_term (journal_state n) = CurrentTerm n \<and> p_vote (journal_state n) = VotedFor n \<and>
     p_log (journal_state n) = Log n"

definition commit_durable :: "node \<Rightarrow> bool" where
  "commit_durable n \<longleftrightarrow> p_commit (journal_state n) = CommitIndex n"

subsection \<open>Replay of single records\<close>

lemma persist_of_replay: "persist_of (replay_record r n) = persist_replay r (persist_of n)"
  by (simp add: persist_replay_def persist_of_def blank_node_def replay_record_def Let_def
      split: option.splits)

lemma persist_of_fold_replay:
  "persist_of (fold replay_record rs n) = fold persist_replay rs (persist_of n)"
  by (induction rs arbitrary: n) (simp_all add: persist_of_replay)

lemmas persist_replay_defs =
  persist_replay_def persist_of_def blank_node_def replay_record_def initial_node_def

lemma persist_replay_records [simp]:
  "persist_replay (state_record t v) p = p\<lparr>p_term := t, p_vote := v\<rparr>"
  "persist_replay (entry_record e) p = p\<lparr>p_log := p_log p @ [e]\<rparr>"
  "persist_replay (commit_record i) p = p\<lparr>p_commit := max (p_commit p) i\<rparr>"
  by (simp_all add: persist_replay_defs state_record_def entry_record_def commit_record_def)

lemma persist_replay_truncate [simp]:
  "persist_replay (truncate_record i) p = p\<lparr>p_log := take (nat (i + 1)) (p_log p)\<rparr>"
  by (simp add: persist_replay_defs truncate_record_def Let_def)

lemma journal_state_append:
  "j_open (wal n) \<Longrightarrow> wal n' = wal_append r (wal n) \<Longrightarrow>
   journal_state n' = persist_replay r (journal_state n)"
  by (simp add: journal_state_def)

lemma journal_state_cong: "wal n' = wal n \<Longrightarrow> journal_state n' = journal_state n"
  by (simp add: journal_state_def)

lemma persist_replay_commit_ge: "p_commit p \<le> p_commit (persist_replay r p)"
  by (simp add: persist_replay_defs Let_def split: option.splits)

lemma journal_commit_ge: "-1 \<le> p_commit (journal_state n)"
proof -
  have "p_commit p \<le> p_commit (fold persist_replay rs p)" for rs p
    by (induction rs arbitrary: p) (auto intro: order_trans [OF persist_replay_commit_ge])
  from this [of persist0] show ?thesis
    by (simp add: journal_state_def persist0_def)
qed

subsection \<open>The operations keep the journal in step\<close>

lemma durable_stepDown:
  assumes "j_open (wal n)" and "durable n"
  shows "durable (stepDown t n)" and "commit_durable n \<Longrightarrow> commit_durable (stepDown t n)"
  using assms by (simp_all add: durable_def commit_durable_def node_simps journal_state_def)

lemma durable_becomeLeader:
  "durable (becomeLeader n) = durable n" "commit_durable (becomeLeader n) = commit_durable n"
  by (simp_all add: durable_def commit_durable_def node_simps journal_state_def)

lemma durable_resetElectionTimer:
  "durable (resetElectionTimer n) = durable n"
  "commit_durable (resetElectionTimer n) = commit_durable n"
  by (simp_all add: durable_def commit_durable_def node_simps journal_state_def)

lemma durable_startElection_begin:
  assumes "j_open (wal n)" and "durable n" and "startElection_begin n = (n', el)"
  shows "durable n'" and "commit_durable n \<Longrightarrow> commit_durable n'"
  using assms
  by (auto simp: startElection_begin_def Let_def node_simps durable_def commit_durable_def
      journal_state_def split: if_splits)

lemma durable_HandleRequestVote:
  assumes "j_open (wal n)" and "durable n" and "HandleRequestVote req n = (n', resp)"
  shows "durable n'" and "commit_durable n \<Longrightarrow> commit_durable n'"
  using assms
  by (auto simp: HandleRequestVote_def Let_def node_simps durable_def commit_durable_def
      journal_state_def split: if_splits)

lemma durable_log_ops:
  assumes "j_open (wal n)" and "durable n"
  shows "durable (append_entry e n)" and "durable (truncate_log i n)"
    and "commit_durable n \<Longrightarrow> commit_durable (append_entry e n)"
    and "commit_durable n \<Longrightarrow> commit_durable (truncate_log i n)"
  using assms append_entry_same [of n e] truncate_log_same [of n i]
  by (simp_all add: durable_def commit_durable_def node_simps journal_state_def
      same_but_log_fields [OF append_entry_same] same_but_log_fields [OF truncate_log_same])

lemma durable_fold_append_entry:
  assumes "j_open (wal n)" and "durable n"
  shows "durable (fold append_entry es n) \<and>
    (commit_durable n \<longrightarrow> commit_durable (fold append_entry es n))"
  using assms
  by (induction es arbitrary: n) (auto simp: node_simps durable_log_ops)

lemma durable_append_new:
  assumes "append_new idx es n = Inr n'" and "j_open (wal n)" and "durable n"
  shows "durable n' \<and> (commit_durable n \<longrightarrow> commit_durable n')"
  using assms
proof (induction idx es n arbitrary: n' rule: append_new.induct)
  case (1 idx n)
  then show ?case by simp
next
  case (2 idx entry rest n)
  show ?case
  proof (cases "idx < len (Log n)")
    case True
    with "2.prems"(1) obtain e where e: "index_at (Log n) idx = Inr e"
      by (auto simp: go_bind_Inr_iff)
    show ?thesis
    proof (cases "Term e = Term entry")
      case eq: True
      then show ?thesis using "2.IH"(1) [OF True] "2.prems" True e by simp
    next
      case False
      then have n': "n' = fold append_entry (entry # rest) (truncate_log idx n)"
        using "2.prems"(1) True e by simp
      show ?thesis
        using durable_fold_append_entry [of "truncate_log idx n" "entry # rest"]
          durable_log_ops [OF "2.prems"(2,3)] "2.prems"(2) n'
        by (simp add: node_simps)
    qed
  next
    case False
    then have "append_new (idx + 1) rest (append_entry entry n) = Inr n'"
      using "2.prems" by simp
    then show ?thesis
      using "2.IH"(2) [OF False] durable_log_ops [OF "2.prems"(2,3)] "2.prems"(2)
      by (simp add: node_simps)
  qed
qed

lemma durable_accept_term:
  assumes "j_open (wal n)" and "durable n"
  shows "durable (accept_term req n)" and "commit_durable n \<Longrightarrow> commit_durable (accept_term req n)"
  using assms
  by (auto simp: accept_term_def durable_resetElectionTimer durable_stepDown)
    (simp_all add: durable_def commit_durable_def journal_state_def)

lemma durable_check_prev:
  assumes "j_open (wal n)" and "durable n" and "check_prev req n = Inl n' \<or> check_prev req n = Inr n'"
  shows "durable n'" and "commit_durable n \<Longrightarrow> commit_durable n'"
  using assms by (auto simp: check_prev_def Let_def durable_log_ops split: if_splits)

lemma durable_follow_commit:
  assumes "j_open (wal n)"
  shows "durable n \<Longrightarrow> durable (follow_commit req n)"
    and "commit_durable n \<Longrightarrow> CommitIndex n < len (Log n) \<Longrightarrow> commit_durable (follow_commit req n)"
  using assms
  by (auto simp: follow_commit_def Let_def durable_def commit_durable_def node_simps journal_state_def)

lemma HandleAppendEntries_durable:
  assumes "j_open (wal n)" and "durable n" and "HandleAppendEntries req n = Inr (n', resp)"
  shows "durable n'" and "commit_durable n \<Longrightarrow> CommitIndex n < len (Log n') \<Longrightarrow> commit_durable n'"
proof -
  let ?a = "accept_term req n"
  have a: "durable ?a" "commit_durable n \<Longrightarrow> commit_durable ?a" "j_open (wal ?a)"
    using durable_accept_term [OF assms(1,2)] assms(1) by (simp_all add: node_simps)
  have "durable n' \<and> (commit_durable n \<longrightarrow> CommitIndex n < len (Log n') \<longrightarrow> commit_durable n')"
  proof (cases "ae_Term req < CurrentTerm n")
    case True
    then show ?thesis using assms by (auto simp: HandleAppendEntries_def)
  next
    case False
    show ?thesis
    proof (cases "check_prev req ?a")
      case (Inl n1)
      then have "n' = n1" using assms(3) False by (auto simp: HandleAppendEntries_def)
      then show ?thesis using durable_check_prev [OF a(3,1), of req n1] a(2) Inl by auto
    next
      case (Inr n1)
      then obtain n2 where n2: "append_new (ae_PrevLogIndex req + 1) (ae_Entries req) n1 = Inr n2"
        and n': "n' = follow_commit req n2"
        using assms(3) False by (auto simp: HandleAppendEntries_def go_bind_Inr_iff Let_def)
      have s1: "same_but_log ?a n1" "j_open (wal n1)"
        using check_prev_same(2) [OF Inr] a(3) by simp_all
      have d1: "durable n1" "commit_durable n \<Longrightarrow> commit_durable n1"
        using durable_check_prev [OF a(3,1), of req n1] a(2) Inr by auto
      have o2: "j_open (wal n2)" using append_new_open [OF n2] s1(2) by simp
      have c2: "CommitIndex n2 = CommitIndex n"
        using same_but_log_fields(7) [OF append_new_same [OF n2]] same_but_log_fields(7) [OF s1(1)]
        by (simp add: node_simps)
      show ?thesis
        using durable_append_new [OF n2 s1(2) d1(1)] d1(2) durable_follow_commit [OF o2, of req]
        by (auto simp: n' node_simps c2)
    qed
  qed
  then show "durable n'" "commit_durable n \<Longrightarrow> CommitIndex n < len (Log n') \<Longrightarrow> commit_durable n'"
    by simp_all
qed

lemma advance_from_result:
  assumes "advance_from N n = Inr n'"
  shows "n' = n \<or> (\<exists>k. CommitIndex n < k \<and> k \<le> N \<and> k < len (Log n) \<and> 0 \<le> k \<and>
      Term (Log n ! nat k) = CurrentTerm n \<and>
      1 + len (filter (\<lambda>(i, match). match \<ge> k) (MatchIndex n)) > (len (Peers n) + 1) div 2 \<and>
      n' = notifyApply (node_append (commit_record k) (n\<lparr>CommitIndex := k\<rparr>)))"
  using assms
proof (induction N n rule: advance_from.induct)
  case (1 N n)
  show ?case
  proof (cases "N > CommitIndex n")
    case True
    then obtain e where e: "index_at (Log n) N = Inr e"
      using "1.prems" by (auto simp: advance_from.simps [of N] go_bind_Inr_iff)
    then have e': "0 \<le> N" "N < len (Log n)" "e = Log n ! nat N"
      by (auto simp: index_at_Inr_iff)
    show ?thesis
    proof (cases "Term e = CurrentTerm n \<and>
        1 + len (filter (\<lambda>(i, match). match \<ge> N) (MatchIndex n)) > (len (Peers n) + 1) div 2")
      case True
      then show ?thesis
        using "1.prems" \<open>N > CommitIndex n\<close> e e'
        by (intro disjI2 exI [where x = N]) (simp add: advance_from.simps [of N])
    next
      case False
      then have "advance_from (N - 1) n = Inr n'"
        using "1.prems" True e by (auto simp: advance_from.simps [of N] split: if_splits)
      then have "n' = n \<or> (\<exists>k. CommitIndex n < k \<and> k \<le> N - 1 \<and> k < len (Log n) \<and> 0 \<le> k \<and>
          Term (Log n ! nat k) = CurrentTerm n \<and>
          1 + len (filter (\<lambda>(i, match). match \<ge> k) (MatchIndex n)) > (len (Peers n) + 1) div 2 \<and>
          n' = notifyApply (node_append (commit_record k) (n\<lparr>CommitIndex := k\<rparr>)))"
        using "1.IH" True e False by (cases "Term e = CurrentTerm n") auto
      then show ?thesis by force
    qed
  next
    case False
    then show ?thesis using "1.prems" by (simp add: advance_from.simps [of N])
  qed
qed

lemma advance_from_total:
  assumes "-1 \<le> CommitIndex n" and "N < len (Log n)"
  shows "\<exists>n'. advance_from N n = Inr n'"
  using assms
proof (induction N n rule: advance_from.induct)
  case (1 N n)
  show ?case
  proof (cases "N > CommitIndex n")
    case True
    then have "index_at (Log n) N = Inr (Log n ! nat N)" using "1.prems" by simp
    then show ?thesis
      using "1.IH" [OF True, of "Log n ! nat N"] "1.prems" True
      by (auto simp: advance_from.simps [of N])
  next
    case False
    then show ?thesis by (simp add: advance_from.simps [of N])
  qed
qed

lemma durable_advance:
  assumes "advance_from N n = Inr n'" and "j_open (wal n)" and "durable n"
  shows "durable n'" and "commit_durable n \<Longrightarrow> commit_durable n'"
  using advance_from_result [OF assms(1)] assms(2,3)
  by (auto simp: durable_def commit_durable_def node_simps journal_state_def)

subsection \<open>Restart\<close>

lemma replay_record_frame:
  "replay_record r n = n\<lparr>CurrentTerm := CurrentTerm (replay_record r n),
     VotedFor := VotedFor (replay_record r n), Log := Log (replay_record r n),
     CommitIndex := CommitIndex (replay_record r n)\<rparr>"
  by (cases n) (simp add: replay_record_def Let_def split: option.splits)

text \<open>Fields other than the four persistent ones are those of the initial node.\<close>

definition replay_keeps :: "node \<Rightarrow> node \<Rightarrow> bool" where
  "replay_keeps n n' \<longleftrightarrow> n' = n\<lparr>CurrentTerm := CurrentTerm n', VotedFor := VotedFor n',
     Log := Log n', CommitIndex := CommitIndex n'\<rparr>"

lemma replay_keeps_trans: "replay_keeps a b \<Longrightarrow> replay_keeps b c \<Longrightarrow> replay_keeps a c"
  by (cases a, cases b, cases c) (simp add: replay_keeps_def)

lemma fold_replay_keeps: "replay_keeps n (fold replay_record rs n)"
proof (induction rs arbitrary: n)
  case Nil
  then show ?case by (simp add: replay_keeps_def)
next
  case (Cons r rs)
  have "replay_keeps n (replay_record r n)"
    using replay_record_frame by (simp add: replay_keeps_def)
  then show ?case using Cons replay_keeps_trans by fastforce
qed

lemma replay_committed_result:
  assumes "0 \<le> i" and "i \<le> len (Log n)" and "LastApplied n = i - 1"
    and "KVStore n = run_log (Log n) (i - 1)"
  shows "replay_committed i n = n\<lparr>LastApplied := apply_target n, KVStore := run_log (Log n) (apply_target n)\<rparr>"
  using assms
proof (induction i n rule: replay_committed.induct)
  case (1 i n)
  show ?case
  proof (cases "0 \<le> i \<and> i \<le> CommitIndex n \<and> i < len (Log n)")
    case True
    let ?n = "n\<lparr>KVStore := apply_entry (Log n ! nat i) (KVStore n), LastApplied := i\<rparr>"
    have "KVStore ?n = run_log (Log ?n) (i + 1 - 1)"
      using run_log_step [of "i - 1" "Log n"] True "1.prems" by simp
    then have "replay_committed (i + 1) ?n =
        ?n\<lparr>LastApplied := apply_target ?n, KVStore := run_log (Log ?n) (apply_target ?n)\<rparr>"
      using "1.IH" [OF True] True by simp
    moreover have "apply_target ?n = apply_target n"
      using True "1.prems" by (auto simp: apply_target_def)
    ultimately show ?thesis
      using True by (simp add: replay_committed.simps [of i])
  next
    case False
    then have "apply_target n = i - 1"
      using "1.prems" by (auto simp: apply_target_def)
    moreover have "replay_committed i n = n"
      using False by (subst replay_committed.simps) auto
    ultimately show ?thesis
      using "1.prems" by simp
  qed
qed

lemma restart_eq:
  "restart n = (initial_node (ID n) (Addr n) (Peers n) \<lparr>j_open = True, j_records = records n\<rparr>)
     \<lparr>CurrentTerm := p_term (journal_state n), VotedFor := p_vote (journal_state n),
      Log := p_log (journal_state n), CommitIndex := p_commit (journal_state n),
      LastApplied := min (p_commit (journal_state n)) (len (p_log (journal_state n)) - 1),
      KVStore := run_log (p_log (journal_state n))
        (min (p_commit (journal_state n)) (len (p_log (journal_state n)) - 1)),
      electionTimer := Armed 0\<rparr>"
proof -
  let ?i = "initial_node (ID n) (Addr n) (Peers n) \<lparr>j_open = True, j_records = records n\<rparr>"
  let ?m = "fold replay_record (records n) ?i" and ?p = "journal_state n"
  have pm: "persist_of ?m = ?p"
    by (simp add: persist_of_fold_replay journal_state_def persist0_def)
      (simp add: persist_of_def initial_node_def)
  have p: "CurrentTerm ?m = p_term ?p" "VotedFor ?m = p_vote ?p" "Log ?m = p_log ?p"
    "CommitIndex ?m = p_commit ?p"
    unfolding pm [symmetric] by (simp_all add: persist_of_def)
  have m: "?m = ?i\<lparr>CurrentTerm := p_term ?p, VotedFor := p_vote ?p, Log := p_log ?p,
      CommitIndex := p_commit ?p\<rparr>"
    using fold_replay_keeps [of ?i "records n"] unfolding replay_keeps_def p .
  have t: "apply_target ?m = min (p_commit ?p) (len (p_log ?p) - 1)"
    using journal_commit_ge [of n] unfolding m by (simp add: apply_target_def initial_node_def)
  have "replay_committed 0 ?m = ?m\<lparr>LastApplied := apply_target ?m, KVStore := run_log (Log ?m) (apply_target ?m)\<rparr>"
  proof (rule replay_committed_result)
    show "LastApplied ?m = 0 - 1" "KVStore ?m = run_log (Log ?m) (0 - 1)"
      by (subst m, simp add: initial_node_def)+
  qed simp_all
  then have "recoverState (records n, None) ?i =
      ?m\<lparr>LastApplied := apply_target ?m, KVStore := run_log (Log ?m) (apply_target ?m)\<rparr>"
    by (simp add: recoverState_def)
  then have "restart n = resetElectionTimer (?m\<lparr>LastApplied := min (p_commit ?p) (len (p_log ?p) - 1),
      KVStore := run_log (p_log ?p) (min (p_commit ?p) (len (p_log ?p) - 1))\<rparr>)"
    by (simp only: restart_def NewNode_def t p(3))
  then show ?thesis
    unfolding m by (simp add: resetElectionTimer_def initial_node_def)
qed

lemma restart_fields [node_simps]:
  "ID (restart n) = ID n" "Addr (restart n) = Addr n" "Peers (restart n) = Peers n"
  "State (restart n) = Follower"
  "CurrentTerm (restart n) = p_term (journal_state n)"
  "VotedFor (restart n) = p_vote (journal_state n)"
  "Log (restart n) = p_log (journal_state n)"
  "CommitIndex (restart n) = p_commit (journal_state n)"
  "LastApplied (restart n) = min (p_commit (journal_state n)) (len (p_log (journal_state n)) - 1)"
  "wal (restart n) = \<lparr>j_open = True, j_records = records n\<rparr>"
  "NextIndex (restart n) = []" "MatchIndex (restart n) = []" "stopped (restart n) = False"
  "KVStore (restart n) = run_log (Log (restart n)) (LastApplied (restart n))"
  by (simp_all add: restart_eq initial_node_def)

lemma journal_state_restart [simp]: "journal_state (restart n) = journal_state n"
  by (simp add: journal_state_def node_simps)

lemma durable_restart: "durable (restart n)" "commit_durable (restart n)"
  by (simp_all add: durable_def commit_durable_def node_simps)

lemma applied_ok_restart: "applied_ok (restart n)"
  using journal_commit_ge [of n] by (simp add: applied_ok_def node_simps)

subsection \<open>A node serving calls and crashing\<close>

text \<open>A life of a node: the calls it serves, in order, with restarts (\<open>None\<close>) in between.\<close>

fun serve :: "RPC option list \<Rightarrow> node \<Rightarrow> node go" where
  "serve [] n = Inr n"
| "serve (None # xs) n = serve xs (restart n)"
| "serve (Some rpc # xs) n =
     go_bind (handleConn HandleRequestVote HandleAppendEntries rpc n) (\<lambda>(n', _). serve xs n')"

lemma handleConn_cases:
  assumes "handleConn HandleRequestVote HandleAppendEntries rpc n = Inr (n', reply)"
  obtains "n' = n"
  | req resp where "HandleRequestVote req n = (n', resp)"
  | req resp where "HandleAppendEntries req n = Inr (n', resp)"
  using assms by (auto simp: handleConn_def split: if_splits option.splits sum.splits prod.splits)

definition voted :: "int \<Rightarrow> string \<Rightarrow> node \<Rightarrow> bool" where
  "voted t c n \<longleftrightarrow> t < CurrentTerm n \<or> t = CurrentTerm n \<and> VotedFor n = c"

lemma HandleRequestVote_voted:
  assumes "HandleRequestVote req n = (n', resp)" and "voted t c n" and "c \<noteq> ''''"
  shows "voted t c n'"
  using assms HandleRequestVote_frame(4) [OF assms(1)] HandleRequestVote_granted [OF assms(1)]
    HandleRequestVote_refused [OF assms(1)]
  by (cases "rvr_VoteGranted resp") (auto simp: voted_def)

lemma serve_one:
  assumes "handleConn HandleRequestVote HandleAppendEntries rpc n = Inr (n', reply)"
    and "durable n" and "j_open (wal n)" and "c \<noteq> ''''"
  shows "durable n' \<and> j_open (wal n') \<and> (voted t c n \<longrightarrow> voted t c n')"
  using assms(1)
proof (cases rule: handleConn_cases)
  case 1
  then show ?thesis using assms by simp
next
  case (2 req resp)
  then show ?thesis
    using durable_HandleRequestVote(1) [OF assms(3,2) 2] HandleRequestVote_frame(1) [OF 2]
      HandleRequestVote_voted [OF 2 _ assms(4)] assms(3)
    by (auto simp: handler_frame_def)
next
  case (3 req resp)
  then show ?thesis
    using HandleAppendEntries_durable(1) [OF assms(3,2) 3] HandleAppendEntries_terms [OF 3] assms(3)
    by (auto simp: handler_frame_def voted_def)
qed

lemma serve_keeps:
  assumes "serve xs n = Inr n'" and "durable n" and "j_open (wal n)" and "c \<noteq> ''''"
  shows "durable n' \<and> j_open (wal n') \<and> (voted t c n \<longrightarrow> voted t c n')"
  using assms(1-3)
proof (induction xs n arbitrary: n' rule: serve.induct)
  case (2 xs n)
  have "voted t c n \<longrightarrow> voted t c (restart n)"
    using "2.prems"(2) by (simp add: voted_def node_simps durable_def)
  then show ?case
    using "2.IH" [of n'] "2.prems" durable_restart(1) [of n] by (simp add: node_simps)
next
  case (3 rpc xs n)
  then obtain n1 reply
    where h: "handleConn HandleRequestVote HandleAppendEntries rpc n = Inr (n1, reply)"
      and s: "serve xs n1 = Inr n'"
    by (auto simp: go_bind_Inr_iff)
  note one = serve_one [OF h "3.prems"(2,3) assms(4)]
  show ?case
    using "3.IH" [OF s] one by blast
qed simp

subsection \<open>Properties\<close>

text \<open>
  C22: a node votes for at most one candidate per term, across restarts. After it granted a vote
  it may serve any calls and crash and recover from its journal any number of times: a vote that it
  then grants for the same term is for the same candidate.
\<close>

theorem one_vote_per_term:
  assumes "durable n" and "j_open (wal n)"
    and "HandleRequestVote req1 n = (n1, resp1)" and "rvr_VoteGranted resp1"
    and "serve xs n1 = Inr n2"
    and "HandleRequestVote req2 n2 = (n3, resp2)" and "rvr_VoteGranted resp2"
    and "rv_Term req1 = rv_Term req2"
    and "rv_CandidateID req1 \<noteq> ''''" and "rv_CandidateID req2 \<noteq> ''''"
  shows "rv_CandidateID req1 = rv_CandidateID req2"
proof -
  have "voted (rv_Term req1) (rv_CandidateID req1) n1"
    using HandleRequestVote_granted(1,2) [OF assms(3,4)] by (simp add: voted_def)
  moreover have "durable n1" "j_open (wal n1)"
    using durable_HandleRequestVote(1) [OF assms(2,1,3)] HandleRequestVote_frame(1) [OF assms(3)] assms(2)
    by (simp_all add: handler_frame_def)
  ultimately have "voted (rv_Term req1) (rv_CandidateID req1) n2"
    using serve_keeps [OF assms(5) _ _ assms(9)] by blast
  then show ?thesis
    using HandleRequestVote_granted(4,5) [OF assms(6,7)] assms(8,9) by (auto simp: voted_def)
qed

text \<open>A node that starts on an empty disk.\<close>

definition fresh_node :: node where
  "fresh_node = NewNode ''n1'' ''h:1'' [(''n2'', ''h:2''), (''n3'', ''h:3'')]
     \<lparr>j_open = True, j_records = []\<rparr> ([], None)"

lemma fresh_node_restart: "fresh_node = restart (sample_node [] (-1))"
  by (simp add: fresh_node_def restart_def sample_node_def)

definition sample_vote :: "string \<Rightarrow> RequestVoteRequest" where
  "sample_vote c = \<lparr>rv_Term = 1, rv_CandidateID = c, rv_LastLogIndex = -1, rv_LastLogTerm = 0\<rparr>"

lemma fresh_node_grants:
  "rvr_VoteGranted (snd (HandleRequestVote (sample_vote c) fresh_node))"
  "rvr_VoteGranted (snd (HandleRequestVote (sample_vote c)
     (restart (fst (HandleRequestVote (sample_vote c) fresh_node)))))"
proof -
  have f: "CurrentTerm fresh_node = 0" "Log fresh_node = []" "j_open (wal fresh_node)" "durable fresh_node"
    using durable_restart(1) [of "sample_node [] (-1)"]
    by (simp_all add: fresh_node_restart node_simps journal_state_def sample_node_def persist0_def)
  then show g: "rvr_VoteGranted (snd (HandleRequestVote (sample_vote c) fresh_node))"
    by (simp add: HandleRequestVote_iff sample_vote_def log_up_to_date_def lastLogTerm_def lastLogIndex_def)
  obtain n1 resp where h: "HandleRequestVote (sample_vote c) fresh_node = (n1, resp)" by fastforce
  have "durable n1" by (rule durable_HandleRequestVote(1) [OF f(3,4) h])
  then show "rvr_VoteGranted (snd (HandleRequestVote (sample_vote c)
     (restart (fst (HandleRequestVote (sample_vote c) fresh_node)))))"
    using HandleRequestVote_granted(1,2) [OF h] g h HandleRequestVote_frame(2) [OF h] f(2)
    by (simp add: HandleRequestVote_iff node_simps durable_def)
      (simp add: sample_vote_def log_up_to_date_def lastLogTerm_def lastLogIndex_def)
qed

theorem one_vote_per_term_witness:
  "rvr_VoteGranted (snd (HandleRequestVote (sample_vote ''n2'') fresh_node)) \<and>
   \<not> rvr_VoteGranted (snd (HandleRequestVote (sample_vote ''n3'')
      (restart (fst (HandleRequestVote (sample_vote ''n2'') fresh_node))))) \<and>
   rv_CandidateID (sample_vote ''n2'') = rv_CandidateID (sample_vote ''n2'')"
proof -
  have d: "durable fresh_node" "j_open (wal fresh_node)"
    using durable_restart(1) [of "sample_node [] (-1)"]
    by (simp_all add: fresh_node_restart node_simps)
  have x: "serve [None] (fst (HandleRequestVote (sample_vote ''n2'') fresh_node)) =
      Inr (restart (fst (HandleRequestVote (sample_vote ''n2'') fresh_node)))" by simp
  note once = one_vote_per_term [OF d prod.collapse [symmetric] fresh_node_grants(1) x
      prod.collapse [symmetric]]
  show ?thesis
    using once [of "sample_vote ''n2''", OF fresh_node_grants(2)] once [of "sample_vote ''n3''"] fresh_node_grants(1)
    by (auto simp: sample_vote_def)
qed

text \<open>
  A stopped node forgets its vote: \<^verbatim>\<open>Stop\<close> closes the write-ahead log, but calls that were
  accepted before are still served; the append of the vote fails and its error is ignored. Such a
  node answers a candidate with its vote, and after the restart nothing of it is left: the new
  process is the one that would have started had the vote never been given.
\<close>

lemma stopped_node_forgets_vote:
  assumes "\<not> stopped n"
  shows "restart (fst (HandleRequestVote req (Stop n))) = restart n"
proof -
  have closed: "\<not> j_open (wal (Stop n))" "records (Stop n) = records n"
    using assms by (simp_all add: Stop_def wal_close_def)
  have "wal (fst (HandleRequestVote req (Stop n))) = wal (Stop n)"
    using closed(1) by (simp add: HandleRequestVote_def Let_def node_simps)
  moreover have "handler_frame (Stop n) (fst (HandleRequestVote req (Stop n)))"
    by (rule HandleRequestVote_frame(1) [OF prod.collapse [symmetric]])
  ultimately show ?thesis
    using assms closed(2) by (simp add: restart_def handler_frame_def) (simp add: Stop_def)
qed

text \<open>
  The transport is transparent: a call that reaches its peer returns exactly what the peer's
  handler answered, for both kinds of calls; it fails only if the handler panics.
\<close>

lemma rpc_transparent:
  "SendRPC_RV (served_by HandleRequestVote HandleAppendEntries n) RPCRequestVoteReq rv =
     Some (snd (HandleRequestVote rv n)) \<and>
   SendRPC_AE (served_by HandleRequestVote HandleAppendEntries n) RPCAppendEntriesReq ae =
     (case HandleAppendEntries ae n of Inl p \<Rightarrow> None | Inr (n', resp) \<Rightarrow> Some resp)"
  by (simp add: SendRPC_RV_served SendRPC_AE_served)

end
