(* ===== verification/Cluster.thy ===== *)
theory Cluster
  imports Durability
begin

text \<open>
  A cluster of nodes that run the program. Every step is one atomic section of one goroutine of one
  node, in any order: the election timer fires, a remote call is served, a reply is processed, a
  heartbeat snapshot is taken, a client request is taken up or polled, committed entries are
  applied, the process crashes and starts again on its disk. Calls that were sent stay in \<open>net\<close>
  and can be served late, in any order, repeatedly or never, and so can their replies; a failed call
  is one whose reply is never used.

  The local variables of the goroutines that release the mutex while they wait are part of the
  state: the running elections with the peers they still wait for, the calls of
  \<^verbatim>\<open>replicateToPeer\<close>, and the client request that a node is working on.
\<close>

datatype msg =
  RVReqM string RequestVoteRequest
| RVRespM string RequestVoteRequest RequestVoteResponse
| AEReqM string replicate_call AppendEntriesRequest
| AERespM string replicate_call AppendEntriesRequest AppendEntriesResponse

text \<open>A running \<^verbatim>\<open>startElection\<close>: the goroutines that wait for a reply, and those that have a vote to
  count.\<close>

record running =
  run_el :: election
  run_waiting :: "string list"
  run_counting :: "string list"

record cluster =
  nodes :: "string \<Rightarrow> node"
  net :: "msg list"
  elections :: "string \<times> int \<Rightarrow> running option"
  calls :: "(string \<times> replicate_call) list"
  handling :: "string \<Rightarrow> (ClientReq \<times> int \<times> int) option"
  answers :: "(ClientReq \<times> (client_error + int \<times> int)) list"

subsection \<open>Configuration\<close>

text \<open>The members with their addresses; a node's peers are the other members.\<close>

type_synonym config = "(string \<times> string) list"

definition members :: "config \<Rightarrow> string list" where
  "members cfg = map fst cfg"

definition good_config :: "config \<Rightarrow> bool" where
  "good_config cfg \<longleftrightarrow> distinct (members cfg) \<and> '''' \<notin> set (members cfg)"

definition peers_of :: "config \<Rightarrow> string \<Rightarrow> (string, string) go_map" where
  "peers_of cfg i = filter (\<lambda>(j, addr). j \<noteq> i) cfg"

definition start_node :: "config \<Rightarrow> string \<Rightarrow> node" where
  "start_node cfg i =
     NewNode i (go_get cfg i '''') (peers_of cfg i) \<lparr>j_open = True, j_records = []\<rparr> ([], None)"

definition start_cluster :: "config \<Rightarrow> cluster" where
  "start_cluster cfg =
     \<lparr>nodes = start_node cfg, net = [], elections = (\<lambda>_. None), calls = [],
      handling = (\<lambda>_. None), answers = []\<rparr>"

subsection \<open>Steps\<close>

definition upd :: "string \<Rightarrow> node \<Rightarrow> cluster \<Rightarrow> cluster" where
  "upd i n c = c\<lparr>nodes := (nodes c)(i := n)\<rparr>"

definition send :: "msg list \<Rightarrow> cluster \<Rightarrow> cluster" where
  "send ms c = c\<lparr>net := net c @ ms\<rparr>"

definition set_election :: "string \<Rightarrow> int \<Rightarrow> running option \<Rightarrow> cluster \<Rightarrow> cluster" where
  "set_election i t r c = c\<lparr>elections := (elections c)((i, t) := r)\<rparr>"

definition do_timeout :: "string \<Rightarrow> cluster \<Rightarrow> cluster" where
  "do_timeout i c =
     (case startElection_begin (nodes c i) of
        (n', None) \<Rightarrow> upd i n' c
      | (n', Some el) \<Rightarrow>
          send (map (\<lambda>p. RVReqM p (vote_request (ID n') el)) (map fst (Peers n')))
            (set_election i (el_term el)
               (Some \<lparr>run_el = el, run_waiting = map fst (Peers n'), run_counting = []\<rparr>)
               (upd i n' c)))"

definition do_handle_rv :: "string \<Rightarrow> RequestVoteRequest \<Rightarrow> cluster \<Rightarrow> cluster" where
  "do_handle_rv p req c =
     (let (n', resp) = HandleRequestVote req (nodes c p) in send [RVRespM p req resp] (upd p n' c))"

definition do_vote_reply :: "string \<Rightarrow> int \<Rightarrow> running \<Rightarrow> string \<Rightarrow> RequestVoteResponse \<Rightarrow> cluster \<Rightarrow> cluster" where
  "do_vote_reply i t r p resp c =
     (let (n', counts) = startElection_reply (run_el r) resp (nodes c i)
      in set_election i t
           (Some (r\<lparr>run_waiting := remove1 p (run_waiting r),
                    run_counting := (if counts then p # run_counting r else run_counting r)\<rparr>))
           (upd i n' c))"

definition do_vote_failed :: "string \<Rightarrow> int \<Rightarrow> running \<Rightarrow> string \<Rightarrow> cluster \<Rightarrow> cluster" where
  "do_vote_failed i t r p c =
     set_election i t (Some (r\<lparr>run_waiting := remove1 p (run_waiting r)\<rparr>)) c"

definition do_vote_count :: "string \<Rightarrow> int \<Rightarrow> running \<Rightarrow> string \<Rightarrow> cluster \<Rightarrow> cluster" where
  "do_vote_count i t r p c =
     (let (n', el') = startElection_count (run_el r) (nodes c i)
      in set_election i t (Some (r\<lparr>run_el := el', run_counting := remove1 p (run_counting r)\<rparr>))
           (upd i n' c))"

definition do_election_finish :: "string \<Rightarrow> int \<Rightarrow> running \<Rightarrow> cluster \<Rightarrow> cluster" where
  "do_election_finish i t r c =
     set_election i t None (upd i (startElection_finish (run_el r) (nodes c i)) c)"

definition do_heartbeat :: "string \<Rightarrow> cluster \<Rightarrow> cluster" where
  "do_heartbeat i c = c\<lparr>calls := calls c @ map (Pair i) (heartbeatLoop_tick False (nodes c i))\<rparr>"

definition do_handle_ae :: "string \<Rightarrow> replicate_call \<Rightarrow> AppendEntriesRequest \<Rightarrow> cluster \<Rightarrow> cluster go" where
  "do_handle_ae p rc req c =
     go_bind (HandleAppendEntries req (nodes c p))
       (\<lambda>(n', resp). Inr (send [AERespM p rc req resp] (upd p n' c)))"

definition do_submit :: "string \<Rightarrow> ClientReq \<Rightarrow> cluster \<Rightarrow> cluster" where
  "do_submit i req c =
     (case Submit False req (nodes c i) of
        Some (n', None) \<Rightarrow> upd i n' c
      | Some (n', Some err) \<Rightarrow> (upd i n' c)\<lparr>answers := answers c @ [(req, Inl err)]\<rparr>
      | None \<Rightarrow> c)"

definition do_take :: "string \<Rightarrow> cluster \<Rightarrow> cluster" where
  "do_take i c =
     (case clientHandler_take False (nodes c i) of
        None \<Rightarrow> c
      | Some (n1, req) \<Rightarrow>
          (case handleClientReq_begin req n1 of
             (n2, Inl err) \<Rightarrow> (upd i n2 c)\<lparr>answers := answers c @ [(req, Inl err)]\<rparr>
           | (n2, Inr (idx, t)) \<Rightarrow> (upd i n2 c)\<lparr>handling := (handling c)(i \<mapsto> (req, idx, t))\<rparr>))"

definition do_poll :: "string \<Rightarrow> bool \<Rightarrow> ClientReq \<Rightarrow> int \<Rightarrow> int \<Rightarrow> cluster \<Rightarrow> cluster" where
  "do_poll i late req idx t c =
     (case handleClientReq_poll False late idx t (nodes c i) of
        None \<Rightarrow> c
      | Some res \<Rightarrow>
          c\<lparr>handling := (handling c)(i := None),
            answers := answers c @ [(req, case res of None \<Rightarrow> Inr (idx, t) | Some err \<Rightarrow> Inl err)]\<rparr>)"

text \<open>A crash ends all goroutines of the process; the new process reads the journal.\<close>

definition do_crash :: "string \<Rightarrow> cluster \<Rightarrow> cluster" where
  "do_crash i c =
     (upd i (restart (nodes c i)) c)
       \<lparr>elections := (\<lambda>(j, t). if j = i then None else elections c (j, t)),
        calls := filter (\<lambda>(j, rc). j \<noteq> i) (calls c),
        handling := (handling c)(i := None)\<rparr>"

text \<open>
  A crash in the middle of a handler: of the records the handler would have written, up to the
  node \<open>n'\<close> it would have ended with, the journal holds \<open>k\<close> records in all, and no reply is sent.
  Only the two remote-call handlers write more than one record; in all other sections such a crash
  is one before or after the section.
\<close>

definition do_crash_during :: "string \<Rightarrow> node \<Rightarrow> nat \<Rightarrow> cluster \<Rightarrow> cluster" where
  "do_crash_during p n' k c =
     do_crash p (upd p ((nodes c p)\<lparr>wal := (wal n')\<lparr>j_records := take k (records n')\<rparr>\<rparr>) c)"

inductive cstep :: "config \<Rightarrow> cluster \<Rightarrow> cluster \<Rightarrow> bool" for cfg where
  c_timeout:
    "i \<in> set (members cfg) \<Longrightarrow> CurrentTerm (nodes c i) < max_int \<Longrightarrow> cstep cfg c (do_timeout i c)"
| c_handle_rv:
    "p \<in> set (members cfg) \<Longrightarrow> RVReqM p req \<in> set (net c) \<Longrightarrow> cstep cfg c (do_handle_rv p req c)"
| c_vote_reply:
    "i \<in> set (members cfg) \<Longrightarrow> elections c (i, t) = Some r \<Longrightarrow> p \<in> set (run_waiting r) \<Longrightarrow>
     RVRespM p (vote_request i (run_el r)) resp \<in> set (net c) \<Longrightarrow>
     cstep cfg c (do_vote_reply i t r p resp c)"
| c_vote_failed:
    "i \<in> set (members cfg) \<Longrightarrow> elections c (i, t) = Some r \<Longrightarrow> p \<in> set (run_waiting r) \<Longrightarrow>
     cstep cfg c (do_vote_failed i t r p c)"
| c_vote_count:
    "i \<in> set (members cfg) \<Longrightarrow> elections c (i, t) = Some r \<Longrightarrow> p \<in> set (run_counting r) \<Longrightarrow>
     cstep cfg c (do_vote_count i t r p c)"
| c_election_finish:
    "i \<in> set (members cfg) \<Longrightarrow> elections c (i, t) = Some r \<Longrightarrow> run_waiting r = [] \<Longrightarrow>
     run_counting r = [] \<Longrightarrow> cstep cfg c (do_election_finish i t r c)"
| c_heartbeat:
    "i \<in> set (members cfg) \<Longrightarrow> cstep cfg c (do_heartbeat i c)"
| c_replicate:
    "i \<in> set (members cfg) \<Longrightarrow> (i, rc) \<in> set (calls c) \<Longrightarrow>
     replicateToPeer_request rc (nodes c i) = Some req \<Longrightarrow>
     cstep cfg c (send [AEReqM (rc_peer rc) rc req] c)"
| c_handle_ae:
    "p \<in> set (members cfg) \<Longrightarrow> AEReqM p rc req \<in> set (net c) \<Longrightarrow> do_handle_ae p rc req c = Inr c' \<Longrightarrow>
     cstep cfg c c'"
| c_ae_reply:
    "i \<in> set (members cfg) \<Longrightarrow> AERespM p rc req resp \<in> set (net c) \<Longrightarrow> ae_LeaderID req = i \<Longrightarrow>
     replicateToPeer_reply rc req resp (nodes c i) = Inr n' \<Longrightarrow> cstep cfg c (upd i n' c)"
| c_submit:
    "i \<in> set (members cfg) \<Longrightarrow> cstep cfg c (do_submit i req c)"
| c_take:
    "i \<in> set (members cfg) \<Longrightarrow> handling c i = None \<Longrightarrow> cstep cfg c (do_take i c)"
| c_poll:
    "i \<in> set (members cfg) \<Longrightarrow> handling c i = Some (req, idx, t) \<Longrightarrow>
     cstep cfg c (do_poll i late req idx t c)"
| c_apply:
    "i \<in> set (members cfg) \<Longrightarrow> applyLoop_turn ticker (nodes c i) = Inr n' \<Longrightarrow>
     cstep cfg c (upd i n' c)"
| c_crash:
    "i \<in> set (members cfg) \<Longrightarrow> cstep cfg c (do_crash i c)"
| c_crash_rv:
    "p \<in> set (members cfg) \<Longrightarrow> RVReqM p req \<in> set (net c) \<Longrightarrow>
     HandleRequestVote req (nodes c p) = (n', resp) \<Longrightarrow> length (records (nodes c p)) \<le> k \<Longrightarrow>
     cstep cfg c (do_crash_during p n' k c)"
| c_crash_ae:
    "p \<in> set (members cfg) \<Longrightarrow> AEReqM p rc req \<in> set (net c) \<Longrightarrow>
     HandleAppendEntries req (nodes c p) = Inr (n', resp) \<Longrightarrow> length (records (nodes c p)) \<le> k \<Longrightarrow>
     cstep cfg c (do_crash_during p n' k c)"

definition reachable :: "config \<Rightarrow> cluster \<Rightarrow> bool" where
  "reachable cfg c \<longleftrightarrow> (cstep cfg)\<^sup>*\<^sup>* (start_cluster cfg) c"

lemma reachable_start [simp]: "reachable cfg (start_cluster cfg)"
  by (simp add: reachable_def)

lemma reachable_step: "reachable cfg c \<Longrightarrow> cstep cfg c c' \<Longrightarrow> reachable cfg c'"
  by (simp add: reachable_def)

end
