(* ===== verification/Raft_Spec.thy ===== *)
theory Raft_Spec
  imports Election
begin

text \<open>
  The abstract specification of the consensus protocol: a transition system over the persistent
  part of the nodes (term, vote, role, log, commit index) without messages, timers and indexes of
  followers. The history of the run is part of the state: who voted for whom with which log, who
  was elected by which majority with which log, the log of each term's leader, and which prefixes
  of it were acknowledged. \<open>Refinement\<close> shows that the cluster of the program's nodes
  implements this system; \<open>Raft_Safety\<close> proves its safety.
\<close>

subsection \<open>Quorums\<close>

locale quorum_system =
  fixes quorum :: "'p set \<Rightarrow> bool"
  assumes quorums_meet: "quorum Q \<Longrightarrow> quorum Q' \<Longrightarrow> Q \<inter> Q' \<noteq> {}"
begin

text \<open>When everybody votes at most once, two quorums cannot have chosen differently.\<close>

lemma unanimous_quorums_agree:
  assumes "quorum Q" and "quorum Q'" and "\<And>p. p \<in> Q \<Longrightarrow> vote p = Some a"
    and "\<And>p. p \<in> Q' \<Longrightarrow> vote p = Some b"
  shows "a = b"
proof -
  from quorums_meet [OF assms(1,2)] obtain p where "p \<in> Q" "p \<in> Q'" by auto
  then show ?thesis using assms(3) [of p] assms(4) [of p] by simp
qed

end

text \<open>The majorities the program counts: more than half of the members.\<close>

definition majority :: "string list \<Rightarrow> string set \<Rightarrow> bool" where
  "majority ids S \<longleftrightarrow> S \<subseteq> set ids \<and> int (card S) > int (card (set ids)) div 2"

lemma majorities_meet:
  assumes "majority ids Q" and "majority ids Q'"
  shows "Q \<inter> Q' \<noteq> {}"
proof
  assume empty: "Q \<inter> Q' = {}"
  have fin: "finite Q" "finite Q'"
    using assms by (auto simp: majority_def intro: finite_subset)
  have "card (Q \<union> Q') \<le> card (set ids)"
    using assms by (intro card_mono) (auto simp: majority_def)
  moreover have "card (Q \<union> Q') = card Q + card Q'"
    using fin empty by (rule card_Un_disjoint)
  ultimately show False
    using assms by (auto simp: majority_def)
qed

interpretation majorities: quorum_system "majority ids" for ids
  by unfold_locales (rule majorities_meet)

subsection \<open>States\<close>

record anode =
  a_term :: int
  a_vote :: string
  a_role :: NodeState
  a_log :: "LogEntry list"
  a_commit :: int

record araft =
  an :: "string \<Rightarrow> anode"
  avotes :: "string \<times> int \<Rightarrow> (string \<times> LogEntry list) option"
  aleads :: "int \<Rightarrow> (string \<times> string set \<times> LogEntry list) option"
  allog :: "int \<Rightarrow> LogEntry list"
  aacks :: "(string \<times> int \<times> nat) set"

definition a_init :: "string list \<Rightarrow> araft" where
  "a_init ids =
     \<lparr>an = (\<lambda>_. \<lparr>a_term = 0, a_vote = '''', a_role = Follower, a_log = [], a_commit = -1\<rparr>),
      avotes = (\<lambda>_. None), aleads = (\<lambda>_. None), allog = (\<lambda>_. []), aacks = {}\<rparr>"

abbreviation elected :: "araft \<Rightarrow> int \<Rightarrow> bool" where
  "elected a t \<equiv> aleads a t \<noteq> None"

definition set_node :: "string \<Rightarrow> anode \<Rightarrow> araft \<Rightarrow> araft" where
  "set_node i x a = a\<lparr>an := (an a)(i := x)\<rparr>"

text \<open>The election rule: a candidate's log \<open>E\<close> is at least as up to date as a voter's \<open>L\<close>.\<close>

definition up_to_date :: "LogEntry list \<Rightarrow> LogEntry list \<Rightarrow> bool" where
  "up_to_date E L \<longleftrightarrow>
     lastLogTerm L < lastLogTerm E \<or> lastLogTerm L = lastLogTerm E \<and> length L \<le> length E"

text \<open>An entry of term \<open>t\<close> at position \<open>k\<close> of the term's leader that a majority acknowledged.\<close>

definition committed :: "string list \<Rightarrow> araft \<Rightarrow> int \<Rightarrow> nat \<Rightarrow> bool" where
  "committed ids a t k \<longleftrightarrow>
     elected a t \<and> k < length (allog a t) \<and> Term (allog a t ! k) = t \<and>
     (\<exists>Q. majority ids Q \<and> (\<forall>j\<in>Q. \<exists>m\<ge>k. (j, t, m) \<in> aacks a))"

text \<open>The first \<open>c + 1\<close> entries of a log are covered by an entry committed in a term up to \<open>T\<close>.\<close>

definition commit_ok :: "string list \<Rightarrow> araft \<Rightarrow> int \<Rightarrow> LogEntry list \<Rightarrow> int \<Rightarrow> bool" where
  "commit_ok ids a T L c \<longleftrightarrow>
     -1 \<le> c \<and> c < len L \<and>
     (0 \<le> c \<longrightarrow> (\<exists>t k. committed ids a t k \<and> t \<le> T \<and> nat c \<le> k \<and>
        take (Suc (nat c)) L = take (Suc (nat c)) (allog a t)))"

text \<open>
  What a follower may make of its log \<open>L\<close> when it follows a leader whose log is \<open>M\<close>: a prefix of
  one of them that keeps what the two have in common.
\<close>

definition follows :: "LogEntry list \<Rightarrow> LogEntry list \<Rightarrow> LogEntry list \<Rightarrow> bool" where
  "follows L M L' \<longleftrightarrow>
     (prefix L' L \<or> prefix L' M) \<and> (\<forall>P. prefix P L \<longrightarrow> prefix P M \<longrightarrow> prefix P L')"

subsection \<open>Steps\<close>

inductive astep :: "string list \<Rightarrow> araft \<Rightarrow> araft \<Rightarrow> bool" for ids where
  a_newterm:
    "i \<in> set ids \<Longrightarrow> a_term (an a i) < t \<Longrightarrow>
     astep ids a (set_node i ((an a i)\<lparr>a_term := t, a_vote := '''', a_role := Follower\<rparr>) a)"
| a_candidate:
    "i \<in> set ids \<Longrightarrow> t = a_term (an a i) + 1 \<Longrightarrow>
     astep ids a (set_node i ((an a i)\<lparr>a_term := t, a_vote := i, a_role := Candidate\<rparr>)
       (a\<lparr>avotes := (avotes a)((i, t) \<mapsto> (i, a_log (an a i)))\<rparr>))"
| a_grant:
    "j \<in> set ids \<Longrightarrow> t = a_term (an a j) \<Longrightarrow> a_vote (an a j) = '''' \<or> a_vote (an a j) = c \<Longrightarrow>
     avotes a (c, t) = Some (c, E) \<Longrightarrow> up_to_date E (a_log (an a j)) \<Longrightarrow>
     astep ids a (set_node j ((an a j)\<lparr>a_vote := c\<rparr>)
       (a\<lparr>avotes := (if avotes a (j, t) = None then (avotes a)((j, t) \<mapsto> (c, a_log (an a j)))
                     else avotes a)\<rparr>))"
| a_win:
    "i \<in> set ids \<Longrightarrow> a_role (an a i) = Candidate \<Longrightarrow> t = a_term (an a i) \<Longrightarrow> majority ids S \<Longrightarrow>
     (\<And>j. j \<in> S \<Longrightarrow> \<exists>L. avotes a (j, t) = Some (i, L)) \<Longrightarrow>
     astep ids a (set_node i ((an a i)\<lparr>a_role := Leader\<rparr>)
       (a\<lparr>aleads := (aleads a)(t \<mapsto> (i, S, a_log (an a i))), allog := (allog a)(t := a_log (an a i))\<rparr>))"
| a_follow:
    "i \<in> set ids \<Longrightarrow> astep ids a (set_node i ((an a i)\<lparr>a_role := Follower\<rparr>) a)"
| a_append:
    "i \<in> set ids \<Longrightarrow> a_role (an a i) = Leader \<Longrightarrow> t = a_term (an a i) \<Longrightarrow> Term e = t \<Longrightarrow>
     Index e = len (a_log (an a i)) \<Longrightarrow>
     astep ids a (set_node i ((an a i)\<lparr>a_log := a_log (an a i) @ [e]\<rparr>)
       (a\<lparr>allog := (allog a)(t := a_log (an a i) @ [e]),
          aacks := insert (i, t, length (a_log (an a i))) (aacks a)\<rparr>))"
| a_merge:
    "j \<in> set ids \<Longrightarrow> a_role (an a j) = Follower \<Longrightarrow> elected a (a_term (an a j)) \<Longrightarrow>
     follows (a_log (an a j)) (allog a (a_term (an a j))) L' \<Longrightarrow>
     astep ids a (set_node j ((an a j)\<lparr>a_log := L'\<rparr>) a)"
| a_ack:
    "j \<in> set ids \<Longrightarrow> t = a_term (an a j) \<Longrightarrow> elected a t \<Longrightarrow> m < length (allog a t) \<Longrightarrow>
     prefix (take (Suc m) (allog a t)) (a_log (an a j)) \<Longrightarrow>
     astep ids a (a\<lparr>aacks := insert (j, t, m) (aacks a)\<rparr>)"
| a_advance:
    "i \<in> set ids \<Longrightarrow> commit_ok ids a (a_term (an a i)) (a_log (an a i)) c \<Longrightarrow>
     astep ids a (set_node i ((an a i)\<lparr>a_commit := c\<rparr>) a)"

abbreviation asteps :: "string list \<Rightarrow> araft \<Rightarrow> araft \<Rightarrow> bool" where
  "asteps ids \<equiv> (astep ids)\<^sup>*\<^sup>*"

subsection \<open>Invariants\<close>

text \<open>Every entry of a log stands where the leader of its term has it, with the same entries below.\<close>

definition log_ok :: "araft \<Rightarrow> LogEntry list \<Rightarrow> bool" where
  "log_ok a L \<longleftrightarrow> sorted (map Term L) \<and>
     (\<forall>k < length L. Index (L ! k) = int k \<and> elected a (Term (L ! k)) \<and>
        k < length (allog a (Term (L ! k))) \<and>
        take (Suc k) L = take (Suc k) (allog a (Term (L ! k))))"

text \<open>A vote, an election and a node by themselves.\<close>

definition vote_ok :: "string list \<Rightarrow> araft \<Rightarrow> string \<Rightarrow> int \<Rightarrow> string \<Rightarrow> LogEntry list \<Rightarrow> bool" where
  "vote_ok ids a j u c L \<longleftrightarrow> j \<in> set ids \<and> c \<in> set ids \<and> 1 \<le> u \<and>
     (u < a_term (an a j) \<or> u = a_term (an a j) \<and> a_vote (an a j) = c) \<and> log_ok a L \<and>
     (\<exists>E. avotes a (c, u) = Some (c, E) \<and> up_to_date E L \<and> (\<forall>e \<in> set E. Term e < u))"

definition lead_ok :: "string list \<Rightarrow> araft \<Rightarrow> int \<Rightarrow> string \<Rightarrow> string set \<Rightarrow> LogEntry list \<Rightarrow> bool" where
  "lead_ok ids a u i S E \<longleftrightarrow> i \<in> set ids \<and> 1 \<le> u \<and> majority ids S \<and> u \<le> a_term (an a i) \<and>
     (\<forall>j \<in> S. \<exists>L. avotes a (j, u) = Some (i, L)) \<and> avotes a (i, u) = Some (i, E) \<and>
     prefix E (allog a u) \<and> log_ok a (allog a u) \<and>
     (\<forall>k. length E \<le> k \<longrightarrow> k < length (allog a u) \<longrightarrow> Term (allog a u ! k) = u)"

definition anode_ok :: "araft \<Rightarrow> string \<Rightarrow> bool" where
  "anode_ok a i \<longleftrightarrow> 0 \<le> a_term (an a i) \<and> log_ok a (a_log (an a i)) \<and>
     (\<forall>e \<in> set (a_log (an a i)). Term e \<le> a_term (an a i)) \<and>
     (a_role (an a i) = Leader \<longrightarrow>
        (\<exists>S E. aleads a (a_term (an a i)) = Some (i, S, E)) \<and>
        a_log (an a i) = allog a (a_term (an a i))) \<and>
     (a_role (an a i) = Candidate \<longrightarrow>
        avotes a (i, a_term (an a i)) = Some (i, a_log (an a i)) \<and>
        (\<forall>S E. aleads a (a_term (an a i)) \<noteq> Some (i, S, E)))"

definition inv_votes :: "string list \<Rightarrow> araft \<Rightarrow> bool" where
  "inv_votes ids a \<longleftrightarrow> (\<forall>j u c L. avotes a (j, u) = Some (c, L) \<longrightarrow> vote_ok ids a j u c L)"

definition inv_leads :: "string list \<Rightarrow> araft \<Rightarrow> bool" where
  "inv_leads ids a \<longleftrightarrow> (\<forall>u i S E. aleads a u = Some (i, S, E) \<longrightarrow> lead_ok ids a u i S E)"

definition inv_nodes :: "string list \<Rightarrow> araft \<Rightarrow> bool" where
  "inv_nodes ids a \<longleftrightarrow> (\<forall>i \<in> set ids. anode_ok a i)"

text \<open>An acknowledged prefix is still there, or a later leader without it was elected meanwhile.\<close>

definition kept :: "araft \<Rightarrow> string \<Rightarrow> int \<Rightarrow> nat \<Rightarrow> bool" where
  "kept a j t k \<longleftrightarrow> prefix (take (Suc k) (allog a t)) (a_log (an a j)) \<or>
     (\<exists>u i S E. t < u \<and> u \<le> a_term (an a j) \<and> aleads a u = Some (i, S, E) \<and>
        \<not> prefix (take (Suc k) (allog a t)) E)"

definition inv_acks :: "string list \<Rightarrow> araft \<Rightarrow> bool" where
  "inv_acks ids a \<longleftrightarrow> (\<forall>j t m. (j, t, m) \<in> aacks a \<longrightarrow>
     j \<in> set ids \<and> elected a t \<and> t \<le> a_term (an a j) \<and> m < length (allog a t) \<and>
     (\<forall>k \<le> m. kept a j t k))"

text \<open>The same at the moment of a vote that counts for an election.\<close>

definition vote_kept :: "araft \<Rightarrow> LogEntry list \<Rightarrow> int \<Rightarrow> int \<Rightarrow> nat \<Rightarrow> bool" where
  "vote_kept a L t u k \<longleftrightarrow> prefix (take (Suc k) (allog a t)) L \<or>
     (\<exists>u' i S E. t < u' \<and> u' < u \<and> aleads a u' = Some (i, S, E) \<and>
        \<not> prefix (take (Suc k) (allog a t)) E)"

definition vote_counts :: "araft \<Rightarrow> string \<Rightarrow> int \<Rightarrow> string \<Rightarrow> bool" where
  "vote_counts a j u c \<longleftrightarrow> aleads a u = None \<or> (\<exists>S E. aleads a u = Some (c, S, E) \<and> j \<in> S)"

definition inv_vote_acks :: "araft \<Rightarrow> bool" where
  "inv_vote_acks a \<longleftrightarrow> (\<forall>j t m u c L. (j, t, m) \<in> aacks a \<longrightarrow> avotes a (j, u) = Some (c, L) \<longrightarrow>
     t < u \<longrightarrow> vote_counts a j u c \<longrightarrow> (\<forall>k \<le> m. vote_kept a L t u k))"

definition inv_commit :: "string list \<Rightarrow> araft \<Rightarrow> bool" where
  "inv_commit ids a \<longleftrightarrow>
     (\<forall>i \<in> set ids. commit_ok ids a (a_term (an a i)) (a_log (an a i)) (a_commit (an a i)))"

definition raft_inv :: "string list \<Rightarrow> araft \<Rightarrow> bool" where
  "raft_inv ids a \<longleftrightarrow> inv_votes ids a \<and> inv_leads ids a \<and> inv_nodes ids a \<and> inv_acks ids a \<and>
     inv_vote_acks a \<and> inv_commit ids a"

end
