(* ===== verification/Raft_Safety.thy ===== *)
theory Raft_Safety
  imports Raft_Spec
begin

text \<open>
  The safety of the abstract protocol: every step keeps the invariants of \<open>Raft_Spec\<close>. From them
  follow election safety, log matching, leader completeness (a committed entry is in the log of
  every later leader) and state machine safety (committed prefixes agree).
\<close>

subsection \<open>The history only grows\<close>

definition hist_le :: "araft \<Rightarrow> araft \<Rightarrow> bool" where
  "hist_le a a' \<longleftrightarrow> avotes a \<subseteq>\<^sub>m avotes a' \<and> aleads a \<subseteq>\<^sub>m aleads a' \<and>
     (\<forall>t. elected a t \<longrightarrow> prefix (allog a t) (allog a' t)) \<and> aacks a \<subseteq> aacks a' \<and>
     (\<forall>i. a_term (an a i) \<le> a_term (an a' i))"

lemma hist_le_refl [simp]: "hist_le a a"
  by (simp add: hist_le_def)

lemma map_le_Some: "m \<subseteq>\<^sub>m m' \<Longrightarrow> m x = Some y \<Longrightarrow> m' x = Some y"
  by (metis domI map_le_def)

lemma hist_leD:
  assumes "hist_le a a'"
  shows "avotes a x = Some y \<Longrightarrow> avotes a' x = Some y"
    and "aleads a t = Some z \<Longrightarrow> aleads a' t = Some z"
    and "elected a t \<Longrightarrow> prefix (allog a t) (allog a' t)"
    and "elected a t \<Longrightarrow> elected a' t"
    and "w \<in> aacks a \<Longrightarrow> w \<in> aacks a'"
    and "a_term (an a i) \<le> a_term (an a' i)"
  using assms unfolding hist_le_def by (blast dest: map_le_Some)+

lemma hist_le_trans:
  assumes "hist_le a b" and "hist_le b c"
  shows "hist_le a c"
proof -
  have "prefix (allog a t) (allog c t)" if "elected a t" for t
    using hist_leD(3,4) [OF assms(1) that] hist_leD(3) [OF assms(2), of t] prefix_order.trans by blast
  then show ?thesis
    using assms map_le_trans order_trans unfolding hist_le_def by (meson subset_trans)
qed

lemma set_node_simps [simp]:
  "an (set_node i x a) = (an a)(i := x)"
  "avotes (set_node i x a) = avotes a"
  "aleads (set_node i x a) = aleads a"
  "allog (set_node i x a) = allog a"
  "aacks (set_node i x a) = aacks a"
  by (simp_all add: set_node_def)

lemma log_ok_nth:
  assumes "log_ok a L" and "k < length L"
  shows "Index (L ! k) = int k" and "elected a (Term (L ! k))"
    and "k < length (allog a (Term (L ! k)))"
    and "take (Suc k) L = take (Suc k) (allog a (Term (L ! k)))"
  using assms by (auto simp: log_ok_def)

lemma log_ok_hist:
  assumes "log_ok a L" and "\<And>t. elected a t \<Longrightarrow> elected a' t \<and> prefix (allog a t) (allog a' t)"
  shows "log_ok a' L"
  unfolding log_ok_def
proof (intro conjI allI impI)
  show "sorted (map Term L)" using assms(1) by (simp add: log_ok_def)
next
  fix k assume k: "k < length L"
  note n = log_ok_nth [OF assms(1) k]
  note p = assms(2) [OF n(2)]
  show "Index (L ! k) = int k" by (rule n(1))
  show "elected a' (Term (L ! k))" using p by simp
  show "k < length (allog a' (Term (L ! k)))"
    using n(3) prefix_length_le p by fastforce
  show "take (Suc k) L = take (Suc k) (allog a' (Term (L ! k)))"
    using n(3,4) p prefix_take_take [of "allog a (Term (L ! k))" _ "Suc k"] by simp
qed

lemma log_ok_mono: "hist_le a a' \<Longrightarrow> log_ok a L \<Longrightarrow> log_ok a' L"
  by (rule log_ok_hist) (auto dest: hist_leD(3,4))

lemma log_ok_same: "aleads a' = aleads a \<Longrightarrow> allog a' = allog a \<Longrightarrow> log_ok a' L = log_ok a L"
  by (simp add: log_ok_def)

lemma log_ok_prefix:
  assumes "log_ok a L" and "prefix L' L"
  shows "log_ok a L'"
proof -
  from assms(2) obtain R where R: "L = L' @ R" by (auto simp: prefix_def)
  show ?thesis
    unfolding log_ok_def
  proof (intro conjI allI impI)
    show "sorted (map Term L')" using assms(1) by (simp add: log_ok_def R sorted_append)
  next
    fix k assume k: "k < length L'"
    then have "L ! k = L' ! k" "take (Suc k) L = take (Suc k) L'" "k < length L"
      by (simp_all add: R nth_append)
    then show "Index (L' ! k) = int k" "elected a (Term (L' ! k))"
      "k < length (allog a (Term (L' ! k)))" "take (Suc k) L' = take (Suc k) (allog a (Term (L' ! k)))"
      using log_ok_nth [OF assms(1), of k] by simp_all
  qed
qed

lemma log_ok_Nil [simp]: "log_ok a []"
  by (simp add: log_ok_def)

text \<open>Log matching: two logs that have an entry of the same term at a position agree up to there.\<close>

lemma log_matching:
  assumes "log_ok a L" and "log_ok a M" and "k < length L" and "k < length M"
    and "Term (L ! k) = Term (M ! k)"
  shows "take (Suc k) L = take (Suc k) M"
  using log_ok_nth(4) [OF assms(1,3)] log_ok_nth(4) [OF assms(2,4)] assms(5) by simp

subsection \<open>Votes, leaders and logs\<close>

definition core_inv :: "string list \<Rightarrow> araft \<Rightarrow> bool" where
  "core_inv ids a \<longleftrightarrow> inv_votes ids a \<and> inv_leads ids a \<and> inv_nodes ids a"

lemma core_votesD:
  assumes "core_inv ids a" and "avotes a (j, u) = Some (c, L)"
  shows "j \<in> set ids" "c \<in> set ids" "1 \<le> u" "log_ok a L" "u \<le> a_term (an a j)"
    "u = a_term (an a j) \<Longrightarrow> a_vote (an a j) = c"
    "\<exists>E. avotes a (c, u) = Some (c, E) \<and> up_to_date E L \<and> (\<forall>e \<in> set E. Term e < u)"
  using assms by (auto simp: core_inv_def inv_votes_def vote_ok_def) (metis order_less_imp_le order_refl)+

lemma core_leadsD:
  assumes "core_inv ids a" and "aleads a u = Some (i, S, E)"
  shows "i \<in> set ids" "1 \<le> u" "majority ids S" "u \<le> a_term (an a i)"
    "\<And>j. j \<in> S \<Longrightarrow> \<exists>L. avotes a (j, u) = Some (i, L)" "avotes a (i, u) = Some (i, E)"
    "prefix E (allog a u)" "log_ok a (allog a u)"
    "\<And>k. length E \<le> k \<Longrightarrow> k < length (allog a u) \<Longrightarrow> Term (allog a u ! k) = u"
  using assms unfolding core_inv_def inv_leads_def lead_ok_def by blast+

lemma core_nodesD:
  assumes "core_inv ids a" and "i \<in> set ids"
  shows "0 \<le> a_term (an a i)" "log_ok a (a_log (an a i))"
    "\<And>e. e \<in> set (a_log (an a i)) \<Longrightarrow> Term e \<le> a_term (an a i)"
    "a_role (an a i) = Leader \<Longrightarrow> \<exists>S E. aleads a (a_term (an a i)) = Some (i, S, E)"
    "a_role (an a i) = Leader \<Longrightarrow> a_log (an a i) = allog a (a_term (an a i))"
    "a_role (an a i) = Candidate \<Longrightarrow> avotes a (i, a_term (an a i)) = Some (i, a_log (an a i))"
    "a_role (an a i) = Candidate \<Longrightarrow> aleads a (a_term (an a i)) \<noteq> Some (i, S, E)"
  using assms by (auto simp: core_inv_def inv_nodes_def anode_ok_def)

lemma elog_terms:
  assumes "core_inv ids a" and "aleads a u = Some (i, S, E)" and "e \<in> set E"
  shows "Term e < u"
proof -
  have "avotes a (i, u) = Some (i, E)" by (rule core_leadsD(6) [OF assms(1,2)])
  from core_votesD(7) [OF assms(1) this] this assms(3) show ?thesis by auto
qed

lemma llog_terms:
  assumes "core_inv ids a" and "elected a u" and "e \<in> set (allog a u)"
  shows "Term e \<le> u"
proof -
  obtain i S E where l: "aleads a u = Some (i, S, E)" using assms(2) by auto
  obtain k where k: "k < length (allog a u)" "e = allog a u ! k"
    using assms(3) by (auto simp: in_set_conv_nth)
  show ?thesis
  proof (cases "k < length E")
    case True
    then have "e \<in> set E"
      using k prefix_nth [OF core_leadsD(7) [OF assms(1) l]] by (metis nth_mem)
    then show ?thesis using elog_terms [OF assms(1) l] by fastforce
  next
    case False
    then show ?thesis using core_leadsD(9) [OF assms(1) l] k by simp
  qed
qed

text \<open>A candidate with a majority of votes is the first to win its term.\<close>

lemma win_first:
  assumes "core_inv ids a" and "i \<in> set ids" and "a_role (an a i) = Candidate"
    and "majority ids S" and "\<And>j. j \<in> S \<Longrightarrow> \<exists>L. avotes a (j, a_term (an a i)) = Some (i, L)"
  shows "aleads a (a_term (an a i)) = None"
proof (rule ccontr)
  assume "aleads a (a_term (an a i)) \<noteq> None"
  then obtain i' S' E' where l: "aleads a (a_term (an a i)) = Some (i', S', E')" by auto
  have "i = i'"
  proof (rule majorities.unanimous_quorums_agree [OF assms(4) core_leadsD(3) [OF assms(1) l]])
    show "map_option fst (avotes a (p, a_term (an a i))) = Some i" if "p \<in> S" for p
      using assms(5) [OF that] by auto
    show "map_option fst (avotes a (p, a_term (an a i))) = Some i'" if "p \<in> S'" for p
      using core_leadsD(5) [OF assms(1) l that] by auto
  qed
  then show False using core_nodesD(7) [OF assms(1,2,3)] l by blast
qed

lemma astep_hist_le:
  assumes "core_inv ids a" and "astep ids a a'"
  shows "hist_le a a'"
  using assms(2)
proof cases
  case (a_candidate i t)
  have "avotes a (i, t) = None"
    using core_votesD(5) [OF assms(1), of i t] a_candidate
    by (cases "avotes a (i, t)") auto
  then show ?thesis using a_candidate by (auto simp: hist_le_def map_le_def)
next
  case (a_win i t S)
  then have "aleads a t = None" using win_first [OF assms(1)] by simp
  then show ?thesis using a_win by (auto simp: hist_le_def map_le_def)
next
  case (a_append i t e)
  then show ?thesis
    using core_nodesD(5) [OF assms(1)] by (auto simp: hist_le_def)
qed (auto simp: hist_le_def map_le_def)

text \<open>
  What a step has to show when it changes one node and adds history: facts about old votes, old
  leaders and other nodes follow.
\<close>

lemma inv_votes_old:
  assumes "core_inv ids a" and "hist_le a a'" and "avotes a (j, u) = Some (c, L)"
    and "a_term (an a' j) = a_term (an a j) \<Longrightarrow>
      a_vote (an a' j) = a_vote (an a j) \<or> a_vote (an a j) = ''''"
    and "'''' \<notin> set ids"
  shows "vote_ok ids a' j u c L"
proof -
  note v = core_votesD [OF assms(1,3)]
  have "u < a_term (an a' j) \<or> u = a_term (an a' j) \<and> a_vote (an a' j) = c"
  proof (cases "u = a_term (an a' j)")
    case True
    then have t: "a_term (an a' j) = a_term (an a j)"
      using v(5) hist_leD(6) [OF assms(2), of j] by simp
    then have "a_vote (an a j) = c" using v(6) True by simp
    then show ?thesis using assms(4) [OF t] True v(2) assms(5) by auto
  next
    case False
    then show ?thesis using v(5) hist_leD(6) [OF assms(2), of j] by simp
  qed
  moreover obtain E where "avotes a (c, u) = Some (c, E)" "up_to_date E L" "\<forall>e \<in> set E. Term e < u"
    using v(7) by blast
  ultimately show ?thesis
    using v(1-4) hist_leD(1) [OF assms(2)] log_ok_mono [OF assms(2)] unfolding vote_ok_def by blast
qed

lemma inv_leads_old:
  assumes "core_inv ids a" and "hist_le a a'" and "aleads a u = Some (i, S, E)"
    and "allog a' u = allog a u"
  shows "lead_ok ids a' u i S E"
proof -
  note l = core_leadsD [OF assms(1,3)]
  have "u \<le> a_term (an a' i)" using l(4) hist_leD(6) [OF assms(2), of i] by simp
  moreover have "\<exists>L. avotes a' (j, u) = Some (i, L)" if "j \<in> S" for j
    using l(5) [OF that] hist_leD(1) [OF assms(2)] by blast
  ultimately show ?thesis
    using l(1-3,6-9) hist_leD(1) [OF assms(2)] log_ok_mono [OF assms(2)] assms(4) by (simp add: lead_ok_def)
qed

lemma inv_node_old:
  assumes "core_inv ids a" and "hist_le a a'" and "i \<in> set ids" and "an a' i = an a i"
    and "a_role (an a i) = Leader \<Longrightarrow> allog a' (a_term (an a i)) = allog a (a_term (an a i))"
    and "a_role (an a i) = Candidate \<Longrightarrow> aleads a' (a_term (an a i)) = aleads a (a_term (an a i))
      \<or> (\<exists>i' S' E'. i' \<noteq> i \<and> aleads a' (a_term (an a i)) = Some (i', S', E'))"
  shows "anode_ok a' i"
proof -
  note n = core_nodesD [OF assms(1,3)]
  have "\<exists>S E. aleads a' (a_term (an a i)) = Some (i, S, E)" if "a_role (an a i) = Leader"
    using n(4) [OF that] hist_leD(2) [OF assms(2)] by blast
  moreover have "aleads a' (a_term (an a i)) \<noteq> Some (i, S, E)" if "a_role (an a i) = Candidate" for S E
    using assms(6) [OF that] n(7) [OF that] by fastforce
  ultimately show ?thesis
    using n(1-3,5,6) assms(4,5) hist_leD(1) [OF assms(2)] log_ok_mono [OF assms(2)] by (auto simp: anode_ok_def)
qed

subsection \<open>Every step keeps them\<close>

text \<open>Steps that change one node and neither votes nor leaders.\<close>

lemma core_node_step:
  assumes core: "core_inv ids a" and e: "'''' \<notin> set ids" and i: "i \<in> set ids"
    and hist: "avotes a' = avotes a" "aleads a' = aleads a" "allog a' = allog a" "aacks a \<subseteq> aacks a'"
    and others: "\<And>j. j \<noteq> i \<Longrightarrow> an a' j = an a j"
    and trm: "a_term (an a i) \<le> a_term (an a' i)"
    and vote: "a_term (an a' i) = a_term (an a i) \<Longrightarrow> a_vote (an a' i) = a_vote (an a i)"
    and role: "a_role (an a' i) = Follower \<or>
      a_role (an a' i) = a_role (an a i) \<and> a_log (an a' i) = a_log (an a i) \<and> a_term (an a' i) = a_term (an a i)"
    and logs: "log_ok a (a_log (an a' i))" "\<And>x. x \<in> set (a_log (an a' i)) \<Longrightarrow> Term x \<le> a_term (an a' i)"
  shows "core_inv ids a'"
proof -
  have "a_term (an a j) \<le> a_term (an a' j)" for j
    using others trm by (cases "j = i") auto
  then have le: "hist_le a a'"
    using hist by (simp add: hist_le_def)
  have "inv_votes ids a'"
    unfolding inv_votes_def
  proof (intro allI impI, rule inv_votes_old [OF core le])
    fix j u c L assume "avotes a' (j, u) = Some (c, L)"
    then show "avotes a (j, u) = Some (c, L)" by (simp add: hist)
    show "a_vote (an a' j) = a_vote (an a j) \<or> a_vote (an a j) = ''''"
      if "a_term (an a' j) = a_term (an a j)"
      using vote others that by (cases "j = i") auto
  qed (rule e)
  moreover have "inv_leads ids a'"
    unfolding inv_leads_def
    by (intro allI impI, rule inv_leads_old [OF core le]) (simp_all add: hist)
  moreover have "inv_nodes ids a'"
    unfolding inv_nodes_def
  proof (rule ballI)
    fix j assume j: "j \<in> set ids"
    show "anode_ok a' j"
    proof (cases "j = i")
      case True
      then show ?thesis
        using core_nodesD [OF core i] trm role logs log_ok_same [OF hist(2,3)]
        by (auto simp: hist anode_ok_def)
    next
      case False
      show ?thesis
        by (rule inv_node_old [OF core le j others [OF False]]) (simp_all add: hist)
    qed
  qed
  ultimately show ?thesis by (simp add: core_inv_def)
qed

lemma core_newterm:
  assumes "core_inv ids a" and "'''' \<notin> set ids" and "i \<in> set ids" and "a_term (an a i) < t"
  shows "core_inv ids (set_node i ((an a i)\<lparr>a_term := t, a_vote := '''', a_role := Follower\<rparr>) a)"
  using assms core_nodesD(2,3) [OF assms(1,3)]
  by (intro core_node_step [OF assms(1,2,3)]) fastforce+

lemma core_follow:
  assumes "core_inv ids a" and "'''' \<notin> set ids" and "i \<in> set ids"
  shows "core_inv ids (set_node i ((an a i)\<lparr>a_role := Follower\<rparr>) a)"
  using core_nodesD(2,3) [OF assms(1,3)] by (intro core_node_step [OF assms]) auto

lemma core_advance:
  assumes "core_inv ids a" and "'''' \<notin> set ids" and "i \<in> set ids"
  shows "core_inv ids (set_node i ((an a i)\<lparr>a_commit := c\<rparr>) a)"
  using core_nodesD(2,3) [OF assms(1,3)] by (intro core_node_step [OF assms]) auto

lemma core_ack:
  assumes "core_inv ids a" and "'''' \<notin> set ids" and "j \<in> set ids"
  shows "core_inv ids (a\<lparr>aacks := insert w (aacks a)\<rparr>)"
  using core_nodesD(2,3) [OF assms(1,3)] by (intro core_node_step [OF assms]) auto

lemma follows_log:
  assumes core: "core_inv ids a" and j: "j \<in> set ids" and el: "elected a (a_term (an a j))"
    and "follows (a_log (an a j)) (allog a (a_term (an a j))) L'"
  shows "log_ok a L'" and "\<And>x. x \<in> set L' \<Longrightarrow> Term x \<le> a_term (an a j)"
proof -
  obtain i S E where "aleads a (a_term (an a j)) = Some (i, S, E)" using el by auto
  then have ok: "log_ok a (allog a (a_term (an a j)))" by (rule core_leadsD(8) [OF core])
  have p: "prefix L' (a_log (an a j)) \<or> prefix L' (allog a (a_term (an a j)))"
    using assms(4) by (simp add: follows_def)
  then show "log_ok a L'" using log_ok_prefix ok core_nodesD(2) [OF core j] by blast
  show "Term x \<le> a_term (an a j)" if "x \<in> set L'" for x
    using p that core_nodesD(3) [OF core j] llog_terms [OF core el] set_mono_prefix by blast
qed

lemma core_merge:
  assumes "core_inv ids a" and "'''' \<notin> set ids" and "j \<in> set ids" and "a_role (an a j) = Follower"
    and "elected a (a_term (an a j))"
    and "follows (a_log (an a j)) (allog a (a_term (an a j))) L'"
  shows "core_inv ids (set_node j ((an a j)\<lparr>a_log := L'\<rparr>) a)"
  using assms(4) follows_log [OF assms(1,3,5,6)] by (intro core_node_step [OF assms(1-3)]) auto

text \<open>A step that only adds votes: the new votes and the changed node have to be shown.\<close>

lemma core_vote_step:
  assumes core: "core_inv ids a" and e: "'''' \<notin> set ids" and le: "hist_le a a'"
    and same: "aleads a' = aleads a" "allog a' = allog a"
    and others: "\<And>j. j \<noteq> i \<Longrightarrow> an a' j = an a j"
    and vote: "a_term (an a' i) = a_term (an a i) \<Longrightarrow>
      a_vote (an a' i) = a_vote (an a i) \<or> a_vote (an a i) = ''''"
    and new_vote: "\<And>j u c L. avotes a' (j, u) = Some (c, L) \<Longrightarrow> avotes a (j, u) = None \<Longrightarrow>
      j = i \<and> c \<in> set ids \<and> i \<in> set ids \<and> u = a_term (an a' i) \<and> a_vote (an a' i) = c \<and> 1 \<le> u \<and> L = a_log (an a i) \<and>
      (\<exists>E. avotes a' (c, u) = Some (c, E) \<and> up_to_date E L \<and> (\<forall>e \<in> set E. Term e < u))"
    and log: "a_log (an a' i) = a_log (an a i)"
    and role: "a_role (an a' i) = a_role (an a i) \<and> a_term (an a' i) = a_term (an a i) \<or>
      a_role (an a' i) = Candidate \<and> a_term (an a i) < a_term (an a' i) \<and>
      avotes a' (i, a_term (an a' i)) = Some (i, a_log (an a' i))"
  shows "core_inv ids a'"
proof -
  have lok: "log_ok a' L = log_ok a L" for L by (rule log_ok_same [OF same])
  have "inv_votes ids a'"
    unfolding inv_votes_def
  proof (intro allI impI)
    fix j u c L assume v: "avotes a' (j, u) = Some (c, L)"
    show "vote_ok ids a' j u c L"
    proof (cases "avotes a (j, u)")
      case None
      then show ?thesis using new_vote [OF v] core_nodesD(2) [OF core, of i] lok by (auto simp: vote_ok_def)
    next
      case (Some x)
      then have old: "avotes a (j, u) = Some (c, L)" using hist_leD(1) [OF le] v by fastforce
      show ?thesis
        using vote others by (intro inv_votes_old [OF core le old _ e]) (cases "j = i"; simp)
    qed
  qed
  moreover have "inv_leads ids a'"
    unfolding inv_leads_def
    by (intro allI impI, rule inv_leads_old [OF core le]) (simp_all add: same)
  moreover have "inv_nodes ids a'"
    unfolding inv_nodes_def
  proof (rule ballI)
    fix j assume j: "j \<in> set ids"
    note n = core_nodesD [OF core j]
    have nolead: "\<not> (\<exists>S E. aleads a (a_term (an a' i)) = Some (i, S, E))"
      if "a_term (an a i) < a_term (an a' i)"
      using core_leadsD(4) [OF core] that by fastforce
    show "anode_ok a' j"
    proof (cases "j = i")
      case True
      have "\<forall>e \<in> set (a_log (an a' i)). Term e \<le> a_term (an a' i)"
        using n(3) log role True by fastforce
      then show ?thesis
        using True n(1,2,4-7) role log nolead hist_leD(1) [OF le] by (auto simp: same lok anode_ok_def)
    next
      case False
      show ?thesis
        by (rule inv_node_old [OF core le j others [OF False]]) (simp_all add: same)
    qed
  qed
  ultimately show ?thesis by (simp add: core_inv_def)
qed

lemma up_to_date_refl [simp]: "up_to_date E E"
  by (simp add: up_to_date_def)

lemma core_candidate:
  assumes core: "core_inv ids a" and e: "'''' \<notin> set ids" and i: "i \<in> set ids" and t: "t = a_term (an a i) + 1"
  shows "core_inv ids (set_node i ((an a i)\<lparr>a_term := t, a_vote := i, a_role := Candidate\<rparr>)
       (a\<lparr>avotes := (avotes a)((i, t) \<mapsto> (i, a_log (an a i)))\<rparr>))" (is "core_inv ids ?a'")
proof (rule core_vote_step [OF core e astep_hist_le [OF core astep.a_candidate [OF i t]], of i])
  note n = core_nodesD [OF core i]
  show "j = i \<and> c \<in> set ids \<and> i \<in> set ids \<and> u = a_term (an ?a' i) \<and> a_vote (an ?a' i) = c \<and> 1 \<le> u \<and>
      L = a_log (an a i) \<and>
      (\<exists>E. avotes ?a' (c, u) = Some (c, E) \<and> up_to_date E L \<and> (\<forall>e \<in> set E. Term e < u))"
    if "avotes ?a' (j, u) = Some (c, L)" and "avotes a (j, u) = None" for j u c L
    using that i n(1) n(3) t by (fastforce split: if_splits)
qed (use t in auto)

lemma core_grant:
  assumes core: "core_inv ids a" and e: "'''' \<notin> set ids" and j: "j \<in> set ids" and t: "t = a_term (an a j)"
    and free: "a_vote (an a j) = '''' \<or> a_vote (an a j) = c"
    and cand: "avotes a (c, t) = Some (c, E)" and utd: "up_to_date E (a_log (an a j))"
  shows "core_inv ids (set_node j ((an a j)\<lparr>a_vote := c\<rparr>)
       (a\<lparr>avotes := (if avotes a (j, t) = None then (avotes a)((j, t) \<mapsto> (c, a_log (an a j)))
                     else avotes a)\<rparr>))" (is "core_inv ids ?a'")
proof (rule core_vote_step [OF core e
      astep_hist_le [OF core astep.a_grant [OF j t free cand utd]], of j])
  note v = core_votesD [OF core cand]
  have E: "\<forall>e \<in> set E. Term e < t" using v(7) cand by auto
  have c: "avotes ?a' (c, t) = Some (c, E)" using cand by auto
  show "j' = j \<and> c' \<in> set ids \<and> j \<in> set ids \<and> u = a_term (an ?a' j) \<and> a_vote (an ?a' j) = c' \<and> 1 \<le> u \<and>
      L = a_log (an a j) \<and>
      (\<exists>E. avotes ?a' (c', u) = Some (c', E) \<and> up_to_date E L \<and> (\<forall>e \<in> set E. Term e < u))"
    if "avotes ?a' (j', u) = Some (c', L)" and "avotes a (j', u) = None" for j' u c' L
  proof -
    have "j' = j" "u = t" "c' = c" "L = a_log (an a j)" using that by (auto split: if_splits)
    then show ?thesis using j t v(2,3) E c utd by auto
  qed
qed (use free in auto)

text \<open>A step that adds to the log of a term's leader or to the leaders.\<close>

lemma core_win:
  assumes core: "core_inv ids a" and e: "'''' \<notin> set ids" and i: "i \<in> set ids"
    and cand: "a_role (an a i) = Candidate" and t: "t = a_term (an a i)" and maj: "majority ids S"
    and votes: "\<And>j. j \<in> S \<Longrightarrow> \<exists>L. avotes a (j, t) = Some (i, L)"
  shows "core_inv ids (set_node i ((an a i)\<lparr>a_role := Leader\<rparr>)
       (a\<lparr>aleads := (aleads a)(t \<mapsto> (i, S, a_log (an a i))), allog := (allog a)(t := a_log (an a i))\<rparr>))"
    (is "core_inv ids ?a'")
proof -
  have le: "hist_le a ?a'" by (rule astep_hist_le [OF core astep.a_win [OF i cand t maj votes]])
  have none: "aleads a t = None" using win_first [OF core i cand maj] votes t by simp
  note n = core_nodesD [OF core i]
  have own: "avotes a (i, t) = Some (i, a_log (an a i))" using n(6) [OF cand] t by simp
  have lok: "log_ok ?a' (a_log (an a i))" by (rule log_ok_mono [OF le n(2)])
  have "inv_votes ids ?a'"
    unfolding inv_votes_def
    by (intro allI impI, rule inv_votes_old [OF core le _ _ e]) (auto split: if_splits)
  moreover have "inv_leads ids ?a'"
    unfolding inv_leads_def
  proof (intro allI impI)
    fix u i' S' E' assume l: "aleads ?a' u = Some (i', S', E')"
    show "lead_ok ids ?a' u i' S' E'"
    proof (cases "u = t")
      case True
      then have "i' = i" "S' = S" "E' = a_log (an a i)" using l by auto
      then show ?thesis
        using True i maj votes own lok t core_votesD(3) [OF core own] by (simp add: lead_ok_def)
    next
      case False
      then show ?thesis using l by (intro inv_leads_old [OF core le]) auto
    qed
  qed
  moreover have "inv_nodes ids ?a'"
    unfolding inv_nodes_def
  proof (rule ballI)
    fix j assume j: "j \<in> set ids"
    show "anode_ok ?a' j"
    proof (cases "j = i")
      case True
      then show ?thesis using n(1,3) lok t by (simp add: anode_ok_def)
    next
      case False
      have "a_term (an a j) \<noteq> t" if "a_role (an a j) = Leader"
        using core_nodesD(4) [OF core j that] none by auto
      then show ?thesis
        using False by (intro inv_node_old [OF core le j]) auto
    qed
  qed
  ultimately show ?thesis by (simp add: core_inv_def)
qed

lemma log_ok_snoc:
  assumes "log_ok a L" and "\<And>x. x \<in> set L \<Longrightarrow> Term x \<le> Term e" and "Index e = len L"
    and "elected a (Term e)" and "allog a (Term e) = L @ [e]"
  shows "log_ok a (L @ [e])"
  unfolding log_ok_def
proof (intro conjI allI impI)
  show "sorted (map Term (L @ [e]))"
    using assms(1,2) by (auto simp: log_ok_def sorted_append)
next
  fix k assume k: "k < length (L @ [e])"
  show "Index ((L @ [e]) ! k) = int k" "elected a (Term ((L @ [e]) ! k))"
    "k < length (allog a (Term ((L @ [e]) ! k)))"
    "take (Suc k) (L @ [e]) = take (Suc k) (allog a (Term ((L @ [e]) ! k)))"
    using log_ok_nth [OF assms(1), of k] assms(3-5) k
    by (cases "k < length L"; simp add: nth_append less_Suc_eq)+
qed

lemma core_append:
  assumes core: "core_inv ids a" and e: "'''' \<notin> set ids" and i: "i \<in> set ids"
    and lead: "a_role (an a i) = Leader" and t: "t = a_term (an a i)" and x: "Term x = t"
    and idx: "Index x = len (a_log (an a i))"
  shows "core_inv ids (set_node i ((an a i)\<lparr>a_log := a_log (an a i) @ [x]\<rparr>)
       (a\<lparr>allog := (allog a)(t := a_log (an a i) @ [x]),
          aacks := insert (i, t, length (a_log (an a i))) (aacks a)\<rparr>))" (is "core_inv ids ?a'")
proof -
  have le: "hist_le a ?a'" by (rule astep_hist_le [OF core astep.a_append [OF i lead t x idx]])
  note n = core_nodesD [OF core i]
  obtain S E where l: "aleads a t = Some (i, S, E)" using n(4) [OF lead] t by blast
  note ll = core_leadsD [OF core l]
  have eq: "a_log (an a i) = allog a t" using n(5) [OF lead] t by simp
  have lok: "log_ok ?a' (a_log (an a i) @ [x])"
    using log_ok_mono [OF le n(2)] n(3) t x idx l by (intro log_ok_snoc) auto
  have "inv_votes ids ?a'"
    unfolding inv_votes_def
    by (intro allI impI, rule inv_votes_old [OF core le _ _ e]) (auto split: if_splits)
  moreover have "inv_leads ids ?a'"
    unfolding inv_leads_def
  proof (intro allI impI)
    fix u i' S' E' assume l': "aleads ?a' u = Some (i', S', E')"
    show "lead_ok ids ?a' u i' S' E'"
    proof (cases "u = t")
      case True
      then have "i' = i" "S' = S" "E' = E" using l l' by auto
      then show ?thesis
        using True ll lok t x eq by (auto simp: nth_append less_Suc_eq lead_ok_def)
    next
      case False
      then show ?thesis using l' by (intro inv_leads_old [OF core le]) auto
    qed
  qed
  moreover have "inv_nodes ids ?a'"
    unfolding inv_nodes_def
  proof (rule ballI)
    fix j assume j: "j \<in> set ids"
    show "anode_ok ?a' j"
    proof (cases "j = i")
      case True
      then show ?thesis using n(1,3) lok t x lead l by (auto simp: anode_ok_def)
    next
      case False
      have "a_term (an a j) \<noteq> t" if "a_role (an a j) = Leader"
        using core_nodesD(4) [OF core j that] l False by auto
      then show ?thesis
        using False by (intro inv_node_old [OF core le j]) auto
    qed
  qed
  ultimately show ?thesis by (simp add: core_inv_def)
qed

lemma core_step:
  assumes "core_inv ids a" and "'''' \<notin> set ids" and "astep ids a a'"
  shows "core_inv ids a'"
  using assms(3)
proof cases
  case (a_newterm i t)
  then show ?thesis using core_newterm [OF assms(1,2)] by simp
next
  case (a_candidate i t)
  then show ?thesis using core_candidate [OF assms(1,2)] by simp
next
  case (a_grant j t c E)
  then show ?thesis using core_grant [OF assms(1,2)] by simp
next
  case (a_win i t S)
  then show ?thesis using core_win [OF assms(1,2)] by simp
next
  case (a_follow i)
  then show ?thesis using core_follow [OF assms(1,2)] by simp
next
  case (a_append i t e)
  then show ?thesis using core_append [OF assms(1,2)] by simp
next
  case (a_merge j L')
  then show ?thesis using core_merge [OF assms(1,2)] by simp
next
  case (a_ack j t m)
  then show ?thesis using core_ack [OF assms(1,2)] by simp
next
  case (a_advance i c)
  then show ?thesis using core_advance [OF assms(1,2)] by simp
qed

subsection \<open>Acknowledged prefixes\<close>

lemma take_allog_mono:
  assumes "hist_le a a'" and "elected a t" and "k < length (allog a t)"
  shows "take (Suc k) (allog a' t) = take (Suc k) (allog a t)"
  using prefix_take_take [OF hist_leD(3) [OF assms(1,2)], of "Suc k"] assms(3) by simp

lemma allog_length_mono:
  assumes "hist_le a a'" and "elected a t"
  shows "length (allog a t) \<le> length (allog a' t)"
  by (rule prefix_length_le [OF hist_leD(3) [OF assms]])

lemma kept_mono:
  assumes le: "hist_le a a'" and el: "elected a t" and k: "k < length (allog a t)" and "kept a j t k"
    and "prefix (take (Suc k) (allog a t)) (a_log (an a j)) \<Longrightarrow>
      prefix (take (Suc k) (allog a t)) (a_log (an a' j)) \<or>
      (\<exists>u i S E. t < u \<and> u \<le> a_term (an a j) \<and> aleads a u = Some (i, S, E) \<and>
        \<not> prefix (take (Suc k) (allog a t)) E)"
  shows "kept a' j t k"
proof -
  have "prefix (take (Suc k) (allog a t)) (a_log (an a' j)) \<or>
      (\<exists>u i S E. t < u \<and> u \<le> a_term (an a j) \<and> aleads a u = Some (i, S, E) \<and>
        \<not> prefix (take (Suc k) (allog a t)) E)"
    using assms(4,5) by (auto simp: kept_def)
  then show ?thesis
    unfolding kept_def take_allog_mono [OF le el k]
    using hist_leD(2) [OF le] order_trans [OF _ hist_leD(6) [OF le, of j]] by blast
qed

lemma vote_kept_mono:
  assumes "hist_le a a'" and "elected a t" and "k < length (allog a t)" and "vote_kept a L t u k"
  shows "vote_kept a' L t u k"
  using assms(4) hist_leD(2) [OF assms(1)]
  unfolding vote_kept_def take_allog_mono [OF assms(1-3)] by blast

lemma vote_counts_anti:
  assumes "hist_le a a'" and "vote_counts a' j u c"
  shows "vote_counts a j u c"
  using assms(2) hist_leD(2) [OF assms(1), of u]
  by (cases "aleads a u") (auto simp: vote_counts_def)

lemma inv_acksD:
  assumes "inv_acks ids a" and "(j, t, m) \<in> aacks a"
  shows "j \<in> set ids" "elected a t" "t \<le> a_term (an a j)" "m < length (allog a t)"
    "\<And>k. k \<le> m \<Longrightarrow> kept a j t k"
  using assms unfolding inv_acks_def by blast+

text \<open>The old acknowledgements survive a step that keeps the logs, or changes one in a way that
  keeps what a node and its term's leader have in common.\<close>

lemma inv_acks_old:
  assumes "inv_acks ids a" and le: "hist_le a a'" and "(j, t, m) \<in> aacks a"
    and "\<And>P. prefix P (a_log (an a j)) \<Longrightarrow>
      t < a_term (an a j) \<or> prefix P (allog a t) \<Longrightarrow>
      prefix P (a_log (an a' j)) \<or> (\<exists>i S E. t < a_term (an a j) \<and>
        aleads a (a_term (an a j)) = Some (i, S, E) \<and> \<not> prefix P E)"
  shows "j \<in> set ids \<and> elected a' t \<and> t \<le> a_term (an a' j) \<and> m < length (allog a' t) \<and>
     (\<forall>k \<le> m. kept a' j t k)"
proof -
  note d = inv_acksD [OF assms(1,3)]
  have "kept a' j t k" if k: "k \<le> m" for k
  proof (rule kept_mono [OF le d(2) _ d(5) [OF k]])
    show "k < length (allog a t)" using d(4) k by simp
    assume "prefix (take (Suc k) (allog a t)) (a_log (an a j))"
    from assms(4) [OF this] show "prefix (take (Suc k) (allog a t)) (a_log (an a' j)) \<or>
      (\<exists>u i S E. t < u \<and> u \<le> a_term (an a j) \<and> aleads a u = Some (i, S, E) \<and>
        \<not> prefix (take (Suc k) (allog a t)) E)"
      by (auto simp: take_is_prefix)
  qed
  moreover have "t \<le> a_term (an a' j)" using d(3) hist_leD(6) [OF le, of j] by simp
  ultimately show ?thesis
    using d(1,2,4) hist_leD(4) [OF le] allog_length_mono [OF le d(2)] by fastforce
qed

lemma inv_acks_same_logs:
  assumes "inv_acks ids a" and "hist_le a a'" and "aacks a' = aacks a"
    and "\<And>j. a_log (an a' j) = a_log (an a j)"
  shows "inv_acks ids a'"
  unfolding inv_acks_def
  by (intro allI impI, rule inv_acks_old [OF assms(1,2)]) (simp_all add: assms(3,4))

lemma inv_acks_append:
  assumes core: "core_inv ids a" and acks: "inv_acks ids a" and i: "i \<in> set ids"
    and lead: "a_role (an a i) = Leader" and t: "t = a_term (an a i)" and x: "Term x = t"
    and idx: "Index x = len (a_log (an a i))"
  shows "inv_acks ids (set_node i ((an a i)\<lparr>a_log := a_log (an a i) @ [x]\<rparr>)
       (a\<lparr>allog := (allog a)(t := a_log (an a i) @ [x]),
          aacks := insert (i, t, length (a_log (an a i))) (aacks a)\<rparr>))" (is "inv_acks ids ?a'")
  unfolding inv_acks_def
proof (intro allI impI)
  have le: "hist_le a ?a'" by (rule astep_hist_le [OF core astep.a_append [OF i lead t x idx]])
  fix j u m assume ack: "(j, u, m) \<in> aacks ?a'"
  show "j \<in> set ids \<and> elected ?a' u \<and> u \<le> a_term (an ?a' j) \<and> m < length (allog ?a' u) \<and>
     (\<forall>k \<le> m. kept ?a' j u k)"
  proof (cases "(j, u, m) \<in> aacks a")
    case True
    then show ?thesis by (rule inv_acks_old [OF acks le]) auto
  next
    case False
    then have "j = i" "u = t" "m = length (a_log (an a i))" using ack by auto
    then show ?thesis
      using i t core_nodesD(4) [OF core i lead]
      by (auto simp: kept_def take_is_prefix simp del: take_append prefix_snoc)
  qed
qed

lemma inv_acks_merge:
  assumes core: "core_inv ids a" and acks: "inv_acks ids a" and j: "j \<in> set ids"
    and role: "a_role (an a j) = Follower" and el: "elected a (a_term (an a j))"
    and f: "follows (a_log (an a j)) (allog a (a_term (an a j))) L'"
  shows "inv_acks ids (set_node j ((an a j)\<lparr>a_log := L'\<rparr>) a)" (is "inv_acks ids ?a'")
  unfolding inv_acks_def
proof (intro allI impI)
  have le: "hist_le a ?a'" by (rule astep_hist_le [OF core astep.a_merge [OF j role el f]])
  obtain i S E where l: "aleads a (a_term (an a j)) = Some (i, S, E)" using el by auto
  fix p u m assume "(p, u, m) \<in> aacks ?a'"
  then have ack: "(p, u, m) \<in> aacks a" by simp
  note d = inv_acksD [OF acks ack]
  show "p \<in> set ids \<and> elected ?a' u \<and> u \<le> a_term (an ?a' p) \<and> m < length (allog ?a' u) \<and>
     (\<forall>k \<le> m. kept ?a' p u k)"
  proof (rule inv_acks_old [OF acks le ack])
    fix P assume P: "prefix P (a_log (an a p))" "u < a_term (an a p) \<or> prefix P (allog a u)"
    show "prefix P (a_log (an ?a' p)) \<or> (\<exists>i S E. u < a_term (an a p) \<and>
        aleads a (a_term (an a p)) = Some (i, S, E) \<and> \<not> prefix P E)"
    proof (cases "p = j \<and> \<not> prefix P (allog a (a_term (an a j)))")
      case True
      then have "u < a_term (an a p)" using P(2) d(3) by (cases "u = a_term (an a p)") auto
      moreover have "\<not> prefix P E"
        using True core_leadsD(7) [OF core l] prefix_order.trans by blast
      ultimately show ?thesis using True l by auto
    next
      case False
      then show ?thesis using P(1) f by (auto simp: follows_def)
    qed
  qed
qed

lemma inv_acks_ack:
  assumes core: "core_inv ids a" and acks: "inv_acks ids a" and j: "j \<in> set ids"
    and t: "t = a_term (an a j)" and el: "elected a t" and m: "m < length (allog a t)"
    and p: "prefix (take (Suc m) (allog a t)) (a_log (an a j))"
  shows "inv_acks ids (a\<lparr>aacks := insert (j, t, m) (aacks a)\<rparr>)" (is "inv_acks ids ?a'")
  unfolding inv_acks_def
proof (intro allI impI)
  have le: "hist_le a ?a'" by (rule astep_hist_le [OF core astep.a_ack [OF j t el m p]])
  fix q u n assume ack: "(q, u, n) \<in> aacks ?a'"
  show "q \<in> set ids \<and> elected ?a' u \<and> u \<le> a_term (an ?a' q) \<and> n < length (allog ?a' u) \<and>
     (\<forall>k \<le> n. kept ?a' q u k)"
  proof (cases "(q, u, n) \<in> aacks a")
    case True
    then show ?thesis by (rule inv_acks_old [OF acks le]) auto
  next
    case False
    then have eq: "q = j" "u = t" "n = m" using ack by auto
    have "prefix (take (Suc k) (allog a t)) (a_log (an a j))" if "k \<le> m" for k
    proof -
      have "take (Suc k) (allog a t) = take (Suc k) (take (Suc m) (allog a t))"
        using that by (simp add: min_def)
      then show ?thesis using p take_is_prefix prefix_order.trans by metis
    qed
    then show ?thesis using eq j t el m by (auto simp: kept_def)
  qed
qed

lemma inv_acks_step:
  assumes "core_inv ids a" and "inv_acks ids a" and "astep ids a a'"
  shows "inv_acks ids a'"
  using assms(3)
proof cases
  case (a_append i t e)
  then show ?thesis using inv_acks_append [OF assms(1,2)] by simp
next
  case (a_merge j L')
  then show ?thesis using inv_acks_merge [OF assms(1,2)] by simp
next
  case (a_ack j t m)
  then show ?thesis using inv_acks_ack [OF assms(1,2)] by simp
qed (rule inv_acks_same_logs [OF assms(2) astep_hist_le [OF assms(1,3)]]; simp)+

subsection \<open>Votes of nodes that acknowledged\<close>

lemma inv_vote_acksD:
  assumes "inv_vote_acks a" and "(j, t, m) \<in> aacks a" and "avotes a (j, u) = Some (c, L)"
    and "t < u" and "vote_counts a j u c" and "k \<le> m"
  shows "vote_kept a L t u k"
  using assms unfolding inv_vote_acks_def by blast

text \<open>An acknowledgement or a vote that a step adds is the acting node's, in its term.\<close>

lemma astep_new_ack:
  assumes "astep ids a a'" and "(j, t, m) \<in> aacks a'" and "(j, t, m) \<notin> aacks a"
  shows "t = a_term (an a' j)"
  using assms by cases auto

lemma astep_new_vote:
  assumes "astep ids a a'" and "avotes a' (j, u) = Some (c, L)" and "avotes a (j, u) = None"
  shows "u = a_term (an a' j) \<and> L = a_log (an a j) \<and> aleads a' = aleads a"
  using assms by cases (auto split: if_splits)

lemma inv_vote_acks_step:
  assumes core: "core_inv ids a" and core': "core_inv ids a'" and acks: "inv_acks ids a"
    and va: "inv_vote_acks a" and step: "astep ids a a'"
  shows "inv_vote_acks a'"
  unfolding inv_vote_acks_def
proof (intro allI impI)
  fix j t m u c L k
  assume ack: "(j, t, m) \<in> aacks a'" and v: "avotes a' (j, u) = Some (c, L)" and tu: "t < u"
    and counts: "vote_counts a' j u c" and k: "k \<le> m"
  have le: "hist_le a a'" by (rule astep_hist_le [OF core step])
  have ack0: "(j, t, m) \<in> aacks a"
    using astep_new_ack [OF step ack] core_votesD(5) [OF core' v] tu by fastforce
  note d = inv_acksD [OF acks ack0]
  have kl: "k < length (allog a t)" using d(4) k by simp
  show "vote_kept a' L t u k"
  proof (cases "avotes a (j, u)")
    case (Some y)
    then have "avotes a (j, u) = Some (c, L)" using hist_leD(1) [OF le] v by fastforce
    then show ?thesis
      using inv_vote_acksD [OF va ack0 _ tu vote_counts_anti [OF le counts] k]
        vote_kept_mono [OF le d(2) kl] by blast
  next
    case None
    note nv = astep_new_vote [OF step v None]
    have "vote_kept a L t u k"
    proof (rule ccontr)
      assume nk: "\<not> vote_kept a L t u k"
      then obtain u' i S E where u': "t < u'" "u' \<le> a_term (an a j)" "aleads a u' = Some (i, S, E)"
          "\<not> prefix (take (Suc k) (allog a t)) E"
        using d(5) [OF k] nv by (auto simp: kept_def vote_kept_def)
      have "u' = u"
      proof (rule ccontr)
        assume "u' \<noteq> u"
        then have "u' < u" using u'(2) nv hist_leD(6) [OF le, of j] by simp
        then show False using nk u' unfolding vote_kept_def by blast
      qed
      then have "j \<in> S" using counts nv u'(3) by (auto simp: vote_counts_def)
      then show False using core_leadsD(5) [OF core u'(3), of j] None \<open>u' = u\<close> by auto
    qed
    then show ?thesis by (rule vote_kept_mono [OF le d(2) kl])
  qed
qed

subsection \<open>Leader completeness\<close>

lemma lastLogTerm_last: "L \<noteq> [] \<Longrightarrow> lastLogTerm L = Term (L ! (length L - 1))"
  by (simp add: lastLogTerm_def last_conv_nth)

lemma log_ok_last:
  assumes "log_ok a L" and "L \<noteq> []"
  shows "prefix L (allog a (lastLogTerm L))" and "elected a (lastLogTerm L)"
proof -
  have k: "length L - 1 < length L" using assms(2) by simp
  have "L = take (length L) (allog a (lastLogTerm L))"
    using log_ok_nth(4) [OF assms(1) k] assms(2) by (simp add: lastLogTerm_last)
  then show "prefix L (allog a (lastLogTerm L))" by (metis take_is_prefix)
  show "elected a (lastLogTerm L)"
    using log_ok_nth(2) [OF assms(1) k] assms(2) by (simp add: lastLogTerm_last)
qed

lemma log_ok_term_le_last:
  assumes "log_ok a L" and "k < length L"
  shows "Term (L ! k) \<le> lastLogTerm L"
proof -
  have "sorted (map Term L)" using assms(1) by (simp add: log_ok_def)
  then have "map Term L ! k \<le> map Term L ! (length L - 1)"
    using assms(2) by (intro sorted_nth_mono) auto
  moreover have "L \<noteq> []" using assms(2) by auto
  ultimately show ?thesis using assms(2) by (simp add: lastLogTerm_last)
qed

text \<open>The inductive step: a winner's log against the log of one voter that still had the prefix.\<close>

lemma winner_has_prefix:
  assumes core: "core_inv ids a" and lead: "aleads a u = Some (i, S, E)" and tu: "t < u"
    and L: "log_ok a L" and utd: "up_to_date E L" and P: "prefix P L" "P \<noteq> []"
    and t: "Term (last P) = t" "1 \<le> t"
    and IH: "\<And>u' i' S' E'. t < u' \<Longrightarrow> u' < u \<Longrightarrow> aleads a u' = Some (i', S', E') \<Longrightarrow> prefix P E'"
  shows "prefix P E"
proof -
  have E: "log_ok a E"
    by (rule core_votesD(4) [OF core core_leadsD(6) [OF core lead]])
  have pos: "0 < length P" using P(2) by simp
  have lastP: "last P = L ! (length P - 1)"
    using P(2) prefix_nth [OF P(1), of "length P - 1"] by (simp add: last_conv_nth)
  have "length P - 1 < length L"
    using pos prefix_length_le [OF P(1)] by linarith
  with lastP have lt: "t \<le> lastLogTerm L" using log_ok_term_le_last [OF L] t(1) by metis
  then have "1 \<le> lastLogTerm E" using utd t(2) by (auto simp: up_to_date_def)
  then have ne: "E \<noteq> []" by (auto simp: lastLogTerm_def)
  have Lne: "L \<noteq> []" using P by auto
  consider "lastLogTerm L = lastLogTerm E" "length L \<le> length E" | "lastLogTerm L < lastLogTerm E"
    using utd by (auto simp: up_to_date_def)
  then show ?thesis
  proof cases
    case 1
    then have "prefix L E"
      using log_ok_last(1) [OF L Lne] log_ok_last(1) [OF E ne] by (metis prefix_length_prefix)
    then show ?thesis using P(1) prefix_order.trans by blast
  next
    case 2
    let ?x = "lastLogTerm E"
    obtain i' S' E' where x: "aleads a ?x = Some (i', S', E')" using log_ok_last(2) [OF E ne] by auto
    have last: "last E \<in> set E" "Term (last E) = ?x" using ne by (simp_all add: lastLogTerm_def)
    have "?x < u" using elog_terms [OF core lead last(1)] last(2) by simp
    then have PE': "prefix P E'" using IH [OF _ _ x] lt 2 by simp
    have E'x: "prefix E' (allog a ?x)" by (rule core_leadsD(7) [OF core x])
    have "\<not> length E \<le> length E'"
    proof
      assume "length E \<le> length E'"
      then have "prefix E E'" using log_ok_last(1) [OF E ne] E'x by (metis prefix_length_prefix)
      then have "last E \<in> set E'" using last(1) set_mono_prefix by blast
      then show False using elog_terms [OF core x] last(2) by fastforce
    qed
    then have "prefix E' E"
      using log_ok_last(1) [OF E ne] E'x by (metis nle_le prefix_length_prefix)
    then show ?thesis using PE' prefix_order.trans by blast
  qed
qed

lemma leader_completeness:
  assumes core: "core_inv ids a" and acks: "inv_acks ids a" and va: "inv_vote_acks a"
    and com: "committed ids a t k"
  shows "aleads a u = Some (i, S, E) \<Longrightarrow> t < u \<Longrightarrow> prefix (take (Suc k) (allog a t)) E"
proof (induction "nat (u - t)" arbitrary: u i S E rule: less_induct)
  case less
  obtain Q where Q: "majority ids Q" "\<forall>j\<in>Q. \<exists>m\<ge>k. (j, t, m) \<in> aacks a"
    and el: "elected a t" and k: "k < length (allog a t)" "Term (allog a t ! k) = t"
    using com by (auto simp: committed_def)
  obtain j where j: "j \<in> Q" "j \<in> S"
    using majorities.quorums_meet [OF Q(1) core_leadsD(3) [OF core less.prems(1)]] by auto
  obtain m where m: "k \<le> m" "(j, t, m) \<in> aacks a" using Q(2) j by blast
  obtain L where v: "avotes a (j, u) = Some (i, L)" using core_leadsD(5) [OF core less.prems(1) j(2)] by blast
  let ?P = "take (Suc k) (allog a t)"
  have IH: "prefix ?P E'" if "t < u'" "u' < u" "aleads a u' = Some (i', S', E')" for u' i' S' E'
    using less.hyps [OF _ that(3,1)] that(1,2) by simp
  have "vote_kept a L t u k"
    using inv_vote_acksD [OF va m(2) v less.prems(2) _ m(1)] less.prems(1) j(2)
    by (auto simp: vote_counts_def)
  then have P: "prefix ?P L" using IH unfolding vote_kept_def by blast
  have utd: "up_to_date E L"
    using core_votesD(7) [OF core v] core_leadsD(6) [OF core less.prems(1)] by auto
  have "last ?P = allog a t ! k" using k(1) by (simp add: take_Suc_conv_app_nth)
  moreover have "?P \<noteq> []" using k(1) by auto
  moreover have "1 \<le> t" using el core_leadsD(2) [OF core] by auto
  ultimately show ?case
    using winner_has_prefix [OF core less.prems(1,2) core_votesD(4) [OF core v] utd P _ _ _ IH] k(2)
    by simp
qed

text \<open>A committed prefix is in the log of its own term's leader and of every later one.\<close>

lemma committed_in_leader:
  assumes "core_inv ids a" and "inv_acks ids a" and "inv_vote_acks a" and "committed ids a t k"
    and "elected a u" and "t \<le> u"
  shows "prefix (take (Suc k) (allog a t)) (allog a u)"
proof (cases "t = u")
  case False
  obtain i S E where l: "aleads a u = Some (i, S, E)" using assms(5) by auto
  then show ?thesis
    using leader_completeness [OF assms(1-4) l] core_leadsD(7) [OF assms(1) l] assms(6) False
      prefix_order.trans by fastforce
qed (simp add: take_is_prefix)

subsection \<open>Commit indexes\<close>

lemma committed_mono:
  assumes "hist_le a a'" and "committed ids a t k"
  shows "committed ids a' t k"
proof -
  have el: "elected a t" and k: "k < length (allog a t)" "Term (allog a t ! k) = t"
    using assms(2) by (auto simp: committed_def)
  have "allog a' t ! k = allog a t ! k"
    using prefix_nth [OF hist_leD(3) [OF assms(1) el] k(1)] by simp
  then show ?thesis
    using assms(2) k hist_leD(4) [OF assms(1) el] allog_length_mono [OF assms(1) el]
      hist_leD(5) [OF assms(1)]
    unfolding committed_def by (metis order_less_le_trans)
qed

lemma commit_ok_mono:
  assumes le: "hist_le a a'" and "commit_ok ids a T L c" and "T \<le> T'"
    and L': "\<And>P. prefix P L \<Longrightarrow> length P = nat (c + 1) \<Longrightarrow>
      (0 \<le> c \<Longrightarrow> \<exists>t k. committed ids a t k \<and> t \<le> T \<and> prefix P (take (Suc k) (allog a t))) \<Longrightarrow> prefix P L'"
  shows "commit_ok ids a' T' L' c"
proof (cases "0 \<le> c")
  case True
  obtain t k where c: "committed ids a t k" "t \<le> T" "nat c \<le> k" "c < len L"
      "take (Suc (nat c)) L = take (Suc (nat c)) (allog a t)"
    using assms(2) True by (auto simp: commit_ok_def)
  let ?P = "take (Suc (nat c)) L"
  have len: "length ?P = nat (c + 1)" using c(4) True by auto
  have "prefix ?P (take (Suc k) (allog a t))"
    unfolding c(5) using c(3) by (metis Suc_le_mono min.absorb1 take_is_prefix take_take)
  then have P: "prefix ?P L'"
    using c(1,2) by (intro L' take_is_prefix len) blast
  have el: "elected a t" and k: "k < length (allog a t)" using c(1) by (auto simp: committed_def)
  have "c < len L'" using prefix_length_le [OF P] len True by linarith
  moreover have "take (Suc (nat c)) L' = ?P"
    using P len True by (simp add: prefix_iff_take nat_add_distrib)
  moreover have "take (Suc (nat c)) (allog a' t) = take (Suc (nat c)) (allog a t)"
    using c(3) k by (intro take_allog_mono [OF le el]) simp
  ultimately show ?thesis
    using committed_mono [OF le c(1)] c(2,3,5) assms(3) True unfolding commit_ok_def
    by (intro conjI impI exI [where x = t] exI [where x = k]) auto
next
  case False
  then show ?thesis using assms(2) by (auto simp: commit_ok_def)
qed

text \<open>A follower that takes over its leader's log keeps what it has committed.\<close>

lemma merge_keeps_commit:
  assumes core: "core_inv ids a" and acks: "inv_acks ids a" and va: "inv_vote_acks a" and le: "hist_le a a'"
    and ok: "commit_ok ids a (a_term (an a j)) (a_log (an a j)) (a_commit (an a j))"
    and el: "elected a (a_term (an a j))" and m: "follows (a_log (an a j)) (allog a (a_term (an a j))) L'"
  shows "commit_ok ids a' (a_term (an a j)) L' (a_commit (an a j))"
proof (rule commit_ok_mono [OF le ok order_refl])
  fix P
  assume pl: "prefix P (a_log (an a j))" and len: "length P = nat (a_commit (an a j) + 1)"
    and ex: "0 \<le> a_commit (an a j) \<Longrightarrow> \<exists>t k. committed ids a t k \<and> t \<le> a_term (an a j) \<and>
       prefix P (take (Suc k) (allog a t))"
  show "prefix P L'"
  proof (cases "0 \<le> a_commit (an a j)")
    case True
    obtain t k where "committed ids a t k" "t \<le> a_term (an a j)" "prefix P (take (Suc k) (allog a t))"
      using ex [OF True] by blast
    then have "prefix P (allog a (a_term (an a j)))"
      using committed_in_leader [OF core acks va _ el] prefix_order.trans by blast
    then show ?thesis using m pl by (simp add: follows_def)
  qed (use len in simp)
qed

lemma inv_commit_step:
  assumes core: "core_inv ids a" and acks: "inv_acks ids a" and va: "inv_vote_acks a"
    and com: "inv_commit ids a" and step: "astep ids a a'"
  shows "inv_commit ids a'"
  unfolding inv_commit_def
proof (rule ballI)
  have le: "hist_le a a'" by (rule astep_hist_le [OF core step])
  fix i assume i: "i \<in> set ids"
  have ok: "commit_ok ids a (a_term (an a i)) (a_log (an a i)) (a_commit (an a i))"
    using com i by (simp add: inv_commit_def)
  have keep: "commit_ok ids a' (a_term (an a' i)) (a_log (an a' i)) (a_commit (an a' i))"
    if "a_commit (an a' i) = a_commit (an a i)" "prefix (a_log (an a i)) (a_log (an a' i))"
    unfolding that(1)
    using prefix_order.trans [OF _ that(2)] by (intro commit_ok_mono [OF le ok hist_leD(6) [OF le]])
  from step show "commit_ok ids a' (a_term (an a' i)) (a_log (an a' i)) (a_commit (an a' i))"
  proof cases
    case (a_merge j L')
    show ?thesis
    proof (cases "i = j")
      case True
      have "commit_ok ids a' (a_term (an a j)) L' (a_commit (an a j))"
        by (rule merge_keeps_commit [OF core acks va le ok [unfolded True] a_merge(4,5)])
      then show ?thesis using a_merge(1) True by simp
    next
      case False
      then show ?thesis using keep a_merge(1) by simp
    qed
  next
    case (a_advance j c)
    show ?thesis
    proof (cases "i = j")
      case True
      have "commit_ok ids a' (a_term (an a j)) (a_log (an a j)) c"
        by (rule commit_ok_mono [OF le a_advance(3) order_refl])
      then show ?thesis using a_advance(1) True by simp
    next
      case False
      then show ?thesis using keep a_advance(1) by simp
    qed
  qed (use keep in auto)
qed

subsection \<open>Reachable states\<close>

lemma raft_inv_core: "raft_inv ids a \<Longrightarrow> core_inv ids a"
  by (simp add: raft_inv_def core_inv_def)

lemma asteps1: "astep ids a a' \<Longrightarrow> asteps ids a a'"
  by (rule r_into_rtranclp)

lemma asteps_snoc: "asteps ids a b \<Longrightarrow> astep ids b c \<Longrightarrow> asteps ids a c"
  by (rule rtranclp.rtrancl_into_rtrancl)

lemma raft_inv_commit:
  "raft_inv ids a \<Longrightarrow> i \<in> set ids \<Longrightarrow>
   commit_ok ids a (a_term (an a i)) (a_log (an a i)) (a_commit (an a i))"
  by (simp add: raft_inv_def inv_commit_def)

lemma raft_inv_init: "raft_inv ids (a_init ids)"
  by (simp add: raft_inv_def inv_votes_def inv_leads_def inv_nodes_def anode_ok_def inv_acks_def inv_vote_acks_def
      inv_commit_def commit_ok_def a_init_def)

lemma raft_inv_step:
  assumes "raft_inv ids a" and "'''' \<notin> set ids" and "astep ids a a'"
  shows "raft_inv ids a'"
proof -
  have core: "core_inv ids a" by (rule raft_inv_core [OF assms(1)])
  have core': "core_inv ids a'" by (rule core_step [OF core assms(2,3)])
  have i: "inv_acks ids a" "inv_vote_acks a" "inv_commit ids a" using assms(1) by (simp_all add: raft_inv_def)
  show ?thesis
    using core' inv_acks_step [OF core i(1) assms(3)]
      inv_vote_acks_step [OF core core' i(1,2) assms(3)] inv_commit_step [OF core i assms(3)]
    by (simp add: raft_inv_def core_inv_def)
qed

lemma raft_inv_steps:
  assumes "asteps ids a a'" and "raft_inv ids a" and "'''' \<notin> set ids"
  shows "raft_inv ids a' \<and> hist_le a a'"
  using assms(1)
proof (induction rule: rtranclp_induct)
  case base
  then show ?case using assms(2) by simp
next
  case (step b c)
  have b: "raft_inv ids b" "hist_le a b" using step.IH by simp_all
  then show ?case
    using raft_inv_step [OF b(1) assms(3) step.hyps(2)]
      hist_le_trans [OF b(2) astep_hist_le [OF raft_inv_core [OF b(1)] step.hyps(2)]] by blast
qed

subsection \<open>Safety\<close>

lemma abstract_election_safety:
  assumes "raft_inv ids a" and "i \<in> set ids" and "j \<in> set ids"
    and "a_role (an a i) = Leader" and "a_role (an a j) = Leader"
    and "a_term (an a i) = a_term (an a j)"
  shows "i = j"
proof -
  note core = raft_inv_core [OF assms(1)]
  obtain S E where "aleads a (a_term (an a i)) = Some (i, S, E)"
    using core_nodesD(4) [OF core assms(2,4)] by blast
  moreover obtain S' E' where "aleads a (a_term (an a j)) = Some (j, S', E')"
    using core_nodesD(4) [OF core assms(3,5)] by blast
  ultimately have "Some (i, S, E) = Some (j, S', E')" unfolding assms(6) by metis
  then show ?thesis by blast
qed

lemma abstract_log_matching:
  assumes "raft_inv ids a" and "i \<in> set ids" and "j \<in> set ids"
    and "k < length (a_log (an a i))" and "k < length (a_log (an a j))"
    and "Term (a_log (an a i) ! k) = Term (a_log (an a j) ! k)"
  shows "take (Suc k) (a_log (an a i)) = take (Suc k) (a_log (an a j))"
  using log_matching [OF core_nodesD(2) [OF raft_inv_core [OF assms(1)] assms(2)]
      core_nodesD(2) [OF raft_inv_core [OF assms(1)] assms(3)]] assms(4-6) .

text \<open>Two prefixes that are covered by committed entries agree as far as both reach.\<close>

lemma commit_ok_agree:
  assumes inv: "raft_inv ids a" and "commit_ok ids a T L c" and "commit_ok ids a T' L' c'"
    and "k \<le> c" and "k \<le> c'"
  shows "take (nat (k + 1)) L = take (nat (k + 1)) L'"
proof (cases "0 \<le> k")
  case True
  obtain t n where n: "committed ids a t n" "nat c \<le> n" "take (Suc (nat c)) L = take (Suc (nat c)) (allog a t)"
    using assms(2,4) True by (auto simp: commit_ok_def)
  obtain t' n' where n': "committed ids a t' n'" "nat c' \<le> n'" "take (Suc (nat c')) L' = take (Suc (nat c')) (allog a t')"
    using assms(3,5) True by (auto simp: commit_ok_def)
  have inv3: "core_inv ids a" "inv_acks ids a" "inv_vote_acks a"
    using inv by (simp_all add: raft_inv_core raft_inv_def)
  have agree: "take (Suc (nat k)) (allog a x) = take (Suc (nat k)) (allog a y)"
    if "committed ids a x p" "committed ids a y q" "nat k \<le> p" "x \<le> y" for x y p q
  proof -
    have el: "elected a y" and p: "p < length (allog a x)"
      using that(1,2) by (auto simp: committed_def)
    have "take (Suc p) (allog a x) = take (Suc p) (allog a y)"
      using committed_in_leader [OF inv3 that(1) el that(4)] p
      by (simp add: prefix_iff_take min.absorb2)
    then show ?thesis by (rule take_eq_mono) (use that(3) in simp)
  qed
  have "take (Suc (nat k)) (allog a t) = take (Suc (nat k)) (allog a t')"
  proof (cases "t \<le> t'")
    case True
    then show ?thesis using agree [OF n(1) n'(1)] n(2) assms(4) by simp
  next
    case False
    then show ?thesis using agree [OF n'(1) n(1)] n'(2) assms(5) by simp
  qed
  moreover have "take (Suc (nat k)) L = take (Suc (nat k)) (allog a t)"
    using n(3) assms(4) by (elim take_eq_mono) simp
  moreover have "take (Suc (nat k)) L' = take (Suc (nat k)) (allog a t')"
    using n'(3) assms(5) by (elim take_eq_mono) simp
  ultimately show ?thesis using True by (simp add: nat_add_distrib)
qed simp

end
