(* ===== verification/Simulation.thy ===== *)
theory Simulation
  imports Cluster Raft_Safety
begin

text \<open>
  The relation between the cluster and the abstract protocol. \<open>cluster_rel\<close> says that the
  persistent fields and the role of every node agree with the abstract state, that every message,
  running election, pending call and client answer is justified by the abstract history, and that
  every node's journal and store agree with its log. The justifications stay true when the history
  grows. \<open>Refinement\<close> shows that every step of the cluster keeps the relation.
\<close>

subsection \<open>Merged logs\<close>

lemma match_len_nth: "i < match_len xs es \<Longrightarrow> Term (xs ! i) = Term (es ! i)"
  by (induction xs es arbitrary: i rule: match_len.induct) (auto simp: nth_Cons' split: if_splits)

lemma match_len_conflict:
  "match_len xs es < length xs \<Longrightarrow> match_len xs es < length es \<Longrightarrow>
   Term (xs ! match_len xs es) \<noteq> Term (es ! match_len xs es)"
  by (induction xs es rule: match_len.induct) (auto split: if_splits)

lemma prefix_slice_nth:
  assumes "prefix (take k M @ new) M" and "k \<le> length M" and "i < length new"
  shows "M ! (k + i) = new ! i" and "k + i < length M"
proof -
  have "(take k M @ new) ! (k + i) = M ! (k + i)"
    using assms by (intro prefix_nth) auto
  then show "M ! (k + i) = new ! i" using assms(2) by (simp add: nth_append)
  show "k + i < length M" using prefix_length_le [OF assms(1)] assms(2,3) by simp
qed

text \<open>Where a log agrees in terms with a slice of a leader's log, it agrees in entries.\<close>

lemma matched_part:
  assumes "log_ok a L" and "log_ok a M" and "take k L = take k M" and "k \<le> length L" and "k \<le> length M"
    and "prefix (take k M @ new) M"
  shows "take (k + match_len (drop k L) new) L = take (k + match_len (drop k L) new) M"
proof (cases "match_len (drop k L) new")
  case (Suc m)
  note ml = match_len_le [of "drop k L" new]
  have m: "m < length new" "k + m < length L" using Suc ml assms(4) by auto
  have "Term (drop k L ! m) = Term (new ! m)" using Suc by (intro match_len_nth) simp
  then have "Term (L ! (k + m)) = Term (M ! (k + m))"
    using m prefix_slice_nth(1) [OF assms(6,5) m(1)] assms(4) by simp
  then have "take (Suc (k + m)) L = take (Suc (k + m)) M"
    using m(2) prefix_slice_nth(2) [OF assms(6,5) m(1)] by (intro log_matching [OF assms(1,2)])
  then show ?thesis using Suc by simp
qed (use assms(3) in simp)

lemma prefix_common_bound:
  assumes "prefix P L" and "prefix P M" and "i < length L" and "i < length M"
    and "Term (L ! i) \<noteq> Term (M ! i)"
  shows "length P \<le> i"
  using assms prefix_nth [OF assms(1), of i] prefix_nth [OF assms(2), of i] by (metis not_le)

lemma follows_truncate:
  assumes "\<And>P. prefix P L \<Longrightarrow> prefix P M \<Longrightarrow> length P \<le> n \<or> length L \<le> n"
  shows "follows L M (take n L)"
  unfolding follows_def
proof (intro conjI allI impI disjI1 take_is_prefix)
  fix P assume P: "prefix P L" "prefix P M"
  then show "prefix P (take n L)"
    using assms [OF P] by (auto simp: prefix_def)
qed

text \<open>Beyond the entries that match, the log and the leader's have nothing in common.\<close>

lemma common_matched:
  assumes "k \<le> length L" and "k \<le> length M" and "prefix (take k M @ new) M"
    and "match_len (drop k L) new \<noteq> length new" and P: "prefix P L" "prefix P M"
  shows "length P \<le> k + match_len (drop k L) new"
proof (cases "match_len (drop k L) new < length (drop k L)")
  case True
  have lt: "match_len (drop k L) new < length new"
    using assms(4) match_len_le(2) [of "drop k L" new] by simp
  have "Term (drop k L ! match_len (drop k L) new) \<noteq> Term (new ! match_len (drop k L) new)"
    by (rule match_len_conflict [OF True lt])
  then show ?thesis
    using True prefix_slice_nth [OF assms(3,2) lt] assms(1)
    by (intro prefix_common_bound [OF P]) auto
next
  case False
  then show ?thesis using prefix_length_le [OF P(1)] assms(1) by simp
qed

lemma follows_merge:
  assumes "log_ok a L" and "log_ok a M" and "take k L = take k M" and "k \<le> length L" and "k \<le> length M"
    and "prefix (take k M @ new) M"
  shows "follows L M (merge_log k L new)" and "prefix (take k M @ new) (merge_log k L new)"
proof -
  let ?m = "match_len (drop k L) new"
  note mp = matched_part [OF assms]
  note ml = match_len_le [of "drop k L" new]
  have slice: "take (k + length new) M = take k M @ new"
    using assms(5,6) by (simp add: prefix_iff_take)
  have "follows L M (merge_log k L new) \<and> prefix (take k M @ new) (merge_log k L new)"
  proof (cases "?m = length new")
    case True
    then have "merge_log k L new = L" by (simp add: merge_log_def)
    moreover have "take (k + length new) L = take k M @ new" using mp True slice by simp
    then have "prefix (take k M @ new) L" by (metis take_is_prefix)
    ultimately show ?thesis by (simp add: follows_def)
  next
    case False
    have split: "take (k + ?m) (take k M @ new) @ drop ?m new = take k M @ new"
      using assms(5) by simp
    have "take (k + ?m) L = take (k + ?m) (take k M @ new)"
      using mp slice ml(2) by (metis add_le_cancel_left min.absorb1 take_take)
    then have eq: "merge_log k L new = take k M @ new"
      using False split by (simp add: merge_log_def)
    have lt: "?m < length new" using False ml(2) by simp
    have "prefix P (take k M @ new)" if P: "prefix P L" "prefix P M" for P
    proof -
      have "length P \<le> k + ?m" using False by (intro common_matched [OF assms(4-6) _ P])
      then show ?thesis
        using P(2) assms(5,6) lt by (intro prefix_length_prefix [OF P(2) assms(6)]) simp
    qed
    then show ?thesis using eq assms(6) by (simp add: follows_def)
  qed
  then show "follows L M (merge_log k L new)" "prefix (take k M @ new) (merge_log k L new)" by blast+
qed

subsection \<open>The relation\<close>

definition abs_node :: "node \<Rightarrow> anode" where
  "abs_node n = \<lparr>a_term = CurrentTerm n, a_vote = VotedFor n, a_role = State n, a_log = Log n,
     a_commit = CommitIndex n\<rparr>"

text \<open>What holds of a node by itself.\<close>

definition node_ok :: "config \<Rightarrow> string \<Rightarrow> node \<Rightarrow> bool" where
  "node_ok cfg i n \<longleftrightarrow>
     ID n = i \<and> Peers n = peers_of cfg i \<and> j_open (wal n) \<and> durable n \<and> commit_durable n \<and>
     applied_ok n \<and> LastApplied n \<le> CommitIndex n \<and> go_map_inv (MatchIndex n) \<and>
     fst ` set (MatchIndex n) \<subseteq> fst ` set (peers_of cfg i)"

text \<open>A leader's view of its followers is justified by their acknowledgements.\<close>

definition leader_ok :: "config \<Rightarrow> araft \<Rightarrow> string \<Rightarrow> node \<Rightarrow> bool" where
  "leader_ok cfg a i n \<longleftrightarrow> (State n = Leader \<longrightarrow>
     (\<forall>p \<in> fst ` set (peers_of cfg i). 0 \<le> go_get (NextIndex n) p 0 \<and> go_get (NextIndex n) p 0 \<le> len (Log n)) \<and>
     (\<forall>p m. (p, m) \<in> set (MatchIndex n) \<longrightarrow> 0 \<le> m \<longrightarrow> (\<exists>m' \<ge> nat m. (p, CurrentTerm n, m') \<in> aacks a)))"

text \<open>A request for votes carries the candidate's log position at its vote for itself.\<close>

definition rv_ok :: "araft \<Rightarrow> RequestVoteRequest \<Rightarrow> bool" where
  "rv_ok a req \<longleftrightarrow> (\<exists>E. avotes a (rv_CandidateID req, rv_Term req) = Some (rv_CandidateID req, E) \<and>
     rv_LastLogIndex req = lastLogIndex E \<and> rv_LastLogTerm req = lastLogTerm E)"

text \<open>A request to append carries a slice of the leader's log that reaches the leader's commit index.\<close>

definition ae_ok :: "string list \<Rightarrow> araft \<Rightarrow> AppendEntriesRequest \<Rightarrow> bool" where
  "ae_ok ids a req \<longleftrightarrow>
     (let T = ae_Term req; k = nat (ae_PrevLogIndex req + 1)
      in (\<exists>S E. aleads a T = Some (ae_LeaderID req, S, E)) \<and>
         -1 \<le> ae_PrevLogIndex req \<and> k \<le> length (allog a T) \<and>
         (0 \<le> ae_PrevLogIndex req \<longrightarrow>
            ae_PrevLogTerm req = Term (allog a T ! nat (ae_PrevLogIndex req))) \<and>
         prefix (take k (allog a T) @ ae_Entries req) (allog a T) \<and>
         commit_ok ids a T (allog a T) (ae_LeaderCommit req) \<and>
         ae_LeaderCommit req \<le> ae_PrevLogIndex req + len (ae_Entries req))"

definition call_ok :: "string list \<Rightarrow> araft \<Rightarrow> string \<Rightarrow> replicate_call \<Rightarrow> bool" where
  "call_ok ids a i rc \<longleftrightarrow>
     (\<exists>S E. aleads a (rc_term rc) = Some (i, S, E)) \<and> rc_peer rc \<in> set ids - {i} \<and>
     0 \<le> rc_next rc \<and> rc_next rc \<le> len (allog a (rc_term rc)) \<and>
     commit_ok ids a (rc_term rc) (allog a (rc_term rc)) (rc_commit rc)"

fun msg_ok :: "string list \<Rightarrow> araft \<Rightarrow> msg \<Rightarrow> bool" where
  "msg_ok ids a (RVReqM p req) = rv_ok a req"
| "msg_ok ids a (RVRespM p req resp) \<longleftrightarrow>
     (rvr_VoteGranted resp \<longrightarrow> (\<exists>L. avotes a (p, rv_Term req) = Some (rv_CandidateID req, L)))"
| "msg_ok ids a (AEReqM p rc req) \<longleftrightarrow>
     ae_ok ids a req \<and> call_ok ids a (ae_LeaderID req) rc \<and> rc_peer rc = p \<and> rc_term rc = ae_Term req"
| "msg_ok ids a (AERespM p rc req resp) \<longleftrightarrow>
     ae_ok ids a req \<and> call_ok ids a (ae_LeaderID req) rc \<and> rc_peer rc = p \<and> rc_term rc = ae_Term req \<and>
     (aer_Success resp \<longrightarrow> ae_Entries req \<noteq> [] \<longrightarrow>
        (p, ae_Term req, nat (ae_PrevLogIndex req + len (ae_Entries req))) \<in> aacks a)"

text \<open>The votes a running election counted come from different peers, \<open>V\<close>.\<close>

definition election_ok :: "string list \<Rightarrow> araft \<Rightarrow> string \<Rightarrow> int \<Rightarrow> running \<Rightarrow> bool" where
  "election_ok ids a i t r \<longleftrightarrow>
     el_term (run_el r) = t \<and> el_peersCount (run_el r) = len ids \<and>
     (\<exists>E. avotes a (i, t) = Some (i, E) \<and> el_lastLogIndex (run_el r) = lastLogIndex E \<and>
        el_lastLogTerm (run_el r) = lastLogTerm E) \<and>
     (\<exists>V. el_votes (run_el r) = 1 + int (card V) \<and> finite V \<and> i \<notin> V \<and> V \<subseteq> set ids \<and>
        V \<inter> set (run_waiting r) = {} \<and> V \<inter> set (run_counting r) = {} \<and>
        (\<forall>p \<in> V. \<exists>L. avotes a (p, t) = Some (i, L))) \<and>
     distinct (run_waiting r) \<and> distinct (run_counting r) \<and>
     set (run_waiting r) \<inter> set (run_counting r) = {} \<and>
     set (run_waiting r) \<subseteq> set ids - {i} \<and> set (run_counting r) \<subseteq> set ids - {i} \<and>
     (\<forall>p \<in> set (run_counting r). \<exists>L. avotes a (p, t) = Some (i, L))"

definition req_entry :: "ClientReq \<Rightarrow> int \<Rightarrow> int \<Rightarrow> LogEntry" where
  "req_entry req idx t =
     \<lparr>Index = idx, Term = t, Operation = req_Op req, Key = req_Key req, Value = req_Value req\<rparr>"

definition handling_ok :: "araft \<Rightarrow> ClientReq \<Rightarrow> int \<Rightarrow> int \<Rightarrow> bool" where
  "handling_ok a req idx t \<longleftrightarrow>
     elected a t \<and> 0 \<le> idx \<and> idx < len (allog a t) \<and> allog a t ! nat idx = req_entry req idx t"

text \<open>A positive answer: the entry is below one that is committed.\<close>

definition answer_ok :: "string list \<Rightarrow> araft \<Rightarrow> ClientReq \<Rightarrow> int \<Rightarrow> int \<Rightarrow> bool" where
  "answer_ok ids a req idx t \<longleftrightarrow> 0 \<le> idx \<and>
     (\<exists>u k. committed ids a u k \<and> u \<le> t \<and> nat idx \<le> k \<and> allog a u ! nat idx = req_entry req idx t)"

definition cluster_rel :: "config \<Rightarrow> cluster \<Rightarrow> araft \<Rightarrow> bool" where
  "cluster_rel cfg c a \<longleftrightarrow> raft_inv (members cfg) a \<and>
     (\<forall>i \<in> set (members cfg).
        an a i = abs_node (nodes c i) \<and> node_ok cfg i (nodes c i) \<and> leader_ok cfg a i (nodes c i)) \<and>
     (\<forall>m \<in> set (net c). msg_ok (members cfg) a m) \<and>
     (\<forall>i t r. elections c (i, t) = Some r \<longrightarrow> election_ok (members cfg) a i t r) \<and>
     (\<forall>(i, rc) \<in> set (calls c). call_ok (members cfg) a i rc) \<and>
     (\<forall>i req idx t. handling c i = Some (req, idx, t) \<longrightarrow> handling_ok a req idx t) \<and>
     (\<forall>req idx t. (req, Inr (idx, t)) \<in> set (answers c) \<longrightarrow> answer_ok (members cfg) a req idx t)"

subsection \<open>Justifications stay\<close>

lemma commit_ok_grow:
  assumes "hist_le a a'" and "commit_ok ids a T (allog a T) c" and "elected a T"
  shows "commit_ok ids a' T (allog a' T) c"
  using prefix_order.trans [OF _ hist_leD(3) [OF assms(1,3)]]
  by (intro commit_ok_mono [OF assms(1,2) order_refl])

lemma call_ok_mono:
  assumes "hist_le a a'" and "call_ok ids a i rc"
  shows "call_ok ids a' i rc"
proof -
  have el: "elected a (rc_term rc)" using assms(2) by (auto simp: call_ok_def)
  then show ?thesis
    using assms(2) commit_ok_grow [OF assms(1) _ el] allog_length_mono [OF assms(1) el]
      hist_leD(2) [OF assms(1)]
    unfolding call_ok_def by fastforce
qed

lemma ae_ok_mono:
  assumes le: "hist_le a a'" and ok: "ae_ok ids a req"
  shows "ae_ok ids a' req"
proof -
  let ?T = "ae_Term req" and ?k = "nat (ae_PrevLogIndex req + 1)"
  obtain S E where l: "aleads a ?T = Some (ae_LeaderID req, S, E)" and k: "?k \<le> length (allog a ?T)"
    and p: "prefix (take ?k (allog a ?T) @ ae_Entries req) (allog a ?T)"
    and prev: "-1 \<le> ae_PrevLogIndex req"
    and c: "commit_ok ids a ?T (allog a ?T) (ae_LeaderCommit req)"
    using ok by (auto simp: ae_ok_def Let_def)
  have el: "elected a ?T" using l by simp
  have pre: "prefix (allog a ?T) (allog a' ?T)" by (rule hist_leD(3) [OF le el])
  have tk: "take ?k (allog a' ?T) = take ?k (allog a ?T)"
    using prefix_take_take [OF pre k] by simp
  have "Term (allog a' ?T ! nat (ae_PrevLogIndex req)) = Term (allog a ?T ! nat (ae_PrevLogIndex req))"
    if "0 \<le> ae_PrevLogIndex req"
    using prefix_nth [OF pre, of "nat (ae_PrevLogIndex req)"] k that by simp
  then show ?thesis
    using ok hist_leD(2) [OF le l] prefix_length_le [OF pre] prefix_order.trans [OF p pre]
      commit_ok_grow [OF le c el]
    by (auto simp: ae_ok_def Let_def tk)
qed

lemma rv_ok_mono: "hist_le a a' \<Longrightarrow> rv_ok a req \<Longrightarrow> rv_ok a' req"
  using hist_leD(1) unfolding rv_ok_def by blast

lemma msg_ok_mono:
  assumes "hist_le a a'" and "msg_ok ids a m"
  shows "msg_ok ids a' m"
  using assms(2) hist_leD(1,5) [OF assms(1)]
  by (cases m) (auto intro: rv_ok_mono [OF assms(1)] ae_ok_mono [OF assms(1)] call_ok_mono [OF assms(1)])

lemma election_ok_mono:
  assumes "hist_le a a'" and "election_ok ids a i t r"
  shows "election_ok ids a' i t r"
proof -
  note v = hist_leD(1) [OF assms(1)]
  have "\<exists>L. avotes a' (p, t) = Some (i, L)" if "\<exists>L. avotes a (p, t) = Some (i, L)" for p
    using that v by blast
  then show ?thesis
    using assms(2) v unfolding election_ok_def by meson
qed

lemma handling_ok_mono:
  assumes "hist_le a a'" and "handling_ok a req idx t"
  shows "handling_ok a' req idx t"
proof -
  have el: "elected a t" using assms(2) by (simp add: handling_ok_def)
  have "nat idx < length (allog a t)" using assms(2) by (auto simp: handling_ok_def)
  from prefix_nth [OF hist_leD(3) [OF assms(1) el] this] show ?thesis
    using assms(2) hist_leD(4) [OF assms(1) el] allog_length_mono [OF assms(1) el]
    by (auto simp: handling_ok_def)
qed

lemma answer_ok_mono:
  assumes "hist_le a a'" and "answer_ok ids a req idx t"
  shows "answer_ok ids a' req idx t"
proof -
  obtain u k where c: "committed ids a u k" "u \<le> t" "nat idx \<le> k" "allog a u ! nat idx = req_entry req idx t"
    and idx: "0 \<le> idx"
    using assms(2) by (auto simp: answer_ok_def)
  have el: "elected a u" and k: "k < length (allog a u)" using c(1) by (auto simp: committed_def)
  have "allog a' u ! nat idx = allog a u ! nat idx"
    using prefix_nth [OF hist_leD(3) [OF assms(1) el], of "nat idx"] c(3) k by simp
  then show ?thesis
    using committed_mono [OF assms(1) c(1)] c(2-4) idx unfolding answer_ok_def by metis
qed

lemma leader_ok_mono: "hist_le a a' \<Longrightarrow> leader_ok cfg a i n \<Longrightarrow> leader_ok cfg a' i n"
  using hist_leD(5) unfolding leader_ok_def by meson

subsection \<open>Steps that change one node\<close>

lemma cluster_relD:
  assumes "cluster_rel cfg c a"
  shows "raft_inv (members cfg) a"
    and "i \<in> set (members cfg) \<Longrightarrow> an a i = abs_node (nodes c i)"
    and "i \<in> set (members cfg) \<Longrightarrow> node_ok cfg i (nodes c i)"
    and "i \<in> set (members cfg) \<Longrightarrow> leader_ok cfg a i (nodes c i)"
    and "m \<in> set (net c) \<Longrightarrow> msg_ok (members cfg) a m"
    and "elections c (i, t) = Some r \<Longrightarrow> election_ok (members cfg) a i t r"
    and "(i, rc) \<in> set (calls c) \<Longrightarrow> call_ok (members cfg) a i rc"
    and "handling c i = Some (req, idx, t) \<Longrightarrow> handling_ok a req idx t"
    and "(req, Inr (idx, t)) \<in> set (answers c) \<Longrightarrow> answer_ok (members cfg) a req idx t"
  using assms unfolding cluster_rel_def by fast+

text \<open>A step of node \<open>i\<close> has to justify that node and what it adds.\<close>

lemma cluster_rel_frame:
  assumes rel: "cluster_rel cfg c a" and good: "good_config cfg" and steps: "asteps (members cfg) a a'"
    and others: "\<And>j. j \<noteq> i \<Longrightarrow> nodes c' j = nodes c j" "\<And>j. j \<noteq> i \<Longrightarrow> an a' j = an a j"
    and own: "i \<in> set (members cfg) \<Longrightarrow> an a' i = abs_node (nodes c' i)"
      "i \<in> set (members cfg) \<Longrightarrow> node_ok cfg i (nodes c' i)"
      "i \<in> set (members cfg) \<Longrightarrow> leader_ok cfg a' i (nodes c' i)"
    and net: "\<And>m. m \<in> set (net c') \<Longrightarrow> m \<notin> set (net c) \<Longrightarrow> msg_ok (members cfg) a' m"
    and el: "\<And>j t r. elections c' (j, t) = Some r \<Longrightarrow> elections c (j, t) \<noteq> Some r \<Longrightarrow>
      election_ok (members cfg) a' j t r"
    and cl: "\<And>j rc. (j, rc) \<in> set (calls c') \<Longrightarrow> (j, rc) \<notin> set (calls c) \<Longrightarrow> call_ok (members cfg) a' j rc"
    and hd: "\<And>j req idx t. handling c' j = Some (req, idx, t) \<Longrightarrow> handling c j \<noteq> Some (req, idx, t) \<Longrightarrow>
      handling_ok a' req idx t"
    and ans: "\<And>req idx t. (req, Inr (idx, t)) \<in> set (answers c') \<Longrightarrow> (req, Inr (idx, t)) \<notin> set (answers c) \<Longrightarrow>
      answer_ok (members cfg) a' req idx t"
  shows "cluster_rel cfg c' a'"
proof -
  note d = cluster_relD [OF rel]
  have inv: "raft_inv (members cfg) a'" and le: "hist_le a a'"
    using raft_inv_steps [OF steps d(1)] good by (auto simp: good_config_def)
  have "an a' j = abs_node (nodes c' j) \<and> node_ok cfg j (nodes c' j) \<and> leader_ok cfg a' j (nodes c' j)"
    if "j \<in> set (members cfg)" for j
    using own d(2-4) [OF that] others leader_ok_mono [OF le] that by (cases "j = i") simp_all
  moreover have "msg_ok (members cfg) a' m" if "m \<in> set (net c')" for m
    using net [OF that] msg_ok_mono [OF le d(5)] by blast
  moreover have "election_ok (members cfg) a' j t r" if "elections c' (j, t) = Some r" for j t r
    using el [OF that] election_ok_mono [OF le d(6)] by blast
  moreover have "call_ok (members cfg) a' j rc" if "(j, rc) \<in> set (calls c')" for j rc
    using cl [OF that] call_ok_mono [OF le d(7)] by blast
  moreover have "handling_ok a' req idx t" if "handling c' j = Some (req, idx, t)" for j req idx t
    using hd [OF that] handling_ok_mono [OF le d(8)] by blast
  moreover have "answer_ok (members cfg) a' req idx t" if "(req, Inr (idx, t)) \<in> set (answers c')" for req idx t
    using ans [OF that] answer_ok_mono [OF le d(9)] by blast
  ultimately show ?thesis
    using inv unfolding cluster_rel_def by blast
qed

end
