(* ===== verification/Refinement.thy ===== *)
theory Refinement
  imports Simulation
begin

text \<open>
  The cluster refines the abstract protocol: one lemma per kind of step, then the simulation for
  all reachable states. \<open>simulated cfg c' a\<close> says that the abstract state can move to one that is
  related to \<open>c'\<close>.
\<close>

definition simulated :: "config \<Rightarrow> cluster \<Rightarrow> araft \<Rightarrow> bool" where
  "simulated cfg c' a \<longleftrightarrow> (\<exists>a'. asteps (members cfg) a a' \<and> cluster_rel cfg c' a')"

lemma simulatedI: "asteps (members cfg) a a' \<Longrightarrow> cluster_rel cfg c' a' \<Longrightarrow> simulated cfg c' a"
  by (auto simp: simulated_def)

lemma upd_simps [simp]:
  "nodes (upd i n c) = (nodes c)(i := n)" "net (upd i n c) = net c" "elections (upd i n c) = elections c"
  "calls (upd i n c) = calls c" "handling (upd i n c) = handling c" "answers (upd i n c) = answers c"
  by (simp_all add: upd_def)

lemma send_simps [simp]:
  "nodes (send ms c) = nodes c" "net (send ms c) = net c @ ms" "elections (send ms c) = elections c"
  "calls (send ms c) = calls c" "handling (send ms c) = handling c" "answers (send ms c) = answers c"
  by (simp_all add: send_def)

lemma set_election_simps [simp]:
  "nodes (set_election i t r c) = nodes c" "net (set_election i t r c) = net c"
  "elections (set_election i t r c) = (elections c)((i, t) := r)"
  "calls (set_election i t r c) = calls c" "handling (set_election i t r c) = handling c"
  "answers (set_election i t r c) = answers c"
  by (simp_all add: set_election_def)

lemma abs_node_simps [simp]:
  "a_term (abs_node n) = CurrentTerm n" "a_vote (abs_node n) = VotedFor n" "a_role (abs_node n) = State n"
  "a_log (abs_node n) = Log n" "a_commit (abs_node n) = CommitIndex n"
  by (simp_all add: abs_node_def)

text \<open>Nodes that agree in the fields the relation reads.\<close>

lemma node_ok_cong:
  assumes "node_ok cfg i n" and "ID n' = ID n" "Peers n' = Peers n" "wal n' = wal n"
    "CurrentTerm n' = CurrentTerm n" "VotedFor n' = VotedFor n" "Log n' = Log n"
    "CommitIndex n' = CommitIndex n" "LastApplied n' = LastApplied n" "KVStore n' = KVStore n"
    "MatchIndex n' = MatchIndex n"
  shows "node_ok cfg i n'"
  using assms journal_state_cong [OF assms(4)]
  by (simp add: node_ok_def durable_def commit_durable_def applied_ok_def)

lemma leader_ok_cong:
  assumes "leader_ok cfg a i n" and "State n' = State n" "CurrentTerm n' = CurrentTerm n"
    "Log n' = Log n" "NextIndex n' = NextIndex n" "MatchIndex n' = MatchIndex n"
  shows "leader_ok cfg a i n'"
  using assms by (simp add: leader_ok_def)

lemma leader_ok_not_leader [simp]: "State n \<noteq> Leader \<Longrightarrow> leader_ok cfg a i n"
  by (simp add: leader_ok_def)

text \<open>Steps that add nothing to be justified.\<close>

lemma cluster_rel_upd:
  assumes "cluster_rel cfg c a" and "good_config cfg" and "asteps (members cfg) a a'"
    and "\<And>j. j \<noteq> i \<Longrightarrow> an a' j = an a j" and "an a' i = abs_node n'"
    and "node_ok cfg i n'" and "leader_ok cfg a' i n'"
  shows "cluster_rel cfg (upd i n' c) a'"
  using assms(4-7) by (intro cluster_rel_frame [OF assms(1-3), of i]) simp_all

subsection \<open>Start\<close>

lemma start_node_restart:
  "start_node cfg i = restart (initial_node i (go_get cfg i '''') (peers_of cfg i) \<lparr>j_open = True, j_records = []\<rparr>)"
  by (simp add: start_node_def restart_def initial_node_def)

lemma node_ok_restart:
  assumes "ID n = i" and "Peers n = peers_of cfg i" and "-1 \<le> CommitIndex n"
  shows "node_ok cfg i (restart n)"
  using assms durable_restart [of n] applied_ok_restart [of n]
  by (simp add: node_ok_def node_simps restart_eq initial_node_def)

lemma journal_state_initial:
  "journal_state (initial_node i addr ps \<lparr>j_open = b, j_records = []\<rparr>) = persist0"
  by (simp add: journal_state_def initial_node_def)

lemma abs_start_node: "abs_node (start_node cfg i) = an (a_init (members cfg)) i"
  by (simp add: abs_node_def a_init_def start_node_restart node_simps journal_state_initial persist0_def)

lemma start_related: "cluster_rel cfg (start_cluster cfg) (a_init (members cfg))"
proof -
  have "node_ok cfg i (start_node cfg i)" for i
    unfolding start_node_restart by (rule node_ok_restart) (simp_all add: initial_node_def)
  moreover have "State (start_node cfg i) = Follower" for i
    by (simp add: start_node_restart node_simps)
  ultimately show ?thesis
    using raft_inv_init [of "members cfg"]
    by (simp add: cluster_rel_def start_cluster_def abs_start_node)
qed

subsection \<open>Client requests\<close>

lemma sim_refl_upd:
  assumes "cluster_rel cfg c a" and "good_config cfg" and "i \<in> set (members cfg)"
    and "abs_node n' = abs_node (nodes c i)" and "node_ok cfg i n'" and "leader_ok cfg a i n'"
  shows "cluster_rel cfg (upd i n' c) a"
  using assms cluster_relD(2) [OF assms(1,3)]
  by (intro cluster_rel_upd [OF assms(1,2) rtranclp.rtrancl_refl]) simp_all

lemma sim_submit:
  assumes "cluster_rel cfg c a" and "good_config cfg" and "i \<in> set (members cfg)"
  shows "simulated cfg (do_submit i req c) a"
proof -
  note d = cluster_relD [OF assms(1)]
  have upd: "cluster_rel cfg (upd i n' c) a" if "n' = (nodes c i)\<lparr>clientCh := q\<rparr>" for n' q
    using that
    by (intro sim_refl_upd [OF assms] node_ok_cong [OF d(3) [OF assms(3)]] leader_ok_cong [OF d(4) [OF assms(3)]])
      (simp_all add: abs_node_def)
  have same: "cluster_rel cfg (upd i (nodes c i) c) a"
    using upd [of "nodes c i" "clientCh (nodes c i)"] by simp
  have err: "cluster_rel cfg (c'\<lparr>answers := answers c' @ [(req, Inl e)]\<rparr>) a" if "cluster_rel cfg c' a" for c' e
    using that by (auto simp: cluster_rel_def)
  have "cluster_rel cfg (do_submit i req c) a"
    using upd [OF refl] err [OF same] assms(1)
    by (auto simp: do_submit_def Submit_def split: if_splits)
  then show ?thesis by (intro simulatedI [of _ a a]) auto
qed

lemma append_entry_ok:
  assumes ok: "node_ok cfg i n" and commit: "CommitIndex n < len (Log n)"
  shows "node_ok cfg i (append_entry e n)"
proof -
  note same = same_but_log_fields [OF append_entry_same [of n e]]
  have n: "j_open (wal n)" "durable n" "commit_durable n" using ok by (simp_all add: node_ok_def)
  have "applied_ok (append_entry e n)"
    using ok commit same by (auto simp: node_ok_def applied_ok_def node_simps intro!: run_log_cong)
  then show ?thesis
    using ok same durable_log_ops(1,3) [OF n(1,2)] n(3) by (simp add: node_ok_def node_simps)
qed

text \<open>A leader appends the entry of a client.\<close>

lemma sim_client_append:
  assumes rel: "cluster_rel cfg c a" "good_config cfg" and i: "i \<in> set (members cfg)"
    and n: "abs_node n = an a i" "node_ok cfg i n" "leader_ok cfg a i n" "State n = Leader"
  shows "simulated cfg ((upd i (append_entry (client_entry req n) n) c)
    \<lparr>handling := (handling c)(i \<mapsto> (req, len (Log n), CurrentTerm n))\<rparr>) a"
proof -
  note d = cluster_relD [OF rel(1)] and core = raft_inv_core [OF cluster_relD(1) [OF rel(1)]]
  let ?e = "client_entry req n" and ?t = "CurrentTerm n"
  let ?n2 = "append_entry ?e n"
  let ?c' = "(upd i ?n2 c)\<lparr>handling := (handling c)(i \<mapsto> (req, len (Log n), ?t))\<rparr>"
  let ?a' = "set_node i ((an a i)\<lparr>a_log := a_log (an a i) @ [?e]\<rparr>)
     (a\<lparr>allog := (allog a)(?t := a_log (an a i) @ [?e]),
        aacks := insert (i, ?t, length (a_log (an a i))) (aacks a)\<rparr>)"
  note abs = n(1) [symmetric] and same = same_but_log_fields [OF append_entry_same [of n ?e]]
  have step: "astep (members cfg) a ?a'"
    using i n(4) abs by (intro astep.a_append) (simp_all add: client_entry_def)
  have el: "elected a ?t" using core_nodesD(4) [OF core i] n(4) abs by auto
  have commit: "CommitIndex n < len (Log n)" using raft_inv_commit [OF d(1) i] abs by (simp add: commit_ok_def)
  have l2: "leader_ok cfg ?a' i ?n2"
    using leader_ok_mono [OF astep_hist_le [OF core step] n(3)] same by (auto simp: leader_ok_def node_simps)
  have "cluster_rel cfg ?c' ?a'"
  proof (rule cluster_rel_frame [OF rel asteps1 [OF step], of i])
    show "an ?a' i = abs_node (nodes ?c' i)" using abs same by (simp add: abs_node_def node_simps)
    show "handling_ok ?a' req' idx t"
      if "handling ?c' j = Some (req', idx, t)" and "handling c j \<noteq> Some (req', idx, t)" for j req' idx t
      using that el abs by (auto simp: handling_ok_def req_entry_def client_entry_def nth_append split: if_splits)
  qed (use append_entry_ok [OF n(2) commit] l2 in simp_all)
  then show ?thesis by (rule simulatedI [OF asteps1 [OF step]])
qed

lemma sim_take:
  assumes "cluster_rel cfg c a" and "good_config cfg" and i: "i \<in> set (members cfg)"
  shows "simulated cfg (do_take i c) a"
proof (cases "clientHandler_take False (nodes c i)")
  case None
  then show ?thesis using assms(1) by (intro simulatedI [of _ a a]) (simp_all add: do_take_def)
next
  case (Some x)
  then obtain req rest where x: "x = ((nodes c i)\<lparr>clientCh := rest\<rparr>, req)"
    by (auto simp: clientHandler_take_def split: list.splits)
  note d = cluster_relD [OF assms(1)]
  define n1 where "n1 = (nodes c i)\<lparr>clientCh := rest\<rparr>"
  have abs1: "abs_node n1 = an a i" using d(2) [OF i] by (simp add: n1_def abs_node_def)
  have ok1: "node_ok cfg i n1" "leader_ok cfg a i n1"
    unfolding n1_def
    by (rule node_ok_cong [OF d(3) [OF i]]; simp) (rule leader_ok_cong [OF d(4) [OF i]]; simp)
  show ?thesis
  proof (cases "State n1 = Leader")
    case False
    have "cluster_rel cfg (upd i n1 c) a"
      using abs1 d(2) [OF i] ok1 by (intro sim_refl_upd [OF assms]) simp_all
    then have "cluster_rel cfg ((upd i n1 c)\<lparr>answers := answers c @ [(req, Inl ErrNotLeader)]\<rparr>) a"
      by (auto simp: cluster_rel_def)
    then show ?thesis
      using Some x False
      by (intro simulatedI [of _ a a]) (simp_all add: do_take_def handleClientReq_begin_def n1_def)
  next
    case True
    from sim_client_append [OF assms abs1 ok1 True, of req] show ?thesis
      using Some x True by (simp add: do_take_def handleClientReq_begin_def n1_def)
  qed
qed

text \<open>A leader's log is the log of its term.\<close>

lemma leader_log:
  assumes "cluster_rel cfg c a" and "i \<in> set (members cfg)" and "State (nodes c i) = Leader"
  shows "\<exists>S E. aleads a (CurrentTerm (nodes c i)) = Some (i, S, E)"
    and "Log (nodes c i) = allog a (CurrentTerm (nodes c i))"
  using core_nodesD(4,5) [OF raft_inv_core [OF cluster_relD(1) [OF assms(1)]] assms(2)]
    cluster_relD(2) [OF assms(1,2)] assms(3) by simp_all

lemma node_commit_ok:
  assumes "cluster_rel cfg c a" and "i \<in> set (members cfg)"
  shows "commit_ok (members cfg) a (CurrentTerm (nodes c i)) (Log (nodes c i)) (CommitIndex (nodes c i))"
  using raft_inv_commit [OF cluster_relD(1) [OF assms(1)] assms(2)] cluster_relD(2) [OF assms] by simp

lemma sim_poll:
  assumes "cluster_rel cfg c a" and "good_config cfg" and i: "i \<in> set (members cfg)"
    and h: "handling c i = Some (req, idx, t)"
  shows "simulated cfg (do_poll i late req idx t c) a"
proof (rule simulatedI [OF rtranclp.rtrancl_refl])
  note d = cluster_relD [OF assms(1)]
  have ok: "answer_ok (members cfg) a req idx t"
    if "handleClientReq_poll False late idx t (nodes c i) = Some None"
  proof -
    have n: "State (nodes c i) = Leader" "CurrentTerm (nodes c i) = t" "idx \<le> CommitIndex (nodes c i)"
      using that by (auto simp: handleClientReq_poll_def split: if_splits)
    have e: "0 \<le> idx" "Log (nodes c i) ! nat idx = req_entry req idx t"
      using d(8) [OF h] leader_log(2) [OF assms(1) i n(1)] n(2) by (simp_all add: handling_ok_def)
    have cok: "commit_ok (members cfg) a t (Log (nodes c i)) (CommitIndex (nodes c i))"
      using node_commit_ok [OF assms(1) i] n(2) by simp
    obtain u k where u: "committed (members cfg) a u k" "u \<le> t" "nat (CommitIndex (nodes c i)) \<le> k"
        "take (Suc (nat (CommitIndex (nodes c i)))) (Log (nodes c i)) =
         take (Suc (nat (CommitIndex (nodes c i)))) (allog a u)"
      using cok e(1) n(3) unfolding commit_ok_def by (meson order_trans)
    have "Log (nodes c i) ! nat idx = allog a u ! nat idx"
      using n(3) by (intro take_eq_nth [OF u(4)]) simp
    moreover have "nat idx \<le> k" using u(3) n(3) by simp
    ultimately show ?thesis
      using u(1,2) e unfolding answer_ok_def by (metis (lifting))
  qed
  show "cluster_rel cfg (do_poll i late req idx t c) a"
  proof (cases "handleClientReq_poll False late idx t (nodes c i)")
    case None
    then show ?thesis using assms(1) by (simp add: do_poll_def)
  next
    case (Some res)
    show ?thesis
    proof (rule cluster_rel_frame [OF assms(1,2) rtranclp.rtrancl_refl, of i])
      show "answer_ok (members cfg) a req' idx' t'"
        if "(req', Inr (idx', t')) \<in> set (answers (do_poll i late req idx t c))"
          "(req', Inr (idx', t')) \<notin> set (answers c)" for req' idx' t'
        using that Some ok by (auto simp: do_poll_def split: option.splits)
    qed (use Some d(2-4) in \<open>auto simp: do_poll_def split: if_splits\<close>)
  qed
qed

subsection \<open>Heartbeats\<close>

lemma sim_heartbeat:
  assumes "cluster_rel cfg c a" and "good_config cfg" and i: "i \<in> set (members cfg)"
  shows "simulated cfg (do_heartbeat i c) a"
proof (rule simulatedI [OF rtranclp.rtrancl_refl])
  note d = cluster_relD [OF assms(1)]
  have new: "call_ok (members cfg) a i rc" if rc: "rc \<in> set (sendHeartbeats (nodes c i))" for rc
  proof -
    have lead: "State (nodes c i) = Leader"
      using rc by (auto simp: sendHeartbeats_def split: if_splits)
    have peers: "Peers (nodes c i) = peers_of cfg i" using d(3) [OF i] by (simp add: node_ok_def)
    obtain p addr where p: "(p, addr) \<in> set (peers_of cfg i)"
      and rc': "rc_peer rc = p" "rc_next rc = go_get (NextIndex (nodes c i)) p 0"
        "rc_term rc = CurrentTerm (nodes c i)" "rc_commit rc = CommitIndex (nodes c i)"
      using rc lead peers by (auto simp: sendHeartbeats_def)
    have "p \<in> set (members cfg) - {i}"
      using p by (force simp: peers_of_def members_def)
    moreover have "p \<in> fst ` set (peers_of cfg i)" using p by force
    then have "0 \<le> rc_next rc" "rc_next rc \<le> len (Log (nodes c i))"
      using d(4) [OF i] lead unfolding leader_ok_def rc'(2) by blast+
    ultimately show ?thesis
      using leader_log [OF assms(1) i lead] node_commit_ok [OF assms(1) i] rc' by (simp add: call_ok_def)
  qed
  show "cluster_rel cfg (do_heartbeat i c) a"
    by (rule cluster_rel_frame [OF assms(1,2) rtranclp.rtrancl_refl, of i])
      (use new d(2-4) in \<open>auto simp: do_heartbeat_def heartbeatLoop_tick_def split: if_splits\<close>)
qed

lemma sim_replicate:
  assumes "cluster_rel cfg c a" and "good_config cfg" and i: "i \<in> set (members cfg)"
    and call: "(i, rc) \<in> set (calls c)" and req: "replicateToPeer_request rc (nodes c i) = Some req"
  shows "simulated cfg (send [AEReqM (rc_peer rc) rc req] c) a"
proof (rule simulatedI [OF rtranclp.rtrancl_refl])
  note d = cluster_relD [OF assms(1)]
  let ?n = "nodes c i" and ?T = "rc_term rc"
  have n: "State ?n = Leader" "CurrentTerm ?n = ?T"
    using req by (auto simp: replicateToPeer_request_def split: if_splits)
  have log: "Log ?n = allog a ?T" using leader_log(2) [OF assms(1) i n(1)] n(2) by simp
  have id: "ID ?n = i" using d(3) [OF i] by (simp add: node_ok_def)
  have cok: "call_ok (members cfg) a i rc" by (rule d(7) [OF call])
  have r: "ae_Term req = ?T" "ae_LeaderID req = i" "ae_PrevLogIndex req = rc_next rc - 1"
    "ae_PrevLogTerm req = (if 0 \<le> rc_next rc - 1 \<and> rc_next rc - 1 < len (Log ?n)
       then Term (Log ?n ! nat (rc_next rc - 1)) else 0)"
    "ae_Entries req = (if 0 \<le> rc_next rc \<and> rc_next rc < len (Log ?n) then drop (nat (rc_next rc)) (Log ?n) else [])"
    "ae_LeaderCommit req = rc_commit rc"
    using req n id by (auto simp: replicateToPeer_request_def Let_def)
  have b: "0 \<le> rc_next rc" "rc_next rc \<le> len (allog a ?T)" "rc_commit rc < len (allog a ?T)"
    using cok by (auto simp: call_ok_def commit_ok_def)
  have k: "nat (rc_next rc - 1 + 1) = nat (rc_next rc)" by simp
  have all: "take (nat (rc_next rc)) (allog a ?T) @ ae_Entries req = allog a ?T"
    using b(1,2) unfolding r(5) log by auto
  have "len (take (nat (rc_next rc)) (allog a ?T) @ ae_Entries req) = len (allog a ?T)"
    by (simp only: all)
  then have len: "rc_next rc + len (ae_Entries req) = len (allog a ?T)"
    using b(1,2) by (simp add: min_def split: if_splits)
  have "ae_ok (members cfg) a req"
    using cok b len all unfolding ae_ok_def Let_def r(1-4,6) log k
    by (auto simp: call_ok_def)
  then have "msg_ok (members cfg) a (AEReqM (rc_peer rc) rc req)"
    using cok r(1,2) by simp
  then show "cluster_rel cfg (send [AEReqM (rc_peer rc) rc req] c) a"
    by (intro cluster_rel_frame [OF assms(1,2) rtranclp.rtrancl_refl, of i])
      (use d(2-4) in auto)
qed

subsection \<open>Applying and crashing\<close>

lemma sim_apply:
  assumes "cluster_rel cfg c a" and "good_config cfg" and i: "i \<in> set (members cfg)"
    and ap: "applyLoop_turn ticker (nodes c i) = Inr n'"
  shows "simulated cfg (upd i n' c) a"
proof (rule simulatedI [OF rtranclp.rtrancl_refl])
  note d = cluster_relD [OF assms(1)]
  have ok: "node_ok cfg i (nodes c i)" by (rule d(3) [OF i])
  have run: "node_ok cfg i m' \<and> abs_node m' = abs_node m \<and> State m' = State m \<and> NextIndex m' = NextIndex m \<and>
      MatchIndex m' = MatchIndex m"
    if m: "node_ok cfg i m" "applyCommittedEntries m = Inr m'" for m m'
  proof -
    have m': "m' = m\<lparr>LastApplied := apply_target m, KVStore := run_log (Log m) (apply_target m)\<rparr>"
      using m by (simp add: applyCommittedEntries_result node_ok_def)
    moreover have "applied_ok m'" using m(1) applyCommittedEntries_ok [OF _ m(2)] by (simp add: node_ok_def)
    moreover have "journal_state m' = journal_state m" using m' by (intro journal_state_cong) simp
    ultimately show ?thesis
      using m(1) by (simp add: node_ok_def durable_def commit_durable_def abs_node_def apply_target_def)
  qed
  have silent: "node_ok cfg i ((nodes c i)\<lparr>applyNotify := False\<rparr>)"
    by (rule node_ok_cong [OF ok]) simp_all
  have "node_ok cfg i n' \<and> abs_node n' = abs_node (nodes c i) \<and> State n' = State (nodes c i) \<and>
      NextIndex n' = NextIndex (nodes c i) \<and> MatchIndex n' = MatchIndex (nodes c i)"
    using ap run [OF ok] run [OF silent] ok
    by (auto simp: applyLoop_turn_def abs_node_def split: if_splits)
  then show "cluster_rel cfg (upd i n' c) a"
    using leader_ok_cong [OF d(4) [OF i], of n']
    by (intro sim_refl_upd [OF assms(1,2) i]) (auto simp: abs_node_def)
qed

lemma sim_crash:
  assumes "cluster_rel cfg c a" and "good_config cfg" and i: "i \<in> set (members cfg)"
  shows "simulated cfg (do_crash i c) a"
proof -
  note d = cluster_relD [OF assms(1)]
  let ?n = "nodes c i" and ?a' = "set_node i ((an a i)\<lparr>a_role := Follower\<rparr>) a"
  have step: "astep (members cfg) a ?a'" by (rule astep.a_follow [OF i])
  have ok: "node_ok cfg i ?n" by (rule d(3) [OF i])
  have abs: "an ?a' i = abs_node (restart ?n)"
    using ok d(2) [OF i] by (simp add: abs_node_def node_simps node_ok_def durable_def commit_durable_def)
  have "-1 \<le> CommitIndex ?n" using node_commit_ok [OF assms(1) i] by (simp add: commit_ok_def)
  then have rok: "node_ok cfg i (restart ?n)"
    using ok by (intro node_ok_restart) (simp_all add: node_ok_def)
  have "cluster_rel cfg (do_crash i c) ?a'"
    by (rule cluster_rel_frame [OF assms(1,2) asteps1 [OF step], of i])
      (use abs rok in \<open>auto simp: do_crash_def node_simps split: if_splits\<close>)
  then show ?thesis by (rule simulatedI [OF asteps1 [OF step]])
qed

end
