(* ===== verification/Refinement_Election.thy ===== *)
theory Refinement_Election
  imports Refinement
begin

text \<open>
  The simulation of the election steps: timeouts, votes, the processing of replies, and the victory
  of a candidate whose counted votes are a majority.
\<close>

subsection \<open>Members and peers\<close>

lemma peers_of_members:
  assumes "good_config cfg" and "i \<in> set (members cfg)"
  shows "set (map fst (peers_of cfg i)) = set (members cfg) - {i}"
    and "distinct (map fst (peers_of cfg i))"
    and "len (peers_of cfg i) + 1 = len (members cfg)"
proof -
  show s: "set (map fst (peers_of cfg i)) = set (members cfg) - {i}"
    by (force simp: peers_of_def members_def)
  have "distinct (filter P xs)" if "distinct xs" for P and xs :: "string list" using that by simp
  moreover have "map fst (peers_of cfg i) = filter (\<lambda>j. j \<noteq> i) (members cfg)"
    by (simp add: peers_of_def members_def filter_map o_def case_prod_unfold)
  ultimately show d: "distinct (map fst (peers_of cfg i))"
    using assms(1) by (simp add: good_config_def)
  have "card (set (members cfg) - {i}) + 1 = length (members cfg)"
    using assms distinct_card [of "members cfg"] card_Suc_Diff1 [OF _ assms(2)]
    by (simp add: good_config_def)
  then show "len (peers_of cfg i) + 1 = len (members cfg)"
    using distinct_card [OF d] s by simp
qed

lemma card_members: "good_config cfg \<Longrightarrow> card (set (members cfg)) = length (members cfg)"
  by (simp add: good_config_def distinct_card)

subsection \<open>Timeouts\<close>

lemma election_begun:
  assumes "State n \<noteq> Leader" and "0 \<le> CurrentTerm n" and "CurrentTerm n < max_int"
  shows "startElection_begin n =
    (resetElectionTimer (node_append (state_record (CurrentTerm n + 1) (ID n))
       (n\<lparr>State := Candidate, CurrentTerm := CurrentTerm n + 1, VotedFor := ID n\<rparr>)),
     Some \<lparr>el_term = CurrentTerm n + 1, el_lastLogIndex = lastLogIndex (Log n), el_lastLogTerm = lastLogTerm (Log n),
       el_votes = 1, el_peersCount = len (Peers n) + 1\<rparr>)"
  using assms int64_succ [of "CurrentTerm n"] by (simp add: startElection_begin_def Let_def)

lemma sim_timeout:
  assumes "cluster_rel cfg c a" and good: "good_config cfg" and i: "i \<in> set (members cfg)"
    and bound: "CurrentTerm (nodes c i) < max_int"
  shows "simulated cfg (do_timeout i c) a"
proof (cases "State (nodes c i) = Leader")
  case True
  note d = cluster_relD [OF assms(1)]
  have "cluster_rel cfg (upd i (nodes c i) c) a"
    using d(3,4) i by (intro sim_refl_upd [OF assms(1,2) i]) simp_all
  then show ?thesis
    using True by (intro simulatedI [of _ a a]) (simp_all add: do_timeout_def startElection_begin_def)
next
  case False
  note d = cluster_relD [OF assms(1)]
  let ?n = "nodes c i" and ?t = "CurrentTerm (nodes c i) + 1"
  have ok: "node_ok cfg i ?n" by (rule d(3) [OF i])
  then have id: "ID ?n = i" and peers: "Peers ?n = peers_of cfg i" and jo: "j_open (wal ?n)"
    and du: "durable ?n" and cd: "commit_durable ?n"
    by (simp_all add: node_ok_def)
  have nonneg: "0 \<le> CurrentTerm ?n"
    using core_nodesD(1) [OF raft_inv_core [OF d(1)] i] d(2) [OF i] by simp
  obtain n' el where b: "startElection_begin ?n = (n', Some el)" and n': "n' = resetElectionTimer (node_append (state_record ?t i)
      (?n\<lparr>State := Candidate, CurrentTerm := ?t, VotedFor := i\<rparr>))"
    and el: "el = \<lparr>el_term = ?t, el_lastLogIndex = lastLogIndex (Log ?n),
      el_lastLogTerm = lastLogTerm (Log ?n), el_votes = 1, el_peersCount = len (peers_of cfg i) + 1\<rparr>"
    using election_begun [OF False nonneg bound] id peers by simp
  let ?a' = "set_node i ((an a i)\<lparr>a_term := ?t, a_vote := i, a_role := Candidate\<rparr>)
       (a\<lparr>avotes := (avotes a)((i, ?t) \<mapsto> (i, a_log (an a i)))\<rparr>)"
  have step: "astep (members cfg) a ?a'"
    using d(2) [OF i] by (intro astep.a_candidate [OF i]) simp
  have abs: "an ?a' i = abs_node n'"
    using d(2) [OF i] by (simp add: n' abs_node_def node_simps)
  have nok: "node_ok cfg i n'"
    using ok durable_startElection_begin [OF jo du b] cd
    by (simp add: node_ok_def n' node_simps applied_ok_def)
  note pm = peers_of_members [OF good i]
  have eok: "election_ok (members cfg) ?a' i ?t
      \<lparr>run_el = el, run_waiting = map fst (peers_of cfg i), run_counting = []\<rparr>"
    unfolding election_ok_def using pm d(2) [OF i]
    by (auto simp: el intro!: exI [where x = "{}"])
  have vok: "rv_ok ?a' (vote_request i el)"
    using d(2) [OF i] by (simp add: rv_ok_def vote_request_def el)
  have "cluster_rel cfg (do_timeout i c) ?a'"
    by (rule cluster_rel_frame [OF assms(1,2) asteps1 [OF step], of i])
      (use abs nok eok vok b in \<open>auto simp: do_timeout_def n' el node_simps peers id split: if_splits\<close>)
  then show ?thesis by (rule simulatedI [OF asteps1 [OF step]])
qed

subsection \<open>Votes\<close>

lemma log_ok_lastLogIndex: "log_ok a L \<Longrightarrow> lastLogIndex L = len L - 1"
  using log_ok_nth(1) [of a L "length L - 1"]
  by (cases "L = []") (auto simp: lastLogIndex_def last_conv_nth of_nat_diff Suc_le_eq)

lemma log_up_to_date_abs:
  assumes "log_ok a E" and "log_ok a L" and "rv_LastLogIndex req = lastLogIndex E"
    and "rv_LastLogTerm req = lastLogTerm E"
  shows "log_up_to_date req L = up_to_date E L"
  using log_ok_lastLogIndex [OF assms(1)] log_ok_lastLogIndex [OF assms(2)] assms(3,4)
  by (auto simp: log_up_to_date_def up_to_date_def)

text \<open>A node that takes over a higher term.\<close>

lemma a_newterm_node:
  assumes "p \<in> set ids" and "an a p = abs_node n" and "CurrentTerm n < t"
    and "abs_node n' = (abs_node n)\<lparr>a_term := t, a_vote := '''', a_role := Follower\<rparr>"
  shows "astep ids a (set_node p (abs_node n') a)"
  using astep.a_newterm [OF assms(1), of a t] assms(2-4) by simp

lemma abs_stepDown: "abs_node (stepDown t n) = (abs_node n)\<lparr>a_term := t, a_vote := '''', a_role := Follower\<rparr>"
  by (simp add: abs_node_def node_simps)

text \<open>A node in the candidate's term that votes for it.\<close>

lemma sim_grant:
  assumes inv: "raft_inv ids a" and e: "'''' \<notin> set ids" and p: "p \<in> set ids" and n: "an a p = abs_node n"
    and T: "CurrentTerm n = rv_Term req" and rv: "rv_ok a req"
    and can: "VotedFor n = '''' \<or> VotedFor n = rv_CandidateID req" and up: "log_up_to_date req (Log n)"
  shows "\<exists>a'. astep ids a a' \<and> an a' p = (abs_node n)\<lparr>a_vote := rv_CandidateID req\<rparr> \<and> (\<forall>j. j \<noteq> p \<longrightarrow> an a' j = an a j) \<and>
    (\<exists>L. avotes a' (p, rv_Term req) = Some (rv_CandidateID req, L))"
proof -
  let ?T = "rv_Term req" and ?c = "rv_CandidateID req"
  note core = raft_inv_core [OF inv]
  obtain E where E: "avotes a (?c, ?T) = Some (?c, E)" "rv_LastLogIndex req = lastLogIndex E"
      "rv_LastLogTerm req = lastLogTerm E"
    using rv by (auto simp: rv_ok_def)
  have "log_ok a (Log n)" using core_nodesD(2) [OF core p] n by simp
  then have utd: "up_to_date E (Log n)"
    using log_up_to_date_abs [OF core_votesD(4) [OF core E(1)] _ E(2,3)] up by simp
  let ?a' = "set_node p ((an a p)\<lparr>a_vote := ?c\<rparr>)
     (a\<lparr>avotes := (if avotes a (p, ?T) = None then (avotes a)((p, ?T) \<mapsto> (?c, a_log (an a p))) else avotes a)\<rparr>)"
  have step: "astep ids a ?a'" using can T utd n by (intro astep.a_grant [OF p _ _ E(1)]) simp_all
  have "\<exists>L. avotes ?a' (p, ?T) = Some (?c, L)"
  proof (cases "avotes a (p, ?T)")
    case (Some w)
    then obtain c' L where w: "avotes a (p, ?T) = Some (c', L)" by (cases w) simp
    have "VotedFor n = c'" "c' \<noteq> ''''" using core_votesD(2,6) [OF core w] T n e by auto
    then show ?thesis using w can by auto
  qed simp
  then show ?thesis using step n by (intro exI [of _ ?a']) simp
qed

lemma sim_rv_node:
  assumes inv: "raft_inv ids a" and e: "'''' \<notin> set ids" and p: "p \<in> set ids" and n: "an a p = abs_node n"
    and rv: "rv_ok a req" and h: "HandleRequestVote req n = (n', resp)"
  shows "\<exists>a'. asteps ids a a' \<and> an a' p = abs_node n' \<and> (\<forall>j. j \<noteq> p \<longrightarrow> an a' j = an a j) \<and>
    (rvr_VoteGranted resp \<longrightarrow> (\<exists>L. avotes a' (p, rv_Term req) = Some (rv_CandidateID req, L)))"
proof (cases "rv_Term req < CurrentTerm n")
  case True
  then show ?thesis using h n by (intro exI [of _ a]) (auto simp: HandleRequestVote_def)
next
  case False
  let ?T = "rv_Term req" and ?c = "rv_CandidateID req"
  define n1 where "n1 = (if ?T > CurrentTerm n then stepDown ?T n else n)"
  define a1 where "a1 = (if ?T > CurrentTerm n then set_node p (abs_node n1) a else a)"
  have steps1: "asteps ids a a1"
    using a_newterm_node [OF p n, of ?T n1] by (auto simp: a1_def n1_def abs_stepDown intro: asteps1)
  have an1: "an a1 p = abs_node n1" "\<And>j. j \<noteq> p \<Longrightarrow> an a1 j = an a j"
    using n by (simp_all add: a1_def n1_def)
  have T: "CurrentTerm n1 = ?T" using False by (simp add: n1_def node_simps)
  have inv1: "raft_inv ids a1" and le: "hist_le a a1" using raft_inv_steps [OF steps1 inv e] by auto
  show ?thesis
  proof (cases "(VotedFor n1 = '''' \<or> VotedFor n1 = ?c) \<and> log_up_to_date req (Log n1)")
    case True
    obtain a2 where a2: "astep ids a1 a2" "an a2 p = (abs_node n1)\<lparr>a_vote := ?c\<rparr>" "\<forall>j. j \<noteq> p \<longrightarrow> an a2 j = an a1 j"
        "\<exists>L. avotes a2 (p, ?T) = Some (?c, L)"
      using sim_grant [OF inv1 e p an1(1) T rv_ok_mono [OF le rv]] True by blast
    have n': "n' = resetElectionTimer (node_append (state_record ?T ?c) (n1\<lparr>VotedFor := ?c\<rparr>))"
      using h True False T by (simp add: HandleRequestVote_def n1_def [symmetric] Let_def)
    then have "an a2 p = abs_node n'" using a2(2) by (simp add: abs_node_def node_simps)
    then show ?thesis
      using asteps_snoc [OF steps1 a2(1)] a2(3,4) an1(2) by (intro exI [of _ a2]) simp
  next
    case no: False
    then have "n' = n1" "\<not> rvr_VoteGranted resp"
      using h False by (auto simp: HandleRequestVote_def n1_def [symmetric] Let_def split: if_splits)
    then show ?thesis using steps1 an1 by (intro exI [of _ a1]) simp
  qed
qed

lemma sim_handle_rv:
  assumes "cluster_rel cfg c a" and good: "good_config cfg" and p: "p \<in> set (members cfg)"
    and m: "RVReqM p req \<in> set (net c)"
  shows "simulated cfg (do_handle_rv p req c) a"
proof -
  note d = cluster_relD [OF assms(1)]
  obtain n' resp where h: "HandleRequestVote req (nodes c p) = (n', resp)" by fastforce
  have e: "'''' \<notin> set (members cfg)" using good by (simp add: good_config_def)
  have "rv_ok a req" using d(5) [OF m] by simp
  from sim_rv_node [OF d(1) e p d(2) [OF p] this h] obtain a' where
    steps: "asteps (members cfg) a a'" and an: "an a' p = abs_node n'" "\<And>j. j \<noteq> p \<Longrightarrow> an a' j = an a j"
    and g: "rvr_VoteGranted resp \<longrightarrow> (\<exists>L. avotes a' (p, rv_Term req) = Some (rv_CandidateID req, L))"
    by blast
  have le: "hist_le a a'" using raft_inv_steps [OF steps d(1) e] by simp
  have ok: "node_ok cfg p (nodes c p)" by (rule d(3) [OF p])
  note f = HandleRequestVote_frame [OF h]
  have "node_ok cfg p n'"
    using ok f durable_HandleRequestVote [OF _ _ h]
    by (simp add: node_ok_def handler_frame_def applied_ok_def)
  moreover have "leader_ok cfg a' p n'"
  proof (cases "rv_Term req > CurrentTerm (nodes c p)")
    case True
    then show ?thesis using HandleRequestVote_state [OF h] by simp
  next
    case False
    then show ?thesis
      using HandleRequestVote_state [OF h] f
      by (intro leader_ok_cong [OF leader_ok_mono [OF le d(4) [OF p]]]) (auto simp: handler_frame_def)
  qed
  ultimately have "cluster_rel cfg (do_handle_rv p req c) a'"
    using an g h by (intro cluster_rel_frame [OF assms(1,2) steps, of p]) (auto simp: do_handle_rv_def)
  then show ?thesis by (rule simulatedI [OF steps])
qed

subsection \<open>Replies and counted votes\<close>

lemma election_okD:
  assumes "election_ok ids a i t r"
  shows "el_term (run_el r) = t" "el_peersCount (run_el r) = len ids"
    "distinct (run_waiting r)" "distinct (run_counting r)"
    "set (run_waiting r) \<inter> set (run_counting r) = {}"
    "set (run_waiting r) \<subseteq> set ids - {i}" "set (run_counting r) \<subseteq> set ids - {i}"
    "\<And>p. p \<in> set (run_counting r) \<Longrightarrow> \<exists>L. avotes a (p, t) = Some (i, L)"
  using assms by (auto simp: election_ok_def)

lemma election_ok_waiting:
  assumes "election_ok ids a i t r" and "p \<in> set (run_waiting r)"
    and "counts \<Longrightarrow> \<exists>L. avotes a (p, t) = Some (i, L)"
  shows "election_ok ids a i t (r\<lparr>run_waiting := remove1 p (run_waiting r),
    run_counting := (if counts then p # run_counting r else run_counting r)\<rparr>)"
proof -
  note e = election_okD [OF assms(1)]
  have w: "set (remove1 p (run_waiting r)) = set (run_waiting r) - {p}" using e(3) by simp
  have "p \<notin> set (run_counting r)" using e(5) assms(2) by blast
  then show ?thesis
    using assms e(3-7) unfolding election_ok_def by (auto simp: w)
qed

lemma sim_vote_reply:
  assumes "cluster_rel cfg c a" and good: "good_config cfg" and i: "i \<in> set (members cfg)"
    and el: "elections c (i, t) = Some r" and p: "p \<in> set (run_waiting r)"
    and m: "RVRespM p (vote_request i (run_el r)) resp \<in> set (net c)"
  shows "simulated cfg (do_vote_reply i t r p resp c) a"
proof -
  note d = cluster_relD [OF assms(1)]
  let ?n = "nodes c i"
  have eok: "election_ok (members cfg) a i t r" by (rule d(6) [OF el])
  have ok: "node_ok cfg i ?n" by (rule d(3) [OF i])
  have vote: "\<exists>L. avotes a (p, t) = Some (i, L)" if "rvr_VoteGranted resp"
    using d(5) [OF m] that election_okD(1) [OF eok] by (simp add: vote_request_def)
  show ?thesis
  proof (cases "CurrentTerm ?n = el_term (run_el r) \<and> State ?n = Candidate \<and> rvr_Term resp > CurrentTerm ?n")
    case True
    let ?n' = "stepDown (rvr_Term resp) ?n" and ?a' = "set_node i (abs_node (stepDown (rvr_Term resp) ?n)) a"
    have step: "astep (members cfg) a ?a'"
      using True by (intro a_newterm_node [OF i d(2) [OF i]]) (simp_all add: abs_stepDown)
    have le: "hist_le a ?a'" by (rule astep_hist_le [OF raft_inv_core [OF d(1)] step])
    have "node_ok cfg i ?n'"
      using ok durable_stepDown [of ?n] by (simp add: node_ok_def node_simps applied_ok_def)
    then have "cluster_rel cfg (do_vote_reply i t r p resp c) ?a'"
      using True election_ok_waiting [OF eok p, of False] election_ok_mono [OF le]
      by (intro cluster_rel_frame [OF assms(1,2) asteps1 [OF step], of i])
        (auto simp: do_vote_reply_def startElection_reply_def node_simps split: if_splits)
    then show ?thesis by (rule simulatedI [OF asteps1 [OF step]])
  next
    case False
    define counts where "counts = snd (startElection_reply (run_el r) resp ?n)"
    have r: "startElection_reply (run_el r) resp ?n = (?n, counts)"
      and counts: "counts \<Longrightarrow> rvr_VoteGranted resp"
      using False by (auto simp: counts_def startElection_reply_def split: if_splits)
    have "cluster_rel cfg (do_vote_reply i t r p resp c) a"
      using r election_ok_waiting [OF eok p, of counts] counts vote d(2-4) [OF i]
      by (intro cluster_rel_frame [OF assms(1,2) rtranclp.rtrancl_refl, of i])
        (auto simp: do_vote_reply_def split: if_splits)
    then show ?thesis by (intro simulatedI [OF rtranclp.rtrancl_refl])
  qed
qed

lemma sim_vote_failed:
  assumes "cluster_rel cfg c a" and "good_config cfg" and i: "i \<in> set (members cfg)"
    and el: "elections c (i, t) = Some r" and p: "p \<in> set (run_waiting r)"
  shows "simulated cfg (do_vote_failed i t r p c) a"
proof (rule simulatedI [OF rtranclp.rtrancl_refl])
  note d = cluster_relD [OF assms(1)]
  have "election_ok (members cfg) a i t (r\<lparr>run_waiting := remove1 p (run_waiting r)\<rparr>)"
    using election_ok_waiting [OF d(6) [OF el] p, of False] by simp
  then show "cluster_rel cfg (do_vote_failed i t r p c) a"
    using d(2-4) [OF i]
    by (intro cluster_rel_frame [OF assms(1,2) rtranclp.rtrancl_refl, of i])
      (auto simp: do_vote_failed_def split: if_splits)
qed

subsection \<open>Victory\<close>

text \<open>A candidate whose counted votes are more than half of the members becomes leader.\<close>

lemma becomeLeader_ok:
  assumes ok: "node_ok cfg i n" and cand: "State n = Candidate"
  shows "node_ok cfg i (becomeLeader n)" and "leader_ok cfg a i (becomeLeader n)"
proof -
  have idx: "map_of (NextIndex (becomeLeader n)) k =
      (if k \<in> fst ` set (peers_of cfg i) then Some (len (Log n)) else map_of (NextIndex n) k)"
    "map_of (MatchIndex (becomeLeader n)) k =
      (if k \<in> fst ` set (peers_of cfg i) then Some (-1) else map_of (MatchIndex n) k)" for k
    using becomeLeader_indexes [of n] cand ok by (simp_all add: node_ok_def)
  have inv: "go_map_inv (MatchIndex (becomeLeader n))"
    using ok cand go_map_inv_fold_update [of "MatchIndex n"]
    by (simp add: node_ok_def becomeLeader_def Let_def node_simps)
  have keys: "fst ` set (MatchIndex (becomeLeader n)) \<subseteq> fst ` set (peers_of cfg i)"
  proof
    fix k assume "k \<in> fst ` set (MatchIndex (becomeLeader n))"
    then have "map_of (MatchIndex (becomeLeader n)) k \<noteq> None" by (simp add: map_of_eq_None_iff)
    then have "k \<in> fst ` set (peers_of cfg i) \<or> k \<in> fst ` set (MatchIndex n)"
      by (auto simp: idx(2) dest: map_of_SomeD intro: rev_image_eqI split: if_splits)
    then show "k \<in> fst ` set (peers_of cfg i)" using ok by (auto simp: node_ok_def)
  qed
  show "node_ok cfg i (becomeLeader n)"
    using ok inv keys durable_becomeLeader [of n] by (simp add: node_ok_def node_simps applied_ok_def)
  have "m = -1" if "(p, m) \<in> set (MatchIndex (becomeLeader n))" for p m
  proof -
    have "map_of (MatchIndex (becomeLeader n)) p = Some m" using that inv by (simp add: go_map_inv_def)
    moreover have "p \<in> fst ` set (peers_of cfg i)" using that keys by force
    ultimately show ?thesis by (simp add: idx(2))
  qed
  then show "leader_ok cfg a i (becomeLeader n)"
    by (fastforce simp: leader_ok_def node_simps go_get_def idx(1))
qed

lemma sim_win_node:
  assumes rel: "cluster_rel cfg c a" and good: "good_config cfg" and i: "i \<in> set (members cfg)"
    and n: "State (nodes c i) = Candidate" "CurrentTerm (nodes c i) = t"
    and V: "finite V" "i \<notin> V" "V \<subseteq> set (members cfg)" "\<And>p. p \<in> V \<Longrightarrow> \<exists>L. avotes a (p, t) = Some (i, L)"
    and maj: "1 + int (card V) > len (members cfg) div 2"
  shows "\<exists>a'. asteps (members cfg) a a' \<and> hist_le a a' \<and> (\<forall>j. j \<noteq> i \<longrightarrow> an a' j = an a j) \<and>
    an a' i = abs_node (becomeLeader (nodes c i)) \<and> node_ok cfg i (becomeLeader (nodes c i)) \<and>
    leader_ok cfg a' i (becomeLeader (nodes c i))"
proof -
  note d = cluster_relD [OF rel]
  note core = raft_inv_core [OF d(1)]
  let ?n = "nodes c i" and ?S = "insert i V"
  let ?a' = "set_node i ((an a i)\<lparr>a_role := Leader\<rparr>)
       (a\<lparr>aleads := (aleads a)(t \<mapsto> (i, ?S, a_log (an a i))), allog := (allog a)(t := a_log (an a i))\<rparr>)"
  have maj': "majority (members cfg) ?S"
    using V(1-3) i maj by (simp add: majority_def card_members [OF good])
  have own: "avotes a (i, t) = Some (i, Log ?n)"
    using core_nodesD(6) [OF core i] d(2) [OF i] n by simp
  have step: "astep (members cfg) a ?a'"
    using n d(2) [OF i] own V(4) by (intro astep.a_win [OF i _ _ maj']) auto
  note leader = becomeLeader_ok [OF d(3) [OF i] n(1)]
  have "an ?a' i = abs_node (becomeLeader ?n)"
    using d(2) [OF i] by (simp add: abs_node_def node_simps)
  then show ?thesis
    using asteps1 [OF step] astep_hist_le [OF core step] leader by (intro exI [of _ ?a']) simp
qed

lemma election_ok_count:
  assumes "election_ok ids a i t r" and "p \<in> set (run_counting r)"
  obtains V where "1 + int (card V) = el_votes (run_el r) + 1" "finite V" "i \<notin> V" "V \<subseteq> set ids"
    "\<And>q. q \<in> V \<Longrightarrow> \<exists>L. avotes a (q, t) = Some (i, L)"
    "election_ok ids a i t (r\<lparr>run_el := (run_el r)\<lparr>el_votes := el_votes (run_el r) + 1\<rparr>,
       run_counting := remove1 p (run_counting r)\<rparr>)"
proof -
  note e = election_okD [OF assms(1)]
  obtain V where V: "el_votes (run_el r) = 1 + int (card V)" "finite V" "i \<notin> V" "V \<subseteq> set ids"
      "V \<inter> set (run_waiting r) = {}" "V \<inter> set (run_counting r) = {}"
      "\<forall>q \<in> V. \<exists>L. avotes a (q, t) = Some (i, L)"
    using assms(1) unfolding election_ok_def by blast
  have p: "p \<notin> V" "p \<noteq> i" "p \<in> set ids" "p \<notin> set (run_waiting r)"
    using V(6) assms(2) e(5,7) by blast+
  let ?V = "insert p V"
  have V': "1 + int (card ?V) = el_votes (run_el r) + 1" "finite ?V" "i \<notin> ?V" "?V \<subseteq> set ids"
    "\<And>q. q \<in> ?V \<Longrightarrow> \<exists>L. avotes a (q, t) = Some (i, L)"
    using V p e(8) [OF assms(2)] by auto
  have cs: "set (remove1 p (run_counting r)) = set (run_counting r) - {p}" using e(4) by simp
  have "?V \<inter> set (run_waiting r) = {}" "?V \<inter> set (remove1 p (run_counting r)) = {}"
    using V(5,6) p(4) cs by auto
  then have "election_ok ids a i t (r\<lparr>run_el := (run_el r)\<lparr>el_votes := el_votes (run_el r) + 1\<rparr>,
       run_counting := remove1 p (run_counting r)\<rparr>)"
    using assms(1) V' e(3-7) unfolding election_ok_def by (auto simp: cs intro!: exI [of _ ?V])
  with V' show ?thesis by (intro that [of ?V])
qed

lemma sim_vote_count:
  assumes "cluster_rel cfg c a" and good: "good_config cfg" and i: "i \<in> set (members cfg)"
    and el: "elections c (i, t) = Some r" and p: "p \<in> set (run_counting r)"
  shows "simulated cfg (do_vote_count i t r p c) a"
proof -
  note d = cluster_relD [OF assms(1)]
  let ?n = "nodes c i" and ?el' = "(run_el r)\<lparr>el_votes := el_votes (run_el r) + 1\<rparr>"
  let ?r' = "r\<lparr>run_el := ?el', run_counting := remove1 p (run_counting r)\<rparr>"
  have eok: "election_ok (members cfg) a i t r" by (rule d(6) [OF el])
  note e = election_okD [OF eok]
  obtain V where V: "1 + int (card V) = el_votes (run_el r) + 1" "finite V" "i \<notin> V" "V \<subseteq> set (members cfg)"
      "\<And>q. q \<in> V \<Longrightarrow> \<exists>L. avotes a (q, t) = Some (i, L)" "election_ok (members cfg) a i t ?r'"
    by (rule election_ok_count [OF eok p]) blast
  show ?thesis
  proof (cases "el_votes ?el' > el_peersCount (run_el r) div 2 \<and> State ?n = Candidate \<and> CurrentTerm ?n = t")
    case True
    then have maj: "1 + int (card V) > len (members cfg) div 2" using V(1) e(2) by simp
    obtain a' where a': "asteps (members cfg) a a'" "hist_le a a'" "\<And>j. j \<noteq> i \<Longrightarrow> an a' j = an a j"
        "an a' i = abs_node (becomeLeader ?n)" "node_ok cfg i (becomeLeader ?n)"
        "leader_ok cfg a' i (becomeLeader ?n)"
      using sim_win_node [OF assms(1,2) i _ _ V(2-5) maj] True by blast
    have "cluster_rel cfg (do_vote_count i t r p c) a'"
      using a'(3-6) True election_ok_mono [OF a'(2) V(6)] e(1)
      by (intro cluster_rel_frame [OF assms(1,2) a'(1), of i])
        (auto simp: do_vote_count_def startElection_count_def Let_def split: if_splits)
    then show ?thesis by (rule simulatedI [OF a'(1)])
  next
    case False
    then have "startElection_count (run_el r) ?n = (?n, ?el')"
      using e(1) by (auto simp: startElection_count_def Let_def)
    then have "cluster_rel cfg (do_vote_count i t r p c) a"
      using d(2-4) [OF i] V(6)
      by (intro cluster_rel_frame [OF assms(1,2) rtranclp.rtrancl_refl, of i])
        (auto simp: do_vote_count_def split: if_splits)
    then show ?thesis by (rule simulatedI [OF rtranclp.rtrancl_refl])
  qed
qed

lemma sim_election_finish:
  assumes "cluster_rel cfg c a" and good: "good_config cfg" and i: "i \<in> set (members cfg)"
    and el: "elections c (i, t) = Some r"
  shows "simulated cfg (do_election_finish i t r c) a"
proof -
  note d = cluster_relD [OF assms(1)]
  let ?n = "nodes c i"
  have eok: "election_ok (members cfg) a i t r" by (rule d(6) [OF el])
  note e = election_okD [OF eok]
  obtain V where V: "el_votes (run_el r) = 1 + int (card V)" "finite V" "i \<notin> V" "V \<subseteq> set (members cfg)"
      "\<And>q. q \<in> V \<Longrightarrow> \<exists>L. avotes a (q, t) = Some (i, L)"
    using eok unfolding election_ok_def by blast
  show ?thesis
  proof (cases "State ?n = Candidate \<and> CurrentTerm ?n = t \<and> el_votes (run_el r) > el_peersCount (run_el r) div 2")
    case True
    then have maj: "1 + int (card V) > len (members cfg) div 2" using V(1) e(2) by simp
    obtain a' where a': "asteps (members cfg) a a'" "hist_le a a'" "\<And>j. j \<noteq> i \<Longrightarrow> an a' j = an a j"
        "an a' i = abs_node (becomeLeader ?n)" "node_ok cfg i (becomeLeader ?n)"
        "leader_ok cfg a' i (becomeLeader ?n)"
      using sim_win_node [OF assms(1,2) i _ _ V(2-5) maj] True by blast
    have "cluster_rel cfg (do_election_finish i t r c) a'"
      using a'(3-6) True e(1)
      by (intro cluster_rel_frame [OF assms(1,2) a'(1), of i])
        (auto simp: do_election_finish_def startElection_finish_def split: if_splits)
    then show ?thesis by (rule simulatedI [OF a'(1)])
  next
    case False
    define n' where "n' = startElection_finish (run_el r) ?n"
    have n': "n' = ?n \<or> n' = resetElectionTimer ?n"
      using False e(1) by (auto simp: n'_def startElection_finish_def)
    have "abs_node n' = abs_node ?n" using n' by (auto simp: abs_node_def node_simps)
    moreover have "node_ok cfg i n'"
      using n' by (intro node_ok_cong [OF d(3) [OF i]]) (auto simp: node_simps)
    moreover have "leader_ok cfg a i n'"
      using n' by (intro leader_ok_cong [OF d(4) [OF i]]) (auto simp: node_simps)
    ultimately have "cluster_rel cfg (do_election_finish i t r c) a"
      using d(2) [OF i] unfolding do_election_finish_def n'_def [symmetric]
      by (intro cluster_rel_frame [OF assms(1,2) rtranclp.rtrancl_refl, of i]) (auto split: if_splits)
    then show ?thesis by (rule simulatedI [OF rtranclp.rtrancl_refl])
  qed
qed

end
