(* ===== verification/Refinement_Append.thy ===== *)
theory Refinement_Append
  imports Refinement_Election
begin

text \<open>
  The simulation of log replication: a follower that serves \<^verbatim>\<open>HandleAppendEntries\<close>, and a leader that
  processes a reply and advances its commit index. At the end, every reachable cluster is related
  to a reachable abstract state.
\<close>

subsection \<open>Requests against a follower's log\<close>

lemma ae_okD:
  assumes "ae_ok ids a req"
  shows "elected a (ae_Term req)" "-1 \<le> ae_PrevLogIndex req"
    "nat (ae_PrevLogIndex req + 1) \<le> length (allog a (ae_Term req))"
    "0 \<le> ae_PrevLogIndex req \<Longrightarrow>
       ae_PrevLogTerm req = Term (allog a (ae_Term req) ! nat (ae_PrevLogIndex req))"
    "prefix (take (nat (ae_PrevLogIndex req + 1)) (allog a (ae_Term req)) @ ae_Entries req) (allog a (ae_Term req))"
    "commit_ok ids a (ae_Term req) (allog a (ae_Term req)) (ae_LeaderCommit req)"
    "ae_LeaderCommit req \<le> ae_PrevLogIndex req + len (ae_Entries req)"
  using assms by (auto simp: ae_ok_def Let_def)

lemma mismatch_follows:
  assumes "ae_ok ids a req" and "prev_mismatch req L"
  shows "follows L (allog a (ae_Term req)) (take (nat (ae_PrevLogIndex req)) L)"
proof (rule follows_truncate)
  note r = ae_okD [OF assms(1)]
  fix P assume P: "prefix P L" "prefix P (allog a (ae_Term req))"
  show "length P \<le> nat (ae_PrevLogIndex req) \<or> length L \<le> nat (ae_PrevLogIndex req)"
  proof (cases "len L \<le> ae_PrevLogIndex req")
    case False
    then have "Term (L ! nat (ae_PrevLogIndex req)) \<noteq> Term (allog a (ae_Term req) ! nat (ae_PrevLogIndex req))"
      and "nat (ae_PrevLogIndex req) < length L" "nat (ae_PrevLogIndex req) < length (allog a (ae_Term req))"
      using assms(2) r(3,4) by (auto simp: prev_mismatch_def)
    then show ?thesis using prefix_common_bound [OF P] by simp
  qed linarith
qed

lemma accept_prefix:
  assumes "ae_ok ids a req" and "\<not> prev_mismatch req L" and "log_ok a L" and "log_ok a (allog a (ae_Term req))"
  shows "take (nat (ae_PrevLogIndex req + 1)) L = take (nat (ae_PrevLogIndex req + 1)) (allog a (ae_Term req))"
    and "nat (ae_PrevLogIndex req + 1) \<le> length L"
proof -
  note r = ae_okD [OF assms(1)]
  let ?p = "nat (ae_PrevLogIndex req)"
  have "take (nat (ae_PrevLogIndex req + 1)) L = take (nat (ae_PrevLogIndex req + 1)) (allog a (ae_Term req)) \<and>
    nat (ae_PrevLogIndex req + 1) \<le> length L"
  proof (cases "0 \<le> ae_PrevLogIndex req")
    case True
    then have k: "nat (ae_PrevLogIndex req + 1) = Suc ?p" by simp
    have p: "?p < length L" "Term (L ! ?p) = Term (allog a (ae_Term req) ! ?p)"
      using assms(2) True r(4) by (auto simp: prev_mismatch_def)
    then show ?thesis
      using log_matching [OF assms(3,4), of ?p] r(3) unfolding k by simp
  next
    case False
    then have "ae_PrevLogIndex req = -1" using r(2) by simp
    then show ?thesis by simp
  qed
  then show "take (nat (ae_PrevLogIndex req + 1)) L = take (nat (ae_PrevLogIndex req + 1)) (allog a (ae_Term req))"
    and "nat (ae_PrevLogIndex req + 1) \<le> length L" by blast+
qed

subsection \<open>A follower\<close>

lemma abs_accept_term:
  assumes "CurrentTerm n \<le> ae_Term req"
  shows "abs_node (accept_term req n) = (abs_node n)\<lparr>a_term := ae_Term req,
    a_vote := (if ae_Term req > CurrentTerm n then '''' else VotedFor n), a_role := Follower\<rparr>"
  using assms by (simp add: abs_node_def node_simps)

lemma a_accept_term:
  assumes "p \<in> set ids" and "an a p = abs_node n" and "CurrentTerm n \<le> ae_Term req"
  shows "astep ids a (set_node p (abs_node (accept_term req n)) a)"
proof (cases "ae_Term req > CurrentTerm n")
  case True
  then show ?thesis
    by (intro a_newterm_node [OF assms(1,2) True]) (simp add: abs_accept_term)
next
  case False
  then have "(an a p)\<lparr>a_role := Follower\<rparr> = abs_node (accept_term req n)"
    using assms(2,3) by (simp add: abs_node_def node_simps)
  then show ?thesis using astep.a_follow [OF assms(1), of a] by simp
qed

text \<open>What the leader says is committed is committed in the merged log.\<close>

lemma merged_commit_ok:
  assumes ae: "ae_ok ids a req" and le: "hist_le a a'"
    and m: "prefix (take (nat (ae_PrevLogIndex req + 1)) (allog a (ae_Term req)) @ ae_Entries req) L"
  shows "commit_ok ids a' (ae_Term req) L (ae_LeaderCommit req)"
proof (rule commit_ok_mono [OF le ae_okD(6) [OF ae] order_refl])
  let ?M = "allog a (ae_Term req)" and ?k = "nat (ae_PrevLogIndex req + 1)"
  fix P assume P: "prefix P ?M" "length P = nat (ae_LeaderCommit req + 1)"
  have "length P \<le> length (take ?k ?M @ ae_Entries req)" using P(2) ae_okD(2,3,7) [OF ae] by simp
  then have "prefix P (take ?k ?M @ ae_Entries req)" by (rule prefix_length_prefix [OF P(1) ae_okD(5) [OF ae]])
  then show "prefix P L" using m prefix_order.trans by blast
qed

lemma sim_ae_accept:
  assumes inv: "raft_inv ids a" and e: "'''' \<notin> set ids" and p: "p \<in> set ids"
    and x: "a_role (an a p) = Follower" "a_term (an a p) = ae_Term req" and ae: "ae_ok ids a req"
    and match: "\<not> prev_mismatch req (a_log (an a p))"
    and y: "y = (an a p)\<lparr>a_log := merge_log (nat (ae_PrevLogIndex req + 1)) (a_log (an a p)) (ae_Entries req),
      a_commit := (if a_commit (an a p) < ae_LeaderCommit req then ae_LeaderCommit req else a_commit (an a p))\<rparr>"
  shows "ae_LeaderCommit req < len (a_log y)"
    and "\<exists>a'. asteps ids a a' \<and> an a' p = y \<and> (\<forall>j. j \<noteq> p \<longrightarrow> an a' j = an a j) \<and>
      (ae_Entries req \<noteq> [] \<longrightarrow>
        (p, ae_Term req, nat (ae_PrevLogIndex req + len (ae_Entries req))) \<in> aacks a')"
proof -
  let ?T = "ae_Term req" and ?k = "nat (ae_PrevLogIndex req + 1)" and ?es = "ae_Entries req"
  let ?M = "allog a ?T" and ?L = "a_log (an a p)"
  let ?L' = "merge_log ?k ?L ?es"
  note core = raft_inv_core [OF inv]
  note r = ae_okD [OF ae]
  have ok: "log_ok a ?L" "log_ok a ?M"
    using core_nodesD(2) [OF core p] core_leadsD(8) [OF core, of ?T] r(1) by auto
  note pre = accept_prefix [OF ae match ok]
  note m = follows_merge [OF ok pre r(3,5)]
  let ?a2 = "set_node p ((an a p)\<lparr>a_log := ?L'\<rparr>) a"
  have s2: "asteps ids a ?a2"
    using x r(1) m(1) by (intro asteps1 astep.a_merge [OF p]) simp_all
  define a3 where "a3 = (if ?es = [] then ?a2 else
     ?a2\<lparr>aacks := insert (p, ?T, nat (ae_PrevLogIndex req + len ?es)) (aacks ?a2)\<rparr>)"
  have lenM: "?k + length ?es \<le> length ?M" using prefix_length_le [OF r(5)] r(3) by simp
  have slice: "take (?k + length ?es) ?M = take ?k ?M @ ?es"
    using r(3,5) by (simp add: prefix_iff_take)
  have s3: "asteps ids a a3"
  proof (cases "?es = []")
    case False
    have "Suc (nat (ae_PrevLogIndex req + len ?es)) = ?k + length ?es" using r(2) False by (cases ?es) auto
    then have "astep ids ?a2 (?a2\<lparr>aacks := insert (p, ?T, nat (ae_PrevLogIndex req + len ?es)) (aacks ?a2)\<rparr>)"
      using x(2) r(1) lenM m(2) slice by (intro astep.a_ack [OF p]) simp_all
    then show ?thesis using asteps_snoc [OF s2] False by (simp add: a3_def)
  qed (use s2 in \<open>simp add: a3_def\<close>)
  have an3: "an a3 = (an a)(p := (an a p)\<lparr>a_log := ?L'\<rparr>)" by (simp add: a3_def)
  have "len (take ?k ?M @ ?es) = ae_PrevLogIndex req + 1 + len ?es" using r(2,3) by simp
  then have lc: "ae_LeaderCommit req < len ?L'"
    using r(7) prefix_length_le [OF m(2)] by linarith
  then show "ae_LeaderCommit req < len (a_log y)" by (simp add: y)
  show "\<exists>a'. asteps ids a a' \<and> an a' p = y \<and> (\<forall>j. j \<noteq> p \<longrightarrow> an a' j = an a j) \<and>
      (?es \<noteq> [] \<longrightarrow> (p, ?T, nat (ae_PrevLogIndex req + len ?es)) \<in> aacks a')"
  proof (cases "a_commit (an a p) < ae_LeaderCommit req")
    case True
    have "commit_ok ids a3 ?T ?L' (ae_LeaderCommit req)"
      using raft_inv_steps [OF s3 inv e] by (intro merged_commit_ok [OF ae _ m(2)]) simp
    then have "astep ids a3 (set_node p ((an a3 p)\<lparr>a_commit := ae_LeaderCommit req\<rparr>) a3)"
      using x(2) by (intro astep.a_advance [OF p]) (simp add: an3)
    from asteps_snoc [OF s3 this] show ?thesis
      using True by (intro exI conjI) (auto simp: an3 y a3_def)
  next
    case False
    then show ?thesis using s3 by (intro exI [of _ a3]) (auto simp: an3 y a3_def)
  qed
qed

lemma sim_ae_node:
  assumes inv: "raft_inv ids a" and e: "'''' \<notin> set ids" and p: "p \<in> set ids" and n: "an a p = abs_node n"
    and ae: "ae_ok ids a req" and h: "HandleAppendEntries req n = Inr (n', resp)"
  shows "\<exists>a'. asteps ids a a' \<and> an a' p = abs_node n' \<and> (\<forall>j. j \<noteq> p \<longrightarrow> an a' j = an a j) \<and>
    CommitIndex n \<le> CommitIndex n' \<and>
    (aer_Success resp \<longrightarrow> ae_Entries req \<noteq> [] \<longrightarrow>
       (p, ae_Term req, nat (ae_PrevLogIndex req + len (ae_Entries req))) \<in> aacks a')"
proof (cases "ae_Term req < CurrentTerm n")
  case True
  then show ?thesis using h n by (intro exI [of _ a]) (auto simp: HandleAppendEntries_stale)
next
  case False
  then have le: "CurrentTerm n \<le> ae_Term req" by simp
  let ?x = "abs_node (accept_term req n)"
  let ?a1 = "set_node p ?x a"
  have s1: "asteps ids a ?a1" by (rule asteps1 [OF a_accept_term [OF p n le]])
  have inv1: "raft_inv ids ?a1" and hl: "hist_le a ?a1" using raft_inv_steps [OF s1 inv e] by auto
  have ae1: "ae_ok ids ?a1 req" by (rule ae_ok_mono [OF hl ae])
  have x: "a_role ?x = Follower" "a_term ?x = ae_Term req" "a_log ?x = Log n" "a_commit ?x = CommitIndex n"
    "a_vote ?x = (if ae_Term req > CurrentTerm n then '''' else VotedFor n)"
    using le by (simp_all add: abs_accept_term)
  note prev = ae_okD(2) [OF ae]
  show ?thesis
  proof (cases "prev_mismatch req (Log n)")
    case True
    let ?a2 = "set_node p ((an ?a1 p)\<lparr>a_log := take (nat (ae_PrevLogIndex req)) (Log n)\<rparr>) ?a1"
    have "astep ids ?a1 ?a2"
      using x mismatch_follows [OF ae1 True] ae_okD(1) [OF ae1] by (intro astep.a_merge [OF p]) simp_all
    moreover have "\<not> aer_Success resp" "an ?a2 p = abs_node n'" "CommitIndex n \<le> CommitIndex n'"
      using HandleAppendEntries_mismatch [OF le True] h x by (auto simp: abs_node_def)
    ultimately show ?thesis using asteps_snoc [OF s1] by (intro exI [of _ ?a2]) simp
  next
    case False
    define y where "y = (an ?a1 p)\<lparr>a_log := merge_log (nat (ae_PrevLogIndex req + 1)) (a_log (an ?a1 p)) (ae_Entries req),
      a_commit := (if a_commit (an ?a1 p) < ae_LeaderCommit req then ae_LeaderCommit req else a_commit (an ?a1 p))\<rparr>"
    have match: "\<not> prev_mismatch req (a_log (an ?a1 p))" using False x(3) by simp
    have f: "a_role (an ?a1 p) = Follower" "a_term (an ?a1 p) = ae_Term req" using x by simp_all
    note acc = sim_ae_accept [OF inv1 e p f ae1 match y_def]
    have "CurrentTerm n' = ae_Term req" "State n' = Follower"
      "VotedFor n' = (if ae_Term req > CurrentTerm n then '''' else VotedFor n)"
      "Log n' = merge_log (nat (ae_PrevLogIndex req + 1)) (Log n) (ae_Entries req)"
      "CommitIndex n' = (if ae_LeaderCommit req > CommitIndex n
         then min (ae_LeaderCommit req) (len (Log n') - 1) else CommitIndex n)"
      using HandleAppendEntries_accept [OF le False prev] h by auto
    then have "abs_node n' = y" "CommitIndex n \<le> CommitIndex n'"
      using x acc(1) by (simp_all add: abs_node_def y_def min_def)
    moreover obtain a' where "asteps ids ?a1 a'" "an a' p = y" "\<forall>j. j \<noteq> p \<longrightarrow> an a' j = an ?a1 j"
        "ae_Entries req \<noteq> [] \<longrightarrow>
          (p, ae_Term req, nat (ae_PrevLogIndex req + len (ae_Entries req))) \<in> aacks a'"
      using acc(2) by blast
    ultimately show ?thesis using rtranclp_trans [OF s1] by (intro exI [of _ a']) simp
  qed
qed

text \<open>Entries below both commit indexes are the same before and after, so the store stays right.\<close>

lemma applied_ok_follow:
  assumes inv: "raft_inv ids a" and "applied_ok n" and "LastApplied n \<le> CommitIndex n"
    and "commit_ok ids a T (Log n) (CommitIndex n)" and "commit_ok ids a T' (Log n') (CommitIndex n')"
    and "CommitIndex n \<le> CommitIndex n'" and "LastApplied n' = LastApplied n" and "KVStore n' = KVStore n"
  shows "applied_ok n'"
proof -
  have "take (nat (LastApplied n + 1)) (Log n) = take (nat (LastApplied n + 1)) (Log n')"
    using assms(3,6) by (intro commit_ok_agree [OF inv assms(4,5)]) simp_all
  then have "run_log (Log n) (LastApplied n) = run_log (Log n') (LastApplied n)"
    by (rule run_log_cong)
  moreover have "LastApplied n < len (Log n')"
    using assms(3,5,6) by (simp add: commit_ok_def)
  ultimately show ?thesis using assms(2,7,8) by (simp add: applied_ok_def)
qed

lemma HandleAppendEntries_role:
  assumes "HandleAppendEntries req n = Inr (n', resp)" and "-1 \<le> ae_PrevLogIndex req"
  shows "n' = n \<or> State n' = Follower"
  using assms(1) HandleAppendEntries_stale [of req n] HandleAppendEntries_mismatch [of n req]
    HandleAppendEntries_accept [OF _ _ assms(2), of n]
  by (cases "ae_Term req < CurrentTerm n"; cases "prev_mismatch req (Log n)") (simp, simp, force+)

lemma sim_handle_ae:
  assumes "cluster_rel cfg c a" and good: "good_config cfg" and p: "p \<in> set (members cfg)"
    and m: "AEReqM p rc req \<in> set (net c)" and do: "do_handle_ae p rc req c = Inr c'"
  shows "simulated cfg c' a"
proof -
  note d = cluster_relD [OF assms(1)]
  let ?n = "nodes c p"
  obtain n' resp where h: "HandleAppendEntries req ?n = Inr (n', resp)"
    and c': "c' = send [AERespM p rc req resp] (upd p n' c)"
    using do by (auto simp: do_handle_ae_def go_bind_Inr_iff)
  have e: "'''' \<notin> set (members cfg)" using good by (simp add: good_config_def)
  have msg: "msg_ok (members cfg) a (AEReqM p rc req)" by (rule d(5) [OF m])
  then have ae: "ae_ok (members cfg) a req" by simp
  from sim_ae_node [OF d(1) e p d(2) [OF p] ae h] obtain a' where
    steps: "asteps (members cfg) a a'" and an: "an a' p = abs_node n'" "\<And>j. j \<noteq> p \<Longrightarrow> an a' j = an a j"
    and ci: "CommitIndex ?n \<le> CommitIndex n'"
    and ack: "aer_Success resp \<longrightarrow> ae_Entries req \<noteq> [] \<longrightarrow>
       (p, ae_Term req, nat (ae_PrevLogIndex req + len (ae_Entries req))) \<in> aacks a'"
    by blast
  have inv': "raft_inv (members cfg) a'" and le: "hist_le a a'"
    using raft_inv_steps [OF steps d(1) e] by auto
  have ok: "node_ok cfg p ?n" by (rule d(3) [OF p])
  have cok: "commit_ok (members cfg) a' (CurrentTerm ?n) (Log ?n) (CommitIndex ?n)"
    by (rule commit_ok_mono [OF le node_commit_ok [OF assms(1) p] order_refl])
  have cok': "commit_ok (members cfg) a' (CurrentTerm n') (Log n') (CommitIndex n')"
    using raft_inv_commit [OF inv' p] an(1) by simp
  have short: "CommitIndex ?n < len (Log n')" using cok' ci by (simp add: commit_ok_def)
  have frame: "handler_frame ?n n'" by (rule HandleAppendEntries_terms(5) [OF h])
  have "applied_ok n'"
    using ok frame by (intro applied_ok_follow [OF inv' _ _ cok cok' ci]) (simp_all add: node_ok_def handler_frame_def)
  then have nok: "node_ok cfg p n'"
    using ok frame ci short HandleAppendEntries_durable [OF _ _ h] by (simp add: node_ok_def handler_frame_def)
  have "leader_ok cfg a' p n'"
    using HandleAppendEntries_role [OF h ae_okD(2) [OF ae]] leader_ok_mono [OF le d(4) [OF p]] by auto
  then have "cluster_rel cfg c' a'"
    using an nok ack msg ae_ok_mono [OF le] call_ok_mono [OF le] unfolding c'
    by (intro cluster_rel_frame [OF assms(1,2) steps, of p]) auto
  then show ?thesis by (rule simulatedI [OF steps])
qed

subsection \<open>A leader\<close>

lemma count_matches:
  assumes "go_map_inv m"
  shows "len (filter P m) = int (card (fst ` set (filter P m)))"
proof -
  have "distinct (map fst (filter P m))"
    using assms by (simp add: go_map_inv_def distinct_map_filter)
  from distinct_card [OF this] show ?thesis by simp
qed

lemma go_map_update_mem:
  assumes "go_map_inv m" and "(q, x) \<in> set (AList.update p y m)"
  shows "(q, x) = (p, y) \<or> (q, x) \<in> set m"
proof -
  have "map_of (AList.update p y m) q = Some x"
    using assms by (simp add: go_map_inv_def distinct_update)
  then show ?thesis by (auto simp: update_conv' split: if_splits dest: map_of_SomeD)
qed

text \<open>The leader's commit index moves to an entry of its term that a majority acknowledged.\<close>

lemma sim_advance:
  assumes inv: "raft_inv (members cfg) a" and e: "'''' \<notin> set (members cfg)" and good: "good_config cfg"
    and i: "i \<in> set (members cfg)" and n: "an a i = abs_node n" "State n = Leader"
    and ok: "node_ok cfg i n" and lok: "leader_ok cfg a i n"
    and k: "CommitIndex n < k" "k < len (Log n)" "0 \<le> k" "Term (Log n ! nat k) = CurrentTerm n"
    and maj: "1 + len (filter (\<lambda>(q, match). match \<ge> k) (MatchIndex n)) > (len (Peers n) + 1) div 2"
  shows "\<exists>a'. asteps (members cfg) a a' \<and> (\<forall>j. j \<noteq> i \<longrightarrow> an a' j = an a j) \<and>
    an a' i = (abs_node n)\<lparr>a_commit := k\<rparr>"
proof -
  let ?T = "CurrentTerm n" and ?F = "filter (\<lambda>(q, match). match \<ge> k) (MatchIndex n)"
  let ?Q = "insert i (fst ` set ?F)"
  note core = raft_inv_core [OF inv]
  have el: "elected a ?T" and log: "Log n = allog a ?T"
    using core_nodesD(4,5) [OF core i] n by auto
  let ?a1 = "a\<lparr>aacks := insert (i, ?T, nat k) (aacks a)\<rparr>"
  have s1: "astep (members cfg) a ?a1"
    using n el k(2,3) log by (intro astep.a_ack [OF i]) (auto simp: take_is_prefix)
  have sub: "fst ` set ?F \<subseteq> set (members cfg) - {i}"
    using ok peers_of_members(1) [OF good i] by (auto simp: node_ok_def)
  then have "i \<notin> fst ` set ?F" by blast
  then have "int (card ?Q) = 1 + len ?F"
    using count_matches [of "MatchIndex n"] ok by (simp add: node_ok_def)
  then have "majority (members cfg) ?Q"
    using maj sub i ok peers_of_members(3) [OF good i]
    by (auto simp: majority_def card_members [OF good] node_ok_def)
  moreover have "\<exists>m \<ge> nat k. (j, ?T, m) \<in> aacks ?a1" if j: "j \<in> ?Q" for j
  proof (cases "j = i")
    case False
    then obtain x where x: "(j, x) \<in> set (MatchIndex n)" "k \<le> x" using j by auto
    then obtain m where "m \<ge> nat x" "(j, ?T, m) \<in> aacks a"
      using lok n(2) k(3) unfolding leader_ok_def by (meson order_trans)
    then show ?thesis using x(2) by (auto intro!: exI [of _ m])
  qed auto
  ultimately have com: "committed (members cfg) ?a1 ?T (nat k)"
    using el k log unfolding committed_def by (intro conjI exI [of _ ?Q]) auto
  have "commit_ok (members cfg) ?a1 ?T (Log n) k"
    using com k log unfolding commit_ok_def by (intro conjI impI exI [of _ ?T] exI [of _ "nat k"]) auto
  then have "astep (members cfg) ?a1 (set_node i ((an ?a1 i)\<lparr>a_commit := k\<rparr>) ?a1)"
    using n by (intro astep.a_advance [OF i]) simp
  from asteps_snoc [OF asteps1 [OF s1] this] show ?thesis
    using n by (intro exI conjI) auto
qed

lemma sim_leader_update:
  assumes rel: "cluster_rel cfg c a" and good: "good_config cfg" and i: "i \<in> set (members cfg)"
    and n1: "abs_node n1 = abs_node (nodes c i)" "State n1 = Leader"
    and ok: "node_ok cfg i n1" and lok: "leader_ok cfg a i n1"
    and adv: "advance_from N n1 = Inr n'"
  shows "simulated cfg (upd i n' c) a"
proof -
  note d = cluster_relD [OF rel]
  have e: "'''' \<notin> set (members cfg)" using good by (simp add: good_config_def)
  consider "n' = n1"
    | k where "CommitIndex n1 < k" "k < len (Log n1)" "0 \<le> k" "Term (Log n1 ! nat k) = CurrentTerm n1"
      "1 + len (filter (\<lambda>(q, match). match \<ge> k) (MatchIndex n1)) > (len (Peers n1) + 1) div 2"
      "n' = notifyApply (node_append (commit_record k) (n1\<lparr>CommitIndex := k\<rparr>))"
    using advance_from_result [OF adv] by blast
  then show ?thesis
  proof cases
    case 1
    then show ?thesis
      using sim_refl_upd [OF rel good i n1(1) ok lok] by (intro simulatedI [OF rtranclp.rtrancl_refl]) simp
  next
    case (2 k)
    have an1: "an a i = abs_node n1" using d(2) [OF i] n1(1) by simp
    obtain a' where steps: "asteps (members cfg) a a'" and an: "\<And>j. j \<noteq> i \<Longrightarrow> an a' j = an a j"
        "an a' i = (abs_node n1)\<lparr>a_commit := k\<rparr>"
      using sim_advance [OF d(1) e good i an1 n1(2) ok lok 2(1-5)] by blast
    have le: "hist_le a a'" using raft_inv_steps [OF steps d(1) e] by simp
    have "node_ok cfg i n'"
      using ok durable_advance [OF adv] 2(1) by (simp add: node_ok_def 2(6) node_simps applied_ok_def)
    moreover have "leader_ok cfg a' i n'"
      by (rule leader_ok_cong [OF leader_ok_mono [OF le lok]]) (simp_all add: 2(6) node_simps)
    moreover have "an a' i = abs_node n'" using an(2) by (simp add: 2(6) abs_node_def node_simps)
    ultimately have "cluster_rel cfg (upd i n' c) a'"
      by (intro cluster_rel_upd [OF rel good steps an(1)])
    then show ?thesis by (rule simulatedI [OF steps])
  qed
qed

text \<open>The three outcomes of a reply: a higher term, entries the follower has now, and a refusal.\<close>

lemma sim_step_down:
  assumes rel: "cluster_rel cfg c a" and good: "good_config cfg" and i: "i \<in> set (members cfg)"
    and up: "t > CurrentTerm (nodes c i)"
  shows "simulated cfg (upd i (stepDown t (nodes c i)) c) a"
proof -
  note d = cluster_relD [OF rel]
  let ?n' = "stepDown t (nodes c i)"
  have step: "astep (members cfg) a (set_node i (abs_node ?n') a)"
    by (rule a_newterm_node [OF i d(2) [OF i] up]) (simp add: abs_stepDown)
  have "node_ok cfg i ?n'"
    using d(3) [OF i] durable_stepDown [of "nodes c i"] by (simp add: node_ok_def node_simps applied_ok_def)
  then have "cluster_rel cfg (upd i ?n' c) (set_node i (abs_node ?n') a)"
    by (intro cluster_rel_upd [OF rel good asteps1 [OF step]]) (simp_all add: node_simps)
  then show ?thesis by (rule simulatedI [OF asteps1 [OF step]])
qed

lemma sim_ae_refused:
  assumes rel: "cluster_rel cfg c a" and good: "good_config cfg" and i: "i \<in> set (members cfg)"
    and call: "call_ok (members cfg) a i rc" and log: "Log (nodes c i) = allog a (rc_term rc)"
    and pos: "0 < rc_next rc"
  shows "simulated cfg
    (upd i ((nodes c i)\<lparr>NextIndex := AList.update (rc_peer rc) (rc_next rc - 1) (NextIndex (nodes c i))\<rparr>) c) a"
proof (rule simulatedI [OF rtranclp.rtrancl_refl])
  note d = cluster_relD [OF rel]
  let ?n1 = "(nodes c i)\<lparr>NextIndex := AList.update (rc_peer rc) (rc_next rc - 1) (NextIndex (nodes c i))\<rparr>"
  have "rc_next rc \<le> len (Log (nodes c i))" using call log by (simp add: call_ok_def)
  then have "leader_ok cfg a i ?n1"
    using d(4) [OF i] pos by (auto simp: leader_ok_def go_get_update)
  moreover have "node_ok cfg i ?n1" by (rule node_ok_cong [OF d(3) [OF i]]) simp_all
  ultimately show "cluster_rel cfg (upd i ?n1 c) a"
    by (intro sim_refl_upd [OF rel good i]) (simp_all add: abs_node_def)
qed

lemma sim_ae_success:
  assumes rel: "cluster_rel cfg c a" and good: "good_config cfg" and i: "i \<in> set (members cfg)"
    and m1: "0 \<le> m + 1" "m + 1 \<le> len (Log (nodes c i))"
    and lead: "State (nodes c i) = Leader" and p: "p \<in> fst ` set (peers_of cfg i)"
    and ack: "(p, CurrentTerm (nodes c i), nat m) \<in> aacks a"
    and n1: "n1 = (nodes c i)\<lparr>MatchIndex := AList.update p m (MatchIndex (nodes c i)),
      NextIndex := AList.update p (m + 1) (NextIndex (nodes c i))\<rparr>"
    and adv: "advance_from N n1 = Inr n'"
  shows "simulated cfg (upd i n' c) a"
proof -
  note d = cluster_relD [OF rel]
  have gi: "go_map_inv (MatchIndex (nodes c i))" using d(3) [OF i] by (simp add: node_ok_def)
  have "\<exists>m' \<ge> nat x. (q, CurrentTerm n1, m') \<in> aacks a"
    if "(q, x) \<in> set (MatchIndex n1)" "0 \<le> x" for q x
  proof -
    have "(q, x) = (p, m) \<or> (q, x) \<in> set (MatchIndex (nodes c i))"
      using go_map_update_mem [OF gi] that(1) n1 by auto
    then show ?thesis using ack lead d(4) [OF i] that(2) n1 by (auto simp: leader_ok_def)
  qed
  then have "leader_ok cfg a i n1"
    using d(4) [OF i] m1 n1 by (auto simp: leader_ok_def go_get_update)
  moreover have "fst ` set (MatchIndex n1) \<subseteq> fst ` set (peers_of cfg i)"
    using d(3) [OF i] p n1 by (auto simp: node_ok_def dom_update)
  then have "node_ok cfg i n1"
    using d(3) [OF i] journal_state_cong [of n1 "nodes c i"] n1
    by (simp add: node_ok_def durable_def commit_durable_def applied_ok_def)
  ultimately show ?thesis
    using lead by (intro sim_leader_update [OF rel good i _ _ _ _ adv]) (simp_all add: abs_node_def n1)
qed

lemma sim_ae_reply:
  assumes rel: "cluster_rel cfg c a" and good: "good_config cfg" and i: "i \<in> set (members cfg)"
    and m: "AERespM p rc req resp \<in> set (net c)" and lead: "ae_LeaderID req = i"
    and h: "replicateToPeer_reply rc req resp (nodes c i) = Inr n'"
  shows "simulated cfg (upd i n' c) a"
proof -
  note d = cluster_relD [OF rel]
  let ?n = "nodes c i" and ?m = "ae_PrevLogIndex req + len (ae_Entries req)"
  have msg: "ae_ok (members cfg) a req" "call_ok (members cfg) a i rc" "rc_peer rc = p" "rc_term rc = ae_Term req"
    and ack: "aer_Success resp \<Longrightarrow> ae_Entries req \<noteq> [] \<Longrightarrow> (p, ae_Term req, nat ?m) \<in> aacks a"
    using d(5) [OF m] lead by auto
  have p: "p \<in> fst ` set (peers_of cfg i)"
    using msg(2,3) peers_of_members(1) [OF good i] by (auto simp: call_ok_def)
  have "n' = ?n \<or> (CurrentTerm ?n < aer_Term resp \<and> n' = stepDown (aer_Term resp) ?n) \<or>
      (State ?n = Leader \<and> CurrentTerm ?n = rc_term rc \<and> 0 < rc_next rc \<and>
        n' = ?n\<lparr>NextIndex := AList.update (rc_peer rc) (rc_next rc - 1) (NextIndex ?n)\<rparr>) \<or>
      (State ?n = Leader \<and> CurrentTerm ?n = rc_term rc \<and> \<not> aer_Term resp > CurrentTerm ?n \<and>
        aer_Success resp \<and> ae_Entries req \<noteq> [])"
    using h unfolding replicateToPeer_reply_def by (simp split: if_splits)
  then consider (same) "n' = ?n"
    | (up) "CurrentTerm ?n < aer_Term resp" "n' = stepDown (aer_Term resp) ?n"
    | (refused) "State ?n = Leader" "CurrentTerm ?n = rc_term rc" "0 < rc_next rc"
        "n' = ?n\<lparr>NextIndex := AList.update (rc_peer rc) (rc_next rc - 1) (NextIndex ?n)\<rparr>"
    | (success) "State ?n = Leader" "CurrentTerm ?n = rc_term rc" "\<not> aer_Term resp > CurrentTerm ?n"
        "aer_Success resp" "ae_Entries req \<noteq> []"
    by blast
  then show ?thesis
  proof cases
    case same
    then show ?thesis
      using sim_refl_upd [OF rel good i refl d(3) [OF i] d(4) [OF i]] by (intro simulatedI [OF rtranclp.rtrancl_refl]) simp
  next
    case up
    then show ?thesis using sim_step_down [OF rel good i] by simp
  next
    case refused
    then show ?thesis using sim_ae_refused [OF rel good i msg(2)] leader_log(2) [OF rel i] by simp
  next
    case success
    note r = ae_okD [OF msg(1)]
    have "Log ?n = allog a (rc_term rc)" using leader_log(2) [OF rel i] success by simp
    then have m1: "0 \<le> ?m + 1" "?m + 1 \<le> len (Log ?n)"
      using r(2,3) prefix_length_le [OF r(5)] msg(4) by auto
    show ?thesis
      using h success msg(3,4) ack
      by (intro sim_ae_success [OF rel good i m1 _ p _ refl])
        (simp_all add: replicateToPeer_reply_def Let_def advanceCommitIndex_def)
  qed
qed

end
