(* ===== verification/Crash_Points.thy ===== *)
theory Crash_Points
  imports Refinement_Append
begin

text \<open>
  Crashes in the middle of a handler. The records that \<^verbatim>\<open>HandleRequestVote\<close> and
  \<^verbatim>\<open>HandleAppendEntries\<close> write are computed here, and the state that the replay of any prefix of
  them recovers is shown to be one the protocol allows: a new term without a vote, or a log that
  keeps everything the follower had in common with its leader.
\<close>

subsection \<open>The records of a merge\<close>

definition merge_records :: "nat \<Rightarrow> LogEntry list \<Rightarrow> LogEntry list \<Rightarrow> WALRecord list" where
  "merge_records k es new =
     (let m = match_len (drop k es) new
      in if m = length new then []
         else (if k + m < length es then [truncate_record (int (k + m) - 1)] else []) @
              map entry_record (drop m new))"

lemma merge_records_step:
  assumes "k < length es" and "Term (es ! k) = Term e"
  shows "merge_records k es (e # new) = merge_records (Suc k) es new"
proof -
  have "drop k es = es ! k # drop (Suc k) es" using assms(1) by (simp add: Cons_nth_drop_Suc)
  then show ?thesis using assms(2) by (simp add: merge_records_def Let_def)
qed

lemma merge_records_conflict:
  assumes "k < length es" and "Term (es ! k) \<noteq> Term e"
  shows "merge_records k es (e # new) = truncate_record (int k - 1) # map entry_record (e # new)"
proof -
  have "drop k es = es ! k # drop (Suc k) es" using assms(1) by (simp add: Cons_nth_drop_Suc)
  then show ?thesis using assms by (simp add: merge_records_def)
qed

lemma merge_records_end: "length es \<le> k \<Longrightarrow> merge_records k es new = map entry_record new"
  by (simp add: merge_records_def)

lemma records_fold_append_entry:
  "j_open (wal n) \<Longrightarrow> records (fold append_entry es n) = records n @ map entry_record es"
  by (induction es arbitrary: n) (auto simp: node_simps)

lemma append_new_records:
  assumes "append_new idx new n = Inr n'" and "0 \<le> idx" and "idx \<le> len (Log n)" and "j_open (wal n)"
  shows "records n' = records n @ merge_records (nat idx) (Log n) new"
  using assms
proof (induction idx new n arbitrary: n' rule: append_new.induct)
  case (1 idx n)
  then show ?case by (simp add: merge_records_def)
next
  case (2 idx entry rest n)
  let ?k = "nat idx"
  show ?case
  proof (cases "idx < len (Log n)")
    case True
    then have at: "index_at (Log n) idx = Inr (Log n ! ?k)" and k: "?k < length (Log n)"
      using "2.prems" by auto
    have Suc: "nat (idx + 1) = Suc ?k" using "2.prems" by simp
    show ?thesis
    proof (cases "Term (Log n ! ?k) = Term entry")
      case eq: True
      then show ?thesis
        using "2.IH"(1) [OF True, of "Log n ! ?k"] "2.prems" True at Suc by (simp add: merge_records_step [OF k eq])
    next
      case False
      then show ?thesis
        using "2.prems" True at
        by (auto simp: merge_records_conflict [OF k False] records_fold_append_entry node_simps)
    qed
  next
    case False
    then show ?thesis
      using "2.IH"(2) [OF False] "2.prems" by (simp add: merge_records_end node_simps)
  qed
qed

subsection \<open>The records of HandleAppendEntries\<close>

lemma accept_term_records:
  "j_open (wal n) \<Longrightarrow> records (accept_term req n) =
     records n @ (if ae_Term req > CurrentTerm n then [state_record (ae_Term req) ''''] else [])"
  by (simp add: accept_term_def node_simps)

lemma ae_records_mismatch:
  assumes "CurrentTerm n \<le> ae_Term req" and "prev_mismatch req (Log n)" and "j_open (wal n)"
    and "HandleAppendEntries req n = Inr (n', resp)"
  shows "\<exists>r. records n' = records (accept_term req n) @ [r]"
  using assms by (auto simp: HandleAppendEntries_def check_prev_def prev_mismatch_def node_simps Let_def split: if_splits)

lemma check_prev_records:
  assumes "\<not> prev_mismatch req (Log n)" and "-1 \<le> ae_PrevLogIndex req" and "j_open (wal n)"
    and "check_prev req n = Inr n1"
    and "append_new (ae_PrevLogIndex req + 1) (ae_Entries req) n1 = Inr n2"
  shows "records n2 = records n @ merge_records (nat (ae_PrevLogIndex req + 1)) (Log n) (ae_Entries req)"
proof (cases "n1 = n")
  case True
  moreover have "ae_PrevLogIndex req + 1 \<le> len (Log n)" using assms(1,2) by (auto simp: prev_mismatch_def)
  ultimately show ?thesis using append_new_records [OF assms(5)] assms(2,3) by simp
next
  case False
  then have c: "ae_PrevLogIndex req = -1" "ae_Entries req \<noteq> []" "Log n \<noteq> []"
    "Term (Log n ! 0) \<noteq> Term (ae_Entries req ! 0)" "n1 = truncate_log 0 n"
    using assms(1,4) by (auto simp: check_prev_def prev_mismatch_def Let_def split: if_splits)
  then obtain e es where es: "ae_Entries req = e # es" by (cases "ae_Entries req") auto
  have "records n2 = records n1 @ merge_records 0 (Log n1) (ae_Entries req)"
    using append_new_records [OF assms(5)] c assms(3) by (simp add: node_simps)
  then show ?thesis
    using c es assms(3) merge_records_conflict [of 0 "Log n" e es]
    by (simp add: node_simps merge_records_end)
qed

lemma ae_records_accept:
  assumes "CurrentTerm n \<le> ae_Term req" and "\<not> prev_mismatch req (Log n)" and "-1 \<le> ae_PrevLogIndex req"
    and "j_open (wal n)" and "HandleAppendEntries req n = Inr (n', resp)"
  shows "\<exists>K. length K \<le> 1 \<and> records n' = records (accept_term req n) @
    merge_records (nat (ae_PrevLogIndex req + 1)) (Log n) (ae_Entries req) @ K"
proof -
  let ?a = "accept_term req n"
  have m: "\<not> prev_mismatch req (Log ?a)" and o: "j_open (wal ?a)" using assms(2,4) by (simp_all add: node_simps)
  obtain n1 where n1: "check_prev req ?a = Inr n1" using check_prev_accept [OF m assms(3)] by blast
  then obtain n2 where n2: "append_new (ae_PrevLogIndex req + 1) (ae_Entries req) n1 = Inr n2"
    and n': "n' = follow_commit req n2"
    using assms(1,5) by (auto simp: HandleAppendEntries_def go_bind_Inr_iff Let_def)
  have "records n2 = records ?a @ merge_records (nat (ae_PrevLogIndex req + 1)) (Log n) (ae_Entries req)"
    using check_prev_records [OF m assms(3) o n1 n2] by (simp add: node_simps)
  moreover have "\<exists>K. length K \<le> 1 \<and> records (follow_commit req n2) = records n2 @ K"
    by (auto simp: follow_commit_def Let_def node_simps wal_append_def)
  ultimately show ?thesis unfolding n' by auto
qed

subsection \<open>Where a crash can stop the handlers\<close>

lemma take_between:
  assumes "length R \<le> k" and "length S \<le> 1" and "length K \<le> 1"
  shows "take k (R @ S @ W @ K) = R \<or> take k (R @ S @ W @ K) = R @ S @ W @ K \<or>
    (\<exists>W1. take k (R @ S @ W @ K) = R @ S @ W1 \<and> prefix W1 W)"
proof -
  consider "k < length R + length S" | "length R + length S \<le> k" "k \<le> length R + length S + length W"
    | "length R + length S + length W < k" by linarith
  then show ?thesis
  proof cases
    case 1
    then have "k = length R" using assms(1,2) by simp
    then show ?thesis by simp
  next
    case 2
    then have "take k (R @ S @ W @ K) = R @ S @ take (k - length R - length S) W" by simp
    then show ?thesis using take_is_prefix by blast
  next
    case 3
    then show ?thesis using assms(3) by simp
  qed
qed

lemma ae_points:
  assumes "j_open (wal n)" and "-1 \<le> ae_PrevLogIndex req" and "HandleAppendEntries req n = Inr (n', resp)"
    and "length (records n) \<le> k"
  shows "take k (records n') = records n \<or> take k (records n') = records n' \<or>
    (\<exists>W. CurrentTerm n \<le> ae_Term req \<and> take k (records n') = records (accept_term req n) @ W \<and>
       (W = [] \<or> \<not> prev_mismatch req (Log n) \<and>
          prefix W (merge_records (nat (ae_PrevLogIndex req + 1)) (Log n) (ae_Entries req))))"
proof (cases "ae_Term req < CurrentTerm n")
  case True
  then show ?thesis using assms by (auto simp: HandleAppendEntries_stale)
next
  case False
  then have le: "CurrentTerm n \<le> ae_Term req" by simp
  define S where "S = (if ae_Term req > CurrentTerm n then [state_record (ae_Term req) ''''] else [])"
  have S: "length S \<le> 1" "records (accept_term req n) = records n @ S"
    using accept_term_records [OF assms(1), of req] by (simp_all add: S_def)
  show ?thesis
  proof (cases "prev_mismatch req (Log n)")
    case True
    then obtain r where "records n' = records n @ S @ [] @ [r]"
      using ae_records_mismatch [OF le True assms(1,3)] S(2) by auto
    then show ?thesis using take_between [OF assms(4) S(1), of "[r]" "[]"] le S(2) by auto
  next
    case False
    then obtain K where "length K \<le> 1" "records n' = records n @ S @
        merge_records (nat (ae_PrevLogIndex req + 1)) (Log n) (ae_Entries req) @ K"
      using ae_records_accept [OF le False assms(2,1,3)] S(2) by auto
    then show ?thesis
      using take_between [OF assms(4) S(1), of K "merge_records (nat (ae_PrevLogIndex req + 1)) (Log n) (ae_Entries req)"]
        le S(2) False by auto
  qed
qed

lemma rv_points:
  assumes "j_open (wal n)" and "HandleRequestVote req n = (n', resp)" and "length (records n) \<le> k"
  shows "take k (records n') = records n \<or> take k (records n') = records n' \<or>
    (CurrentTerm n < rv_Term req \<and> take k (records n') = records (stepDown (rv_Term req) n))"
proof (cases "rv_Term req < CurrentTerm n")
  case True
  then show ?thesis using assms by (auto simp: HandleRequestVote_def)
next
  case False
  define S where "S = (if rv_Term req > CurrentTerm n then [state_record (rv_Term req) ''''] else [])"
  have S: "length S \<le> 1" "rv_Term req > CurrentTerm n \<Longrightarrow> records (stepDown (rv_Term req) n) = records n @ S"
    using assms(1) by (simp_all add: S_def node_simps)
  have "\<exists>K. length K \<le> 1 \<and> records n' = records n @ S @ [] @ K"
    using assms(1,2) False by (auto simp: HandleRequestVote_def Let_def S_def node_simps split: if_splits)
  then obtain K where "length K \<le> 1" "records n' = records n @ S @ [] @ K" by blast
  then show ?thesis
    using take_between [OF assms(3) S(1), of K "[]"] S(2) by (cases "rv_Term req > CurrentTerm n") (auto simp: S_def)
qed

subsection \<open>What the replay of a part of a merge recovers\<close>

lemma replay_entries: "fold persist_replay (map entry_record es) P = P\<lparr>p_log := p_log P @ es\<rparr>"
  by (induction es arbitrary: P) simp_all

lemma merge_points:
  assumes ok: "log_ok a (p_log P)" "log_ok a M" and k: "take k (p_log P) = take k M" "k \<le> length (p_log P)" "k \<le> length M"
    and new: "prefix (take k M @ new) M" and W: "prefix W (merge_records k (p_log P) new)"
  shows "\<exists>L'. fold persist_replay W P = P\<lparr>p_log := L'\<rparr> \<and> follows (p_log P) M L'"
proof (cases "W = []")
  case True
  then show ?thesis by (intro exI [of _ "p_log P"]) (simp add: follows_def)
next
  case False
  let ?L = "p_log P" and ?m = "match_len (drop k (p_log P)) new"
  have m: "?m \<noteq> length new" using False W by (auto simp: merge_records_def)
  note ml = match_len_le [of "drop k ?L" new]
  have "\<exists>j. fold persist_replay W P = P\<lparr>p_log := take (k + ?m) ?L @ take j (drop ?m new)\<rparr>"
  proof (cases "k + ?m < length ?L")
    case True
    then obtain W1 where "W = truncate_record (int (k + ?m) - 1) # W1" "prefix W1 (map entry_record (drop ?m new))"
      using False W m by (cases W) (auto simp: merge_records_def Let_def)
    moreover from this obtain j where "W1 = map entry_record (take j (drop ?m new))"
      by (metis prefix_def append_eq_conv_conj take_map)
    ultimately show ?thesis by (intro exI [of _ j]) (simp add: replay_entries nat_add_distrib)
  next
    case no: False
    then have "W = map entry_record (take (length W) (drop ?m new))"
      using W m by (simp add: merge_records_def Let_def prefix_iff_take take_map)
    then show ?thesis
      using no ml(1) k(2) replay_entries [of "take (length W) (drop ?m new)" P]
      by (intro exI [of _ "length W"]) simp
  qed
  then obtain j where j: "fold persist_replay W P = P\<lparr>p_log := take (k + ?m) ?L @ take j (drop ?m new)\<rparr>" ..
  have "take (k + ?m) ?L = take (k + ?m) M" by (rule matched_part [OF ok k new])
  moreover have "take (k + length new) M = take k M @ new" using k(3) new by (simp add: prefix_iff_take)
  then have "drop ?m new = drop (k + ?m) (take (k + length new) M)" using k(3) by simp
  then have "take j (drop ?m new) = take (min j (length new - ?m)) (drop (k + ?m) M)"
    by (simp add: drop_take)
  ultimately have eq: "take (k + ?m) ?L @ take j (drop ?m new) = take (k + ?m + min j (length new - ?m)) M"
    by (simp only: take_add)
  have "follows ?L M (take (k + ?m + min j (length new - ?m)) M)"
    unfolding follows_def
  proof (intro conjI allI impI disjI2 take_is_prefix)
    fix P assume P: "prefix P ?L" "prefix P M"
    have "length P \<le> k + ?m" by (rule common_matched [OF k(2,3) new m P])
    then show "prefix P (take (k + ?m + min j (length new - ?m)) M)"
      using P(2) by (auto simp: prefix_def)
  qed
  then show ?thesis using j eq by auto
qed

subsection \<open>The simulation of such crashes\<close>

lemma restart_cong:
  "ID m = ID n \<Longrightarrow> Addr m = Addr n \<Longrightarrow> Peers m = Peers n \<Longrightarrow> records m = records n \<Longrightarrow> restart m = restart n"
  by (simp add: restart_def)

lemma crash_during_restart:
  assumes "ID m = ID (nodes c p)" "Addr m = Addr (nodes c p)" "Peers m = Peers (nodes c p)"
    and "records m = take k (records n')"
  shows "do_crash_during p n' k c = do_crash p (upd p m c)"
  using restart_cong [of "(nodes c p)\<lparr>wal := (wal n')\<lparr>j_records := take k (records n')\<rparr>\<rparr>" m] assms
  by (simp add: do_crash_during_def do_crash_def upd_def fun_eq_iff)

lemma cluster_rel_fewer_msgs:
  assumes "cluster_rel cfg c a" and "set ms \<subseteq> set (net c)"
  shows "cluster_rel cfg (c\<lparr>net := ms\<rparr>) a"
  using assms by (auto simp: cluster_rel_def)

lemma simulated_crash:
  assumes "simulated cfg c' a" and "good_config cfg" and "i \<in> set (members cfg)"
  shows "simulated cfg (do_crash i c') a"
proof -
  obtain a1 where "asteps (members cfg) a a1" "cluster_rel cfg c' a1" using assms(1) by (auto simp: simulated_def)
  then show ?thesis
    using sim_crash [OF _ assms(2,3)] by (meson rtranclp_trans simulated_def)
qed

text \<open>A crash after all records, when the reply is not sent.\<close>

lemma simulated_crash_reply:
  assumes "simulated cfg (send ms (upd p n' c)) a" and "good_config cfg" and "p \<in> set (members cfg)"
  shows "simulated cfg (do_crash p (upd p n' c)) a"
proof -
  obtain a1 where a1: "asteps (members cfg) a a1" "cluster_rel cfg (send ms (upd p n' c)) a1"
    using assms(1) by (auto simp: simulated_def)
  have same: "(send ms (upd p n' c))\<lparr>net := net c\<rparr> = upd p n' c" by (simp add: send_def upd_def)
  have "cluster_rel cfg ((send ms (upd p n' c))\<lparr>net := net c\<rparr>) a1"
    by (rule cluster_rel_fewer_msgs [OF a1(2)]) simp
  then have "cluster_rel cfg (upd p n' c) a1" by (simp only: same)
  then show ?thesis using a1(1) simulated_crash [OF _ assms(2,3)] by (auto simp: simulated_def)
qed

lemma sim_crash_rv:
  assumes rel: "cluster_rel cfg c a" and good: "good_config cfg" and p: "p \<in> set (members cfg)"
    and m: "RVReqM p req \<in> set (net c)" and h: "HandleRequestVote req (nodes c p) = (n', resp)"
    and k: "length (records (nodes c p)) \<le> k"
  shows "simulated cfg (do_crash_during p n' k c) a"
proof -
  let ?n = "nodes c p"
  have "j_open (wal ?n)" using cluster_relD(3) [OF rel p] by (simp add: node_ok_def)
  from rv_points [OF this h k] consider "take k (records n') = records ?n" | "take k (records n') = records n'"
    | "CurrentTerm ?n < rv_Term req" "take k (records n') = records (stepDown (rv_Term req) ?n)" by blast
  then show ?thesis
  proof cases
    case 1
    then have "do_crash_during p n' k c = do_crash p (upd p ?n c)" by (intro crash_during_restart) simp_all
    then show ?thesis using sim_crash [OF rel good p] by (simp add: upd_def)
  next
    case 2
    then have "do_crash_during p n' k c = do_crash p (upd p n' c)"
      using HandleRequestVote_frame [OF h] by (intro crash_during_restart) (simp_all add: handler_frame_def)
    moreover have "simulated cfg (send [RVRespM p req resp] (upd p n' c)) a"
      using sim_handle_rv [OF rel good p m] h by (simp add: do_handle_rv_def)
    ultimately show ?thesis using simulated_crash_reply [OF _ good p] by simp
  next
    case 3
    then have "do_crash_during p n' k c = do_crash p (upd p (stepDown (rv_Term req) ?n) c)"
      by (intro crash_during_restart) (simp_all add: node_simps)
    then show ?thesis using simulated_crash [OF sim_step_down [OF rel good p 3(1)] good p] by simp
  qed
qed

text \<open>The log that a replay of some of the records gives lies between the follower's and the leader's.\<close>

lemma partial_log:
  assumes ae: "ae_ok ids a req" and logs: "log_ok a (p_log P)" "log_ok a (allog a (ae_Term req))"
    and W: "W = [] \<or> \<not> prev_mismatch req (p_log P) \<and>
      prefix W (merge_records (nat (ae_PrevLogIndex req + 1)) (p_log P) (ae_Entries req))"
  shows "\<exists>L'. fold persist_replay W P = P\<lparr>p_log := L'\<rparr> \<and> follows (p_log P) (allog a (ae_Term req)) L'"
proof (cases "W = []")
  case True
  then show ?thesis by (intro exI [of _ "p_log P"]) (simp add: follows_def)
next
  case False
  then have "\<not> prev_mismatch req (p_log P)" using W by blast
  from accept_prefix [OF ae this logs] show ?thesis
    using merge_points [of a P "allog a (ae_Term req)" "nat (ae_PrevLogIndex req + 1)" "ae_Entries req" W]
      logs ae_okD(3,5) [OF ae] W False by auto
qed

lemma sim_partial_merge:
  assumes rel: "cluster_rel cfg c a" and good: "good_config cfg" and p: "p \<in> set (members cfg)"
    and ae: "ae_ok (members cfg) a req" and le: "CurrentTerm (nodes c p) \<le> ae_Term req"
    and W: "W = [] \<or> \<not> prev_mismatch req (Log (nodes c p)) \<and>
      prefix W (merge_records (nat (ae_PrevLogIndex req + 1)) (Log (nodes c p)) (ae_Entries req))"
  shows "\<exists>m. ID m = ID (nodes c p) \<and> Addr m = Addr (nodes c p) \<and> Peers m = Peers (nodes c p) \<and>
    records m = records (accept_term req (nodes c p)) @ W \<and> simulated cfg (upd p m c) a"
proof -
  note d = cluster_relD [OF rel]
  let ?n = "nodes c p" and ?T = "ae_Term req" and ?x = "accept_term req (nodes c p)"
  note core = raft_inv_core [OF d(1)] and r = ae_okD [OF ae]
  have e: "'''' \<notin> set (members cfg)" using good by (simp add: good_config_def)
  have ok: "node_ok cfg p ?n" by (rule d(3) [OF p])
  then have dur: "durable ?x" "commit_durable ?x" "j_open (wal ?x)"
    using durable_accept_term [of ?n req] by (simp_all add: node_ok_def node_simps)
  have logs: "log_ok a (Log ?n)" "log_ok a (allog a ?T)"
    using core_nodesD(2) [OF core p] d(2) [OF p] core_leadsD(8) [OF core, of ?T] r(1) by auto
  have pl: "p_log (journal_state ?x) = Log ?n" using dur(1) by (simp add: durable_def node_simps)
  obtain L' where L': "fold persist_replay W (journal_state ?x) = (journal_state ?x)\<lparr>p_log := L'\<rparr>"
      "follows (Log ?n) (allog a ?T) L'"
    using partial_log [OF ae, of "journal_state ?x" W] logs W by (auto simp: pl)
  define m where "m = ?x\<lparr>Log := L', wal := (wal ?x)\<lparr>j_records := records ?x @ W\<rparr>\<rparr>"
  have js: "journal_state m = (journal_state ?x)\<lparr>p_log := L'\<rparr>"
    using L'(1) by (simp add: m_def journal_state_def)
  let ?a1 = "set_node p (abs_node ?x) a" and ?a2 = "set_node p (abs_node m) a"
  have "astep (members cfg) ?a1 (set_node p ((an ?a1 p)\<lparr>a_log := L'\<rparr>) ?a1)"
    using L'(2) r(1) le by (intro astep.a_merge [OF p]) (simp_all add: abs_accept_term)
  moreover have "(abs_node ?x)\<lparr>a_log := L'\<rparr> = abs_node m" by (simp add: m_def abs_node_def)
  ultimately have steps: "asteps (members cfg) a ?a2"
    using asteps_snoc [OF asteps1 [OF a_accept_term [OF p d(2) [OF p] le]]] by (simp add: set_node_def)
  have inv2: "raft_inv (members cfg) ?a2" and hl: "hist_le a ?a2" using raft_inv_steps [OF steps d(1) e] by auto
  have cok: "commit_ok (members cfg) ?a2 (CurrentTerm ?n) (Log ?n) (CommitIndex ?n)"
    by (rule commit_ok_mono [OF hl node_commit_ok [OF rel p] order_refl])
  have cok': "commit_ok (members cfg) ?a2 (CurrentTerm m) (Log m) (CommitIndex m)"
    using raft_inv_commit [OF inv2 p] by simp
  have frame: "CommitIndex m = CommitIndex ?n" "LastApplied m = LastApplied ?n" "KVStore m = KVStore ?n"
    by (simp_all add: m_def node_simps)
  have "applied_ok m"
    using ok by (intro applied_ok_follow [OF inv2 _ _ cok cok' _ frame(2,3)]) (simp_all add: node_ok_def frame(1))
  moreover have "durable m" "commit_durable m"
    using dur js by (simp_all add: durable_def commit_durable_def) (simp_all add: m_def)
  ultimately have "node_ok cfg p m"
    using ok by (simp add: node_ok_def m_def node_simps)
  then have "cluster_rel cfg (upd p m c) ?a2"
    by (intro cluster_rel_upd [OF rel good steps]) (simp_all add: m_def node_simps)
  then show ?thesis
    using simulatedI [OF steps] by (intro exI [of _ m]) (simp add: m_def node_simps)
qed

lemma sim_crash_ae:
  assumes rel: "cluster_rel cfg c a" and good: "good_config cfg" and p: "p \<in> set (members cfg)"
    and m: "AEReqM p rc req \<in> set (net c)" and h: "HandleAppendEntries req (nodes c p) = Inr (n', resp)"
    and k: "length (records (nodes c p)) \<le> k"
  shows "simulated cfg (do_crash_during p n' k c) a"
proof -
  let ?n = "nodes c p"
  have ae: "ae_ok (members cfg) a req" using cluster_relD(5) [OF rel m] by simp
  have "j_open (wal ?n)" using cluster_relD(3) [OF rel p] by (simp add: node_ok_def)
  from ae_points [OF this ae_okD(2) [OF ae] h k] consider "take k (records n') = records ?n"
    | "take k (records n') = records n'"
    | W where "CurrentTerm ?n \<le> ae_Term req" "take k (records n') = records (accept_term req ?n) @ W"
        "W = [] \<or> \<not> prev_mismatch req (Log ?n) \<and>
          prefix W (merge_records (nat (ae_PrevLogIndex req + 1)) (Log ?n) (ae_Entries req))"
    by blast
  then show ?thesis
  proof cases
    case 1
    then have "do_crash_during p n' k c = do_crash p (upd p ?n c)" by (intro crash_during_restart) simp_all
    then show ?thesis using sim_crash [OF rel good p] by (simp add: upd_def)
  next
    case 2
    then have "do_crash_during p n' k c = do_crash p (upd p n' c)"
      using HandleAppendEntries_terms(5) [OF h] by (intro crash_during_restart) (simp_all add: handler_frame_def)
    moreover have "simulated cfg (send [AERespM p rc req resp] (upd p n' c)) a"
      using h by (intro sim_handle_ae [OF rel good p m]) (simp add: do_handle_ae_def)
    ultimately show ?thesis using simulated_crash_reply [OF _ good p] by simp
  next
    case (3 W)
    from sim_partial_merge [OF rel good p ae 3(1,3)] obtain m1 where
      m1: "ID m1 = ID ?n" "Addr m1 = Addr ?n" "Peers m1 = Peers ?n"
        "records m1 = records (accept_term req ?n) @ W" "simulated cfg (upd p m1 c) a" by blast
    then have "do_crash_during p n' k c = do_crash p (upd p m1 c)"
      using 3(2) by (intro crash_during_restart) simp_all
    then show ?thesis using simulated_crash [OF m1(5) good p] by simp
  qed
qed

end
