(* ===== verification/Sample_Run.thy ===== *)
theory Sample_Run
  imports Refinement
begin

text \<open>
  A concrete run of a cluster, evaluated step by step, on which the properties of the cluster are
  exercised. Three nodes: \<open>n1\<close> is elected with the vote of \<open>n2\<close>, takes a client's request, replicates it to
  \<open>n2\<close>, commits, answers the client and applies the entry.
\<close>

definition cfg3 :: config where
  "cfg3 = [(''n1'', ''h:1''), (''n2'', ''h:2''), (''n3'', ''h:3'')]"

definition set_req :: ClientReq where
  "set_req = \<lparr>req_Op = OpSet, req_Key = ''a'', req_Value = ''1'', req_ResCh = 0\<rparr>"

definition run1 :: cluster where "run1 = do_timeout ''n1'' (start_cluster cfg3)"

definition el1 :: running where
  "el1 = \<lparr>run_el = \<lparr>el_term = 1, el_lastLogIndex = -1, el_lastLogTerm = 0, el_votes = 1, el_peersCount = 3\<rparr>,
     run_waiting = [''n2'', ''n3''], run_counting = []\<rparr>"

definition run2 :: cluster where "run2 = do_handle_rv ''n2'' (vote_request ''n1'' (run_el el1)) run1"

definition run3 :: cluster where
  "run3 = do_vote_reply ''n1'' 1 el1 ''n2'' \<lparr>rvr_Term = 1, rvr_VoteGranted = True\<rparr> run2"

definition el3 :: running where
  "el3 = \<lparr>run_el = run_el el1, run_waiting = [''n3''], run_counting = [''n2'']\<rparr>"

definition run4 :: cluster where "run4 = do_vote_count ''n1'' 1 el3 ''n2'' run3"

lemma good_cfg3: "good_config cfg3"
  by (simp add: good_config_def cfg3_def members_def)

lemma members_cfg3: "set (members cfg3) = {''n1'', ''n2'', ''n3''}"
  by (simp add: cfg3_def members_def)

lemma run1_facts:
  "elections run1 (''n1'', 1) = Some el1"
  "RVReqM ''n2'' (vote_request ''n1'' (run_el el1)) \<in> set (net run1)"
  "''n2'' \<in> set (run_waiting el1)"
  by code_simp+

lemma run3_facts:
  "RVRespM ''n2'' (vote_request ''n1'' (run_el el1)) \<lparr>rvr_Term = 1, rvr_VoteGranted = True\<rparr> \<in> set (net run2)"
  "elections run2 (''n1'', 1) = Some el1"
  "elections run3 (''n1'', 1) = Some el3" "''n2'' \<in> set (run_counting el3)"
  "CurrentTerm (nodes (start_cluster cfg3) ''n1'') < max_int"
  by code_simp+

lemma run4_reachable: "reachable cfg3 run4"
proof -
  have "reachable cfg3 run1"
    unfolding run1_def
    by (rule reachable_step [OF reachable_start], rule cstep.c_timeout) (simp_all add: members_cfg3 run3_facts)
  then have "reachable cfg3 run2"
    unfolding run2_def
    by (rule reachable_step, intro cstep.c_handle_rv) (simp_all add: members_cfg3 run1_facts)
  then have "reachable cfg3 run3"
    unfolding run3_def
    by (rule reachable_step, intro cstep.c_vote_reply) (simp_all add: members_cfg3 run1_facts run3_facts)
  then show ?thesis
    unfolding run4_def
    by (rule reachable_step, intro cstep.c_vote_count) (simp_all add: members_cfg3 run3_facts)
qed

definition run5 :: cluster where "run5 = do_heartbeat ''n1'' (do_take ''n1'' (do_submit ''n1'' set_req run4))"

definition call5 :: replicate_call where
  "call5 = \<lparr>rc_peer = ''n2'', rc_addr = ''h:2'', rc_next = 0, rc_term = 1, rc_commit = -1\<rparr>"

definition req5 :: AppendEntriesRequest where
  "req5 = \<lparr>ae_Term = 1, ae_LeaderID = ''n1'', ae_PrevLogIndex = -1, ae_PrevLogTerm = 0,
     ae_Entries = [req_entry set_req 0 1], ae_LeaderCommit = -1\<rparr>"

definition run6 :: cluster where "run6 = send [AEReqM ''n2'' call5 req5] run5"

definition run7 :: cluster where "run7 = projr (do_handle_ae ''n2'' call5 req5 run6)"

definition run8 :: cluster where
  "run8 = upd ''n1'' (projr (replicateToPeer_reply call5 req5
     \<lparr>aer_Term = 1, aer_Success = True, aer_MatchIndex = 0\<rparr> (nodes run7 ''n1''))) run7"

definition run9 :: cluster where
  "run9 = do_poll ''n1'' False set_req 0 1 (upd ''n1'' (projr (applyLoop_turn True (nodes run8 ''n1''))) run8)"

lemma run5_facts:
  "handling run4 ''n1'' = None" "(''n1'', call5) \<in> set (calls run5)" "rc_peer call5 = ''n2''"
  "replicateToPeer_request call5 (nodes run5 ''n1'') = Some req5" "handling (do_submit ''n1'' set_req run4) ''n1'' = None"
  by code_simp+

lemma run7_facts:
  "\<not> isl (do_handle_ae ''n2'' call5 req5 run6)"
  "\<not> isl (replicateToPeer_reply call5 req5 \<lparr>aer_Term = 1, aer_Success = True, aer_MatchIndex = 0\<rparr> (nodes run7 ''n1''))"
  "\<not> isl (applyLoop_turn True (nodes run8 ''n1''))"
  "AERespM ''n2'' call5 req5 \<lparr>aer_Term = 1, aer_Success = True, aer_MatchIndex = 0\<rparr> \<in> set (net run7)"
  "ae_LeaderID req5 = ''n1''"
  "handling (upd ''n1'' (projr (applyLoop_turn True (nodes run8 ''n1''))) run8) ''n1'' = Some (set_req, 0, 1)"
  by code_simp+

lemma run5_reachable: "reachable cfg3 run5"
proof -
  have "reachable cfg3 (do_submit ''n1'' set_req run4)"
    by (rule reachable_step [OF run4_reachable], rule cstep.c_submit) (simp add: members_cfg3)
  then have "reachable cfg3 (do_take ''n1'' (do_submit ''n1'' set_req run4))"
    by (rule reachable_step, intro cstep.c_take) (simp_all add: members_cfg3 run5_facts)
  then show ?thesis
    unfolding run5_def by (rule reachable_step, intro cstep.c_heartbeat) (simp add: members_cfg3)
qed

lemma run7_reachable: "reachable cfg3 run7"
proof -
  have r6: "reachable cfg3 run6"
    unfolding run6_def
    using cstep.c_replicate [OF _ run5_facts(2,4), of cfg3] run5_facts(3)
    by (intro reachable_step [OF run5_reachable]) (simp add: members_cfg3)
  have "do_handle_ae ''n2'' call5 req5 run6 = Inr run7"
    unfolding run7_def by (rule sum.collapse(2) [OF run7_facts(1), symmetric])
  then have "cstep cfg3 run6 run7"
    by (intro cstep.c_handle_ae [of "''n2''" _ call5 req5]) (simp_all add: members_cfg3 run6_def)
  with r6 show ?thesis by (rule reachable_step)
qed

lemma run8_reachable: "reachable cfg3 run8"
  unfolding run8_def
  by (rule reachable_step [OF run7_reachable],
      rule cstep.c_ae_reply [OF _ run7_facts(4,5) sum.collapse(2) [OF run7_facts(2), symmetric]])
    (simp add: members_cfg3)

lemma run9_reachable: "reachable cfg3 run9"
proof -
  have "reachable cfg3 (upd ''n1'' (projr (applyLoop_turn True (nodes run8 ''n1''))) run8)"
    by (rule reachable_step [OF run8_reachable],
        rule cstep.c_apply [OF _ sum.collapse(2) [OF run7_facts(3), symmetric]])
      (simp add: members_cfg3)
  then show ?thesis
    unfolding run9_def
    by (rule reachable_step, intro cstep.c_poll) (simp_all add: members_cfg3 run7_facts del: upd_simps)
qed

text \<open>With the next heartbeat \<open>n2\<close> learns that the entry is committed and applies it.\<close>

definition call9 :: replicate_call where
  "call9 = \<lparr>rc_peer = ''n2'', rc_addr = ''h:2'', rc_next = 1, rc_term = 1, rc_commit = 0\<rparr>"

definition req9 :: AppendEntriesRequest where
  "req9 = \<lparr>ae_Term = 1, ae_LeaderID = ''n1'', ae_PrevLogIndex = 0, ae_PrevLogTerm = 1,
     ae_Entries = [], ae_LeaderCommit = 0\<rparr>"

definition run10 :: cluster where
  "run10 = send [AEReqM ''n2'' call9 req9] (do_heartbeat ''n1'' run9)"

definition run11 :: cluster where "run11 = projr (do_handle_ae ''n2'' call9 req9 run10)"

definition run12 :: cluster where
  "run12 = upd ''n2'' (projr (applyLoop_turn True (nodes run11 ''n2''))) run11"

lemma run10_facts:
  "(''n1'', call9) \<in> set (calls (do_heartbeat ''n1'' run9))"
  "replicateToPeer_request call9 (nodes (do_heartbeat ''n1'' run9) ''n1'') = Some req9"
  "rc_peer call9 = ''n2''"
  "\<not> isl (do_handle_ae ''n2'' call9 req9 run10)"
  "\<not> isl (applyLoop_turn True (nodes run11 ''n2''))"
  by code_simp+

lemma run11_reachable: "reachable cfg3 run11"
proof -
  have "reachable cfg3 (do_heartbeat ''n1'' run9)"
    by (rule reachable_step [OF run9_reachable], rule cstep.c_heartbeat) (simp add: members_cfg3)
  then have r: "reachable cfg3 run10"
    using cstep.c_replicate [OF _ run10_facts(1,2), of cfg3] run10_facts(3) unfolding run10_def
    by (elim reachable_step) (simp add: members_cfg3)
  have "do_handle_ae ''n2'' call9 req9 run10 = Inr run11"
    unfolding run11_def by (rule sum.collapse(2) [OF run10_facts(4), symmetric])
  then have "cstep cfg3 run10 run11"
    by (intro cstep.c_handle_ae [of "''n2''" _ call9 req9]) (simp_all add: members_cfg3 run10_def)
  with r show ?thesis by (rule reachable_step)
qed

lemma run12_step: "cstep cfg3 run11 run12"
  unfolding run12_def
  by (rule cstep.c_apply [OF _ sum.collapse(2) [OF run10_facts(5), symmetric]]) (simp add: members_cfg3)

lemma run12_reachable: "reachable cfg3 run12"
  by (rule reachable_step [OF run11_reachable run12_step])

text \<open>What the run leads to.\<close>

definition replicated :: "node \<Rightarrow> bool" where
  "replicated n \<longleftrightarrow> CurrentTerm n = 1 \<and> Log n = [req_entry set_req 0 1] \<and> CommitIndex n = 0 \<and>
     LastApplied n = 0 \<and> Store_Get ''a'' (KVStore n) = (''1'', True)"

lemma run12_state:
  "State (nodes run12 ''n1'') = Leader" "replicated (nodes run12 ''n1'')" "replicated (nodes run12 ''n2'')"
  "(set_req, Inr (0, 1)) \<in> set (answers run12)"
  by code_simp+

lemma run12_nodes:
  "CurrentTerm (nodes run12 ''n1'') = 1" "Log (nodes run12 ''n1'') = [req_entry set_req 0 1]"
  "CommitIndex (nodes run12 ''n1'') = 0" "LastApplied (nodes run12 ''n1'') = 0"
  "Log (nodes run12 ''n2'') = [req_entry set_req 0 1]" "CommitIndex (nodes run12 ''n2'') = 0"
  "LastApplied (nodes run12 ''n2'') = 0"
  using run12_state(2,3) by (simp_all add: replicated_def)

end
