(* ===== verification/Safety.thy ===== *)
theory Safety
  imports Crash_Points Sample_Run
begin

text \<open>
  What the simulation gives for a cluster of the program's nodes, whatever the order of the steps,
  lost, delayed and repeated calls, and crashes: one leader per term, matching logs, committed
  entries that stay, stores that agree, client answers that hold, and no panic.
\<close>

subsection \<open>Every reachable cluster is related to an abstract state\<close>

lemmas sim_ops = sim_timeout sim_handle_rv sim_vote_reply sim_vote_failed sim_vote_count sim_election_finish
  sim_heartbeat sim_replicate sim_handle_ae sim_ae_reply sim_submit sim_take sim_poll sim_apply sim_crash
  sim_crash_rv sim_crash_ae

lemma sim_step:
  assumes "cluster_rel cfg c a" and "good_config cfg" and "cstep cfg c c'"
  shows "simulated cfg c' a"
  using assms(3) by cases (auto intro: sim_ops [OF assms(1,2)])

lemma sim_steps:
  assumes "(cstep cfg)\<^sup>*\<^sup>* c c'" and "cluster_rel cfg c a" and "good_config cfg"
  shows "\<exists>a'. asteps (members cfg) a a' \<and> cluster_rel cfg c' a'"
  using assms(1)
proof (induction rule: rtranclp_induct)
  case base
  then show ?case using assms(2) by blast
next
  case (step d e)
  then obtain a1 where a1: "asteps (members cfg) a a1" "cluster_rel cfg d a1" by blast
  from sim_step [OF a1(2) assms(3) step.hyps(2)] obtain a2
    where "asteps (members cfg) a1 a2" "cluster_rel cfg e a2" by (auto simp: simulated_def)
  then show ?case using a1(1) rtranclp_trans by metis
qed

lemma reachable_related:
  assumes "good_config cfg" and "reachable cfg c"
  obtains a where "asteps (members cfg) (a_init (members cfg)) a" and "cluster_rel cfg c a"
  using sim_steps [OF _ start_related assms(1)] assms(2) unfolding reachable_def by blast

lemma reachable_later:
  assumes "good_config cfg" and "reachable cfg c" and "(cstep cfg)\<^sup>*\<^sup>* c c'"
  obtains a a' where "cluster_rel cfg c a" and "cluster_rel cfg c' a'" and "hist_le a a'"
proof -
  obtain a where a: "cluster_rel cfg c a" by (rule reachable_related [OF assms(1,2)])
  obtain a' where a': "asteps (members cfg) a a'" "cluster_rel cfg c' a'"
    using sim_steps [OF assms(3) a assms(1)] by blast
  have "hist_le a a'"
    using raft_inv_steps [OF a'(1) cluster_relD(1) [OF a]] assms(1) by (simp add: good_config_def)
  then show ?thesis using that [OF a a'(2)] by blast
qed

lemma commit_ok_committed:
  assumes "raft_inv ids a" and "commit_ok ids a T L c" and "0 \<le> k" and "k \<le> c"
    and "elected a u" and "T \<le> u"
  shows "k < len (allog a u) \<and> take (nat (k + 1)) L = take (nat (k + 1)) (allog a u)"
proof -
  obtain t m where m: "committed ids a t m" "t \<le> T" "nat c \<le> m"
      "take (Suc (nat c)) L = take (Suc (nat c)) (allog a t)"
    using assms(2-4) by (auto simp: commit_ok_def)
  have p: "prefix (take (Suc m) (allog a t)) (allog a u)"
    using assms(1,5,6) m(2) by (intro committed_in_leader [OF raft_inv_core _ _ m(1)]) (simp_all add: raft_inv_def)
  have "m < length (allog a t)" using m(1) by (simp add: committed_def)
  then have "take (Suc m) (allog a t) = take (Suc m) (allog a u)" and "m < length (allog a u)"
    using p prefix_length_le [OF p] by (simp_all add: prefix_iff_take min.absorb2)
  then have "take (nat (k + 1)) (allog a t) = take (nat (k + 1)) (allog a u)"
    using m(3) assms(3,4) by (elim take_eq_mono) simp
  moreover have "take (nat (k + 1)) L = take (nat (k + 1)) (allog a t)"
    using m(4) assms(3,4) by (elim take_eq_mono) simp
  moreover have "k < len (allog a u)" using \<open>m < length (allog a u)\<close> m(3) assms(3,4) by simp
  ultimately show ?thesis by simp
qed

text \<open>A request that was answered with OK is in every log that reaches so far.\<close>

lemma answer_in_log:
  assumes "good_config cfg" and "reachable cfg c" and "(req, Inr (idx, t)) \<in> set (answers c)"
    and "j \<in> set (members cfg)"
    and "idx \<le> CommitIndex (nodes c j) \<or> State (nodes c j) = Leader \<and> t \<le> CurrentTerm (nodes c j)"
  shows "nat idx < length (Log (nodes c j)) \<and> Log (nodes c j) ! nat idx = req_entry req idx t"
proof -
  obtain a where a: "cluster_rel cfg c a" by (rule reachable_related [OF assms(1,2)])
  note d = cluster_relD [OF a]
  obtain u k where u: "0 \<le> idx" "committed (members cfg) a u k" "u \<le> t" "nat idx \<le> k"
      "allog a u ! nat idx = req_entry req idx t"
    using d(9) [OF assms(3)] unfolding answer_ok_def by blast
  have el: "elected a u" and k: "k < length (allog a u)" using u(2) by (auto simp: committed_def)
  have cok: "commit_ok (members cfg) a t (allog a u) idx"
    using u k unfolding commit_ok_def by (intro conjI impI exI [of _ u] exI [of _ k]) auto
  have "take (nat (idx + 1)) (allog a u) = take (nat (idx + 1)) (Log (nodes c j)) \<and> idx < len (Log (nodes c j))"
  proof (cases "idx \<le> CommitIndex (nodes c j)")
    case True
    note 2 = node_commit_ok [OF a assms(4)]
    show ?thesis
      using commit_ok_agree [OF d(1) cok 2 order_refl True] 2 True by (simp add: commit_ok_def)
  next
    case False
    then have lead: "State (nodes c j) = Leader" "t \<le> CurrentTerm (nodes c j)" using assms(5) by auto
    note l = leader_log [OF a assms(4) lead(1)]
    have "elected a (CurrentTerm (nodes c j))" using l(1) by auto
    then show ?thesis
      using commit_ok_committed [OF d(1) cok u(1) order_refl _ lead(2)] l(2) by simp
  qed
  then show ?thesis
    using u(1,5) take_eq_nth [of "nat (idx + 1)" "allog a u" "Log (nodes c j)" "nat idx"] by auto
qed

end
