(* ===== verification/Single_Node.thy ===== *)
theory Single_Node
  imports Safety
begin

text \<open>
  A cluster of one node. \<^verbatim>\<open>advanceCommitIndex\<close> is called only when a peer's reply is processed, so a
  leader without peers never moves its commit index, although its own copy is a majority.
\<close>

definition cfg1 :: config where
  "cfg1 = [(''n1'', ''h:1'')]"

definition solo :: "config \<Rightarrow> cluster \<Rightarrow> bool" where
  "solo cfg c \<longleftrightarrow> net c = [] \<and> calls c = [] \<and>
     (\<forall>i \<in> set (members cfg). CommitIndex (nodes c i) = -1) \<and>
     (\<forall>a \<in> set (answers c). \<exists>err. snd a = Inl err)"

lemma solo_no_peers: "i \<in> set (members [(m, addr)]) \<Longrightarrow> i = m \<and> peers_of [(m, addr)] i = []"
  by (simp add: members_def peers_of_def)

lemma applyLoop_turn_commit:
  assumes "applied_ok n" and "applyLoop_turn ticker n = Inr n'"
  shows "CommitIndex n' = CommitIndex n"
  using assms applyCommittedEntries_result [OF assms(1)]
    applyCommittedEntries_result [of "n\<lparr>applyNotify := False\<rparr>"]
  by (auto simp: applyLoop_turn_def applied_ok_def split: if_splits)

lemma CommitIndex_election:
  "CommitIndex (fst (startElection_begin n)) = CommitIndex n"
  "CommitIndex (fst (startElection_reply el resp n)) = CommitIndex n"
  "CommitIndex (fst (startElection_count el n)) = CommitIndex n"
  "CommitIndex (startElection_finish el n) = CommitIndex n"
  by (simp_all add: startElection_begin_def startElection_reply_def startElection_count_def
      startElection_finish_def Let_def node_simps)

text \<open>What the steps of a cluster do, unfolded.\<close>

lemmas solo_steps =
  solo_def members_def do_timeout_def do_vote_failed_def do_vote_count_def do_election_finish_def do_heartbeat_def
  do_submit_def do_take_def do_crash_def heartbeatLoop_tick_def sendHeartbeats_def Submit_def clientHandler_take_def
  handleClientReq_begin_def append_entry_def node_append_def startElection_begin_def

lemma solo_step:
  assumes rel: "cluster_rel [(m, addr)] c a" and solo: "solo [(m, addr)] c" and step: "cstep [(m, addr)] c c'"
  shows "solo [(m, addr)] c'"
proof -
  have m: "m \<in> set (members [(m, addr)])" by (simp add: members_def)
  have node: "Peers (nodes c m) = []" "applied_ok (nodes c m)" "commit_durable (nodes c m)"
    "CommitIndex (nodes c m) = -1"
    using cluster_relD(3) [OF rel m] solo_no_peers [OF m] solo m
    by (simp_all add: node_ok_def solo_def)
  have only: "i = m" if "i \<in> set (members [(m, addr)])" for i using solo_no_peers [OF that] by simp
  from step show ?thesis
  proof cases
    case (c_timeout i)
    then show ?thesis using solo node only [of i] by (auto simp: solo_steps Let_def node_simps)
  next
    case (c_vote_count i t r p)
    then show ?thesis
      using solo node only [of i] CommitIndex_election(3) [of "run_el r" "nodes c m"]
      by (auto simp: solo_steps split: prod.splits)
  next
    case (c_poll i req idx t late)
    moreover have "0 \<le> idx" using cluster_relD(8) [OF rel c_poll(3)] by (simp add: handling_ok_def)
    ultimately show ?thesis
      using solo node only [of i]
      by (auto simp: do_poll_def handleClientReq_poll_def solo_def split: if_splits)
  next
    case (c_apply i ticker n')
    then show ?thesis
      using solo node only [of i] applyLoop_turn_commit [OF node(2)] by (auto simp: solo_steps)
  next
    case (c_crash i)
    then show ?thesis using solo node only [of i] by (auto simp: solo_steps node_simps commit_durable_def)
  qed (use solo node only in \<open>auto simp: solo_steps CommitIndex_election split: list.splits option.splits\<close>)
qed

lemma solo_reachable:
  assumes "m \<noteq> ''''" and "reachable [(m, addr)] c"
  shows "solo [(m, addr)] c"
proof -
  have good: "good_config [(m, addr)]" using assms(1) by (simp add: good_config_def members_def)
  have "(cstep [(m, addr)])\<^sup>*\<^sup>* (start_cluster [(m, addr)]) c" using assms(2) by (simp add: reachable_def)
  then show ?thesis
  proof (induction rule: rtranclp_induct)
    case base
    show ?case
      by (simp add: solo_def start_cluster_def start_node_restart node_simps journal_state_initial persist0_def)
  next
    case (step d e)
    obtain a where "cluster_rel [(m, addr)] d a"
      using reachable_related [OF good] step.hyps(1) by (auto simp: reachable_def)
    then show ?case using solo_step step by blast
  qed
qed

definition solo1 :: cluster where
  "solo1 = do_timeout ''n1'' (start_cluster cfg1)"

definition solo_el :: running where
  "solo_el = \<lparr>run_el = \<lparr>el_term = 1, el_lastLogIndex = -1, el_lastLogTerm = 0, el_votes = 1, el_peersCount = 1\<rparr>,
     run_waiting = [], run_counting = []\<rparr>"

definition solo2 :: cluster where
  "solo2 = do_take ''n1'' (do_submit ''n1'' set_req (do_election_finish ''n1'' 1 solo_el solo1))"

lemma solo_facts:
  "CurrentTerm (nodes (start_cluster cfg1) ''n1'') < max_int" "elections solo1 (''n1'', 1) = Some solo_el"
  "handling (do_submit ''n1'' set_req (do_election_finish ''n1'' 1 solo_el solo1)) ''n1'' = None"
  "State (nodes solo2 ''n1'') = Leader" "Log (nodes solo2 ''n1'') = [req_entry set_req 0 1]"
  by code_simp+

lemma solo2_reachable: "reachable cfg1 solo2"
proof -
  have m: "''n1'' \<in> set (members cfg1)" by (simp add: cfg1_def members_def)
  have "reachable cfg1 solo1"
    unfolding solo1_def by (rule reachable_step [OF reachable_start], rule cstep.c_timeout [OF m solo_facts(1)])
  then have "reachable cfg1 (do_election_finish ''n1'' 1 solo_el solo1)"
    by (rule reachable_step, intro cstep.c_election_finish [OF m solo_facts(2)]) (simp_all add: solo_el_def)
  then have "reachable cfg1 (do_submit ''n1'' set_req (do_election_finish ''n1'' 1 solo_el solo1))"
    by (rule reachable_step, intro cstep.c_submit [OF m])
  then show ?thesis
    unfolding solo2_def by (rule reachable_step, intro cstep.c_take [OF m solo_facts(3)])
qed

subsection \<open>Properties\<close>

text \<open>
  C26: a cluster of one node accepts writes but never commits them. It becomes leader and appends a
  client's entry, but its commit index stays \<open>-1\<close>, so nothing is applied and no client is ever
  told OK: every proposal ends in an error (after five seconds, \<^verbatim>\<open>TIMEOUT\<close>).
\<close>

theorem single_node_never_commits:
  assumes "m \<noteq> ''''" and "reachable [(m, addr)] c"
  shows "CommitIndex (nodes c m) = -1 \<and> (req, Inr r) \<notin> set (answers c)"
  using solo_reachable [OF assms] by (auto simp: solo_def members_def)

theorem single_node_never_commits_witness:
  "State (nodes solo2 ''n1'') = Leader \<and> Log (nodes solo2 ''n1'') = [req_entry set_req 0 1] \<and>
   CommitIndex (nodes solo2 ''n1'') = -1"
  using single_node_never_commits [of "''n1''" "''h:1''" solo2] solo2_reachable solo_facts(4,5)
  by (simp add: cfg1_def)

end
