(* ===== verification/Progress.thy ===== *)
theory Progress
  imports Single_Node
begin

text \<open>
  What never goes back and what stays in bounds: terms and commit indexes of members, through every
  step and every crash, and the indexes a node works with. Then the loops of replication: the scan
  of \<^verbatim>\<open>advanceCommitIndex\<close> against its specification, and the rounds in which a leader brings a
  follower up to date.
\<close>

subsection \<open>Terms, commit indexes and queues\<close>

definition grows :: "node \<Rightarrow> node \<Rightarrow> bool" where
  "grows n n' \<longleftrightarrow> Addr n' = Addr n \<and> CurrentTerm n \<le> CurrentTerm n' \<and> CommitIndex n \<le> CommitIndex n' \<and>
     (length (clientCh n) \<le> 100 \<longrightarrow> length (clientCh n') \<le> 100)"

lemma grows_refl [simp]: "grows n n"
  by (simp add: grows_def)

lemma grows_trans: "grows a b \<Longrightarrow> grows b c \<Longrightarrow> grows a c"
  by (auto simp: grows_def)

lemma grows_stepDown: "CurrentTerm n < t \<Longrightarrow> grows n (stepDown t n)"
  by (simp add: grows_def node_simps)

lemma grows_election:
  "0 \<le> CurrentTerm n \<Longrightarrow> CurrentTerm n < max_int \<Longrightarrow> grows n (fst (startElection_begin n))"
  "grows n (fst (startElection_reply el resp n))" "grows n (fst (startElection_count el n))"
  "grows n (startElection_finish el n)"
  by (auto simp: grows_def startElection_begin_def startElection_reply_def startElection_count_def
      startElection_finish_def Let_def node_simps int64_succ)

lemma grows_HandleRequestVote: "HandleRequestVote req n = (n', resp) \<Longrightarrow> grows n n'"
  by (auto simp: grows_def HandleRequestVote_def Let_def node_simps split: if_splits)

lemma grows_client:
  "Submit b req n = Some (n', err) \<Longrightarrow> grows n n'" "clientHandler_take b n = Some (n', req) \<Longrightarrow> grows n n'"
  "grows n (fst (handleClientReq_begin req n))"
  by (auto simp: grows_def Submit_def clientHandler_take_def handleClientReq_begin_def append_entry_def
      node_append_def split: if_splits list.splits)

lemma grows_advance: "advance_from N n = Inr n' \<Longrightarrow> grows n n'"
  using advance_from_result [of N n n'] by (auto simp: grows_def node_simps)

lemma grows_reply: "replicateToPeer_reply rc req resp n = Inr n' \<Longrightarrow> grows n n'"
proof -
  assume h: "replicateToPeer_reply rc req resp n = Inr n'"
  have index: "grows n (n\<lparr>MatchIndex := m, NextIndex := x\<rparr>)" "grows n (n\<lparr>NextIndex := x\<rparr>)" for m x
    by (simp_all add: grows_def)
  show ?thesis
    using h grows_trans [OF index(1) grows_advance] grows_stepDown index(2)
    unfolding replicateToPeer_reply_def advanceCommitIndex_def Let_def by (auto split: if_splits)
qed

lemma grows_apply:
  assumes "applied_ok n" and "applyLoop_turn ticker n = Inr n'"
  shows "grows n n'"
  using assms applyCommittedEntries_result [OF assms(1)]
    applyCommittedEntries_result [of "n\<lparr>applyNotify := False\<rparr>"]
  by (auto simp: applyLoop_turn_def applied_ok_def grows_def split: if_splits)

text \<open>Replaying more of a journal gives no smaller commit index.\<close>

lemma fold_replay_commit_ge: "p_commit p \<le> p_commit (fold persist_replay rs p)"
  by (induction rs arbitrary: p) (auto intro: order_trans [OF persist_replay_commit_ge])

lemma journal_commit_mono:
  "prefix (records n) (records n') \<Longrightarrow> p_commit (journal_state n) \<le> p_commit (journal_state n')"
  by (auto simp: journal_state_def prefix_def fold_replay_commit_ge)

lemma grows_crash_during:
  assumes rel: "cluster_rel cfg c a" and p: "p \<in> set (members cfg)"
    and k: "length (records (nodes c p)) \<le> k" and rec: "prefix (records (nodes c p)) (records n')"
    and T: "take k (records n') = records (nodes c p) \<or> take k (records n') = records n' \<or>
      (\<exists>m W. take k (records n') = records m @ W \<and> durable m \<and> CurrentTerm (nodes c p) \<le> CurrentTerm m \<and>
        p_term (fold persist_replay W (journal_state m)) = CurrentTerm m)"
    and n': "durable n'" "CurrentTerm (nodes c p) \<le> CurrentTerm n'"
  shows "grows (nodes c p) (nodes (do_crash_during p n' k c) p)"
proof -
  let ?n = "nodes c p" and ?m = "(nodes c p)\<lparr>wal := (wal n')\<lparr>j_records := take k (records n')\<rparr>\<rparr>"
  have ok: "durable ?n" "commit_durable ?n" using cluster_relD(3) [OF rel p] by (simp_all add: node_ok_def)
  have "prefix (records ?n) (take k (records n'))" using k rec by (auto simp: prefix_def)
  then have "p_commit (journal_state ?n) \<le> p_commit (journal_state ?m)" by (intro journal_commit_mono) simp
  then have "CommitIndex ?n \<le> p_commit (journal_state ?m)" using ok(2) by (simp add: commit_durable_def)
  moreover have "CurrentTerm ?n \<le> p_term (journal_state ?m)"
    using T
  proof (elim disjE exE conjE)
    fix m W
    assume "take k (records n') = records m @ W" "CurrentTerm ?n \<le> CurrentTerm m"
      "p_term (fold persist_replay W (journal_state m)) = CurrentTerm m"
    then show ?thesis by (simp add: journal_state_def)
  qed (use ok(1) n' in \<open>simp_all add: durable_def journal_state_def\<close>)
  ultimately show ?thesis
    by (simp add: grows_def do_crash_during_def do_crash_def node_simps upd_def restart_eq initial_node_def)
qed

text \<open>The records a handler has written stay when it writes more.\<close>

lemma rv_records_prefix:
  "j_open (wal n) \<Longrightarrow> HandleRequestVote req n = (n', resp) \<Longrightarrow> prefix (records n) (records n')"
  by (auto simp: HandleRequestVote_def Let_def node_simps split: if_splits)

lemma ae_records_prefix:
  assumes "j_open (wal n)" and "-1 \<le> ae_PrevLogIndex req" and "HandleAppendEntries req n = Inr (n', resp)"
  shows "prefix (records n) (records n')"
proof (cases "ae_Term req < CurrentTerm n")
  case True
  then show ?thesis using assms(3) by (simp add: HandleAppendEntries_stale)
next
  case False
  then have le: "CurrentTerm n \<le> ae_Term req" by simp
  show ?thesis
    using ae_records_mismatch [OF le _ assms(1,3)] ae_records_accept [OF le _ assms(2,1,3)]
      accept_term_records [OF assms(1), of req]
    by (cases "prev_mismatch req (Log n)") (auto simp: prefix_def)
qed

lemma merge_records_term:
  "set W \<subseteq> range entry_record \<union> range truncate_record \<Longrightarrow> p_term (fold persist_replay W P) = p_term P"
  by (induction W arbitrary: P) auto

lemma set_merge_records: "set (merge_records k es new) \<subseteq> range entry_record \<union> range truncate_record"
  by (auto simp: merge_records_def Let_def)

lemma grows_crash_rv:
  assumes rel: "cluster_rel cfg c a" and p: "p \<in> set (members cfg)"
    and h: "HandleRequestVote req (nodes c p) = (n', resp)" and k: "length (records (nodes c p)) \<le> k"
  shows "grows (nodes c p) (nodes (do_crash_during p n' k c) p)"
proof -
  let ?n = "nodes c p"
  have ok: "j_open (wal ?n)" "durable ?n" using cluster_relD(3) [OF rel p] by (simp_all add: node_ok_def)
  have up: "durable (stepDown (rv_Term req) ?n)" by (rule durable_stepDown [OF ok])
  have "\<exists>m W. take k (records n') = records m @ W \<and> durable m \<and> CurrentTerm ?n \<le> CurrentTerm m \<and>
      p_term (fold persist_replay W (journal_state m)) = CurrentTerm m"
    if "CurrentTerm ?n < rv_Term req" "take k (records n') = records (stepDown (rv_Term req) ?n)"
    using that up
    by (intro exI [of _ "stepDown (rv_Term req) ?n"] exI [of _ "[]"]) (simp add: durable_def node_simps)
  then show ?thesis
    using rv_points [OF ok(1) h k] grows_HandleRequestVote [OF h] durable_HandleRequestVote(1) [OF ok h]
    by (intro grows_crash_during [OF rel p k rv_records_prefix [OF ok(1) h]]) (auto simp: grows_def)
qed

lemma grows_crash_ae:
  assumes rel: "cluster_rel cfg c a" and p: "p \<in> set (members cfg)" and m: "AEReqM p rc req \<in> set (net c)"
    and h: "HandleAppendEntries req (nodes c p) = Inr (n', resp)" and k: "length (records (nodes c p)) \<le> k"
  shows "grows (nodes c p) (nodes (do_crash_during p n' k c) p)"
proof -
  let ?n = "nodes c p" and ?x = "accept_term req (nodes c p)"
  have prev: "-1 \<le> ae_PrevLogIndex req" using cluster_relD(5) [OF rel m] ae_okD(2) by auto
  have ok: "j_open (wal ?n)" "durable ?n" using cluster_relD(3) [OF rel p] by (simp_all add: node_ok_def)
  have x: "durable ?x" by (rule durable_accept_term(1) [OF ok])
  have "\<exists>m W. take k (records n') = records m @ W \<and> durable m \<and> CurrentTerm ?n \<le> CurrentTerm m \<and>
      p_term (fold persist_replay W (journal_state m)) = CurrentTerm m"
    if "CurrentTerm ?n \<le> ae_Term req" "take k (records n') = records ?x @ W"
      "W = [] \<or> prefix W (merge_records (nat (ae_PrevLogIndex req + 1)) (Log ?n) (ae_Entries req))" for W
  proof (intro exI conjI)
    show "take k (records n') = records ?x @ W" "durable ?x" by fact+
    show "CurrentTerm ?n \<le> CurrentTerm ?x" using that(1) by (simp add: node_simps)
    have "set W \<subseteq> range entry_record \<union> range truncate_record"
      using that(3) set_merge_records [of "nat (ae_PrevLogIndex req + 1)" "Log ?n" "ae_Entries req"]
        set_mono_prefix [of W] by auto
    then show "p_term (fold persist_replay W (journal_state ?x)) = CurrentTerm ?x"
      using x by (simp add: merge_records_term durable_def)
  qed
  then show ?thesis
    using ae_points [OF ok(1) prev h k] HandleAppendEntries_terms(1) [OF h] HandleAppendEntries_durable(1) [OF ok h]
    by (intro grows_crash_during [OF rel p k ae_records_prefix [OF ok(1) prev h]]) auto
qed

lemma grows_take: "grows (nodes c i) (nodes (do_take j c) i)"
proof (cases "clientHandler_take False (nodes c j)")
  case (Some x)
  obtain n1 req where x: "x = (n1, req)" by (cases x)
  have "grows (nodes c j) (fst (handleClientReq_begin req n1))"
    using grows_trans [OF grows_client(2) grows_client(3)] Some x by blast
  then show ?thesis using Some x by (auto simp: do_take_def split: prod.splits sum.splits)
qed (simp add: do_take_def)

lemma grows_handle_ae:
  assumes rel: "cluster_rel cfg c a" and good: "good_config cfg" and p: "p \<in> set (members cfg)"
    and m: "AEReqM p rc req \<in> set (net c)" and h: "do_handle_ae p rc req c = Inr c'"
  shows "grows (nodes c i) (nodes c' i)"
proof -
  note d = cluster_relD [OF rel]
  obtain n' resp where n': "HandleAppendEntries req (nodes c p) = Inr (n', resp)"
    and c': "c' = send [AERespM p rc req resp] (upd p n' c)"
    using h by (auto simp: do_handle_ae_def go_bind_Inr_iff)
  have "ae_ok (members cfg) a req" using d(5) [OF m] by simp
  then have "CommitIndex (nodes c p) \<le> CommitIndex n'"
    using sim_ae_node [OF d(1) _ p d(2) [OF p] _ n'] good by (auto simp: good_config_def)
  then show ?thesis using HandleAppendEntries_terms(1,5) [OF n'] by (simp add: c' grows_def handler_frame_def)
qed

lemma grows_timeout:
  assumes "cluster_rel cfg c a" and "j \<in> set (members cfg)" and "CurrentTerm (nodes c j) < max_int"
  shows "grows (nodes c i) (nodes (do_timeout j c) i)"
proof -
  have "0 \<le> CurrentTerm (nodes c j)"
    using core_nodesD(1) [OF raft_inv_core [OF cluster_relD(1) [OF assms(1)]], of j] cluster_relD(2) [OF assms(1,2)] assms(2) by simp
  then show ?thesis
    using assms(3) grows_election(1) [of "nodes c j"] by (auto simp: do_timeout_def split: prod.splits option.splits)
qed

lemma grows_votes:
  "grows (nodes c i) (nodes (do_handle_rv p rv c) i)" "grows (nodes c i) (nodes (do_vote_reply j t r p resp c) i)"
  "grows (nodes c i) (nodes (do_vote_failed j t r p c) i)" "grows (nodes c i) (nodes (do_vote_count j t r p c) i)"
  "grows (nodes c i) (nodes (do_election_finish j t r c) i)"
  using grows_HandleRequestVote [of rv "nodes c p"] grows_election(2) [of "nodes c j" "run_el r" resp]
    grows_election(3,4) [of "nodes c j" "run_el r"]
  by (auto simp: do_handle_rv_def do_vote_reply_def do_vote_failed_def do_vote_count_def do_election_finish_def split: prod.splits)

lemma grows_requests:
  "grows (nodes c i) (nodes (do_submit j req c) i)" "grows (nodes c i) (nodes (do_poll j late req idx t c) i)"
  "grows (nodes c i) (nodes (do_heartbeat j c) i)" "grows (nodes c i) (nodes (send ms c) i)"
  using grows_client(1) [of False req "nodes c j"]
  by (auto simp: do_submit_def do_poll_def do_heartbeat_def split: option.splits)

lemma grows_crash:
  assumes "cluster_rel cfg c a" and "j \<in> set (members cfg)"
  shows "grows (nodes c i) (nodes (do_crash j c) i)"
  using cluster_relD(3) [OF assms]
  by (auto simp: do_crash_def grows_def node_simps node_ok_def durable_def commit_durable_def restart_eq initial_node_def)

lemma grows_crash_during_other: "i \<noteq> p \<Longrightarrow> nodes (do_crash_during p n' k c) i = nodes c i"
  by (simp add: do_crash_during_def do_crash_def)

lemma grows_step:
  assumes rel: "cluster_rel cfg c a" and good: "good_config cfg" and step: "cstep cfg c c'"
  shows "grows (nodes c i) (nodes c' i)"
  using step
proof cases
  case (c_handle_ae p rc req)
  then show ?thesis by (intro grows_handle_ae [OF rel good])
next
  case (c_ae_reply j p rc req resp n')
  then show ?thesis using grows_reply by auto
next
  case (c_apply j ticker n')
  then show ?thesis using cluster_relD(3) [OF rel, of j] grows_apply [of "nodes c j"] by (auto simp: node_ok_def)
next
  case (c_crash_rv p req n' resp k)
  then show ?thesis using grows_crash_rv [OF rel] by (cases "i = p") (auto simp: grows_crash_during_other)
next
  case (c_crash_ae p rc req n' resp k)
  then show ?thesis using grows_crash_ae [OF rel] by (cases "i = p") (auto simp: grows_crash_during_other)
qed (auto intro: grows_timeout [OF rel] grows_votes grows_requests grows_take grows_crash [OF rel])

lemma grows_steps:
  assumes "good_config cfg" and "reachable cfg c" and "(cstep cfg)\<^sup>*\<^sup>* c c'"
  shows "grows (nodes c i) (nodes c' i)"
  using assms(3)
proof (induction rule: rtranclp_induct)
  case (step d e)
  have "reachable cfg d" using assms(2) step.hyps(1) by (simp add: reachable_def)
  then obtain a where "cluster_rel cfg d a" by (rule reachable_related [OF assms(1)])
  then have "grows (nodes d i) (nodes e i)" using step.hyps(2) assms(1) by (intro grows_step)
  then show ?case by (rule grows_trans [OF step.IH])
qed simp

lemma queue_bounded:
  assumes "good_config cfg" and "reachable cfg c"
  shows "length (clientCh (nodes c i)) \<le> 100"
proof -
  have "grows (nodes (start_cluster cfg) i) (nodes c i)"
    using assms by (intro grows_steps) (simp_all add: reachable_def)
  moreover have "clientCh (nodes (start_cluster cfg) i) = []"
    by (simp add: start_cluster_def start_node_restart restart_eq initial_node_def)
  ultimately show ?thesis by (simp add: grows_def)
qed

subsection \<open>Properties: nothing goes back, nothing leaves its bounds\<close>

text \<open>
  C12: progress is kept. From any reachable cluster to any later one, with crashes in between also in
  the middle of a handler, no member's term or commit index gets smaller, and the entries it had
  committed stay at the front of its log.
\<close>

theorem progress_kept:
  assumes "good_config cfg" and "reachable cfg c" and "(cstep cfg)\<^sup>*\<^sup>* c c'" and "i \<in> set (members cfg)"
  shows "CurrentTerm (nodes c i) \<le> CurrentTerm (nodes c' i) \<and> CommitIndex (nodes c i) \<le> CommitIndex (nodes c' i) \<and>
    prefix (take (nat (CommitIndex (nodes c i) + 1)) (Log (nodes c i))) (Log (nodes c' i))"
proof -
  have g: "grows (nodes c i) (nodes c' i)" by (rule grows_steps [OF assms(1-3)])
  obtain a a' where a: "cluster_rel cfg c a" "cluster_rel cfg c' a'" "hist_le a a'"
    by (rule reachable_later [OF assms(1-3)])
  have ok: "commit_ok (members cfg) a' (CurrentTerm (nodes c i)) (Log (nodes c i)) (CommitIndex (nodes c i))"
    by (rule commit_ok_mono [OF a(3) node_commit_ok [OF a(1) assms(4)] order_refl])
  have "CommitIndex (nodes c i) \<le> CommitIndex (nodes c' i)" using g by (simp add: grows_def)
  then have "take (nat (CommitIndex (nodes c i) + 1)) (Log (nodes c i)) =
      take (nat (CommitIndex (nodes c i) + 1)) (Log (nodes c' i))"
    by (rule commit_ok_agree [OF cluster_relD(1) [OF a(2)] ok node_commit_ok [OF a(2) assms(4)] order_refl])
  then show ?thesis using g by (simp add: grows_def take_is_prefix)
qed

theorem progress_kept_witness:
  "0 \<le> CommitIndex (nodes (do_crash ''n1'' run12) ''n1'') \<and>
   prefix [req_entry set_req 0 1] (Log (nodes (do_crash ''n1'' run12) ''n1''))"
proof -
  have "(cstep cfg3)\<^sup>*\<^sup>* run12 (do_crash ''n1'' run12)"
    by (intro r_into_rtranclp cstep.c_crash) (simp add: members_cfg3)
  from progress_kept [OF good_cfg3 run12_reachable this, of "''n1''"] show ?thesis
    by (simp add: members_cfg3 run12_nodes)
qed

text \<open>
  C13: the indexes of a member stay in their bounds: \<open>-1 \<le> LastApplied \<le> CommitIndex < len Log\<close>, every
  log entry carries its own position and a term between 1 and the current one, the terms never
  decrease along the log, a leader's next index for each peer is between 0 and the length of its log,
  and at most 100 client requests wait.
\<close>

theorem indexes_in_bounds:
  assumes "good_config cfg" and "reachable cfg c" and "i \<in> set (members cfg)"
  shows "let n = nodes c i
    in -1 \<le> LastApplied n \<and> LastApplied n \<le> CommitIndex n \<and> CommitIndex n < len (Log n) \<and> 0 \<le> CurrentTerm n \<and>
       (\<forall>k < length (Log n). Index (Log n ! k) = int k \<and> 1 \<le> Term (Log n ! k) \<and> Term (Log n ! k) \<le> CurrentTerm n) \<and>
       sorted (map Term (Log n)) \<and> length (clientCh n) \<le> 100 \<and>
       (State n = Leader \<longrightarrow>
          (\<forall>p \<in> fst ` set (Peers n). 0 \<le> go_get (NextIndex n) p 0 \<and> go_get (NextIndex n) p 0 \<le> len (Log n)))"
proof -
  obtain a where a: "cluster_rel cfg c a" by (rule reachable_related [OF assms(1,2)])
  note d = cluster_relD [OF a]
  note core = raft_inv_core [OF d(1)]
  let ?n = "nodes c i"
  have ok: "node_ok cfg i ?n" "leader_ok cfg a i ?n" by (rule d(3,4) [OF assms(3)])+
  have log: "log_ok a (Log ?n)" "\<forall>e \<in> set (Log ?n). Term e \<le> CurrentTerm ?n" "0 \<le> CurrentTerm ?n"
    using core_nodesD(1-3) [OF core assms(3)] d(2) [OF assms(3)] by auto
  have entry: "Index (Log ?n ! k) = int k \<and> 1 \<le> Term (Log ?n ! k) \<and> Term (Log ?n ! k) \<le> CurrentTerm ?n"
    if k: "k < length (Log ?n)" for k
  proof -
    have "elected a (Term (Log ?n ! k))" "Index (Log ?n ! k) = int k" using log(1) k by (auto simp: log_ok_def)
    then show ?thesis using core_leadsD(2) [OF core] log(2) k by auto
  qed
  have "CommitIndex ?n < len (Log ?n)" using node_commit_ok [OF a assms(3)] by (simp add: commit_ok_def)
  then show ?thesis
    using ok log entry queue_bounded [OF assms(1,2), of i]
    by (simp add: Let_def node_ok_def leader_ok_def applied_ok_def log_ok_def)
qed

theorem indexes_in_bounds_witness:
  "LastApplied (nodes run12 ''n1'') \<le> CommitIndex (nodes run12 ''n1'') \<and>
   CommitIndex (nodes run12 ''n1'') < len (Log (nodes run12 ''n1'')) \<and> Log (nodes run12 ''n1'') \<noteq> []"
  using indexes_in_bounds [OF good_cfg3 run12_reachable, of "''n1''"]
  by (simp add: members_cfg3 run12_nodes Let_def)

subsection \<open>The scan for the commit index\<close>

text \<open>
  The reference: the greatest index above the commit index whose entry is of the current term and is
  on a majority of the members, the commit index itself if there is none.
\<close>

definition can_commit :: "node \<Rightarrow> int \<Rightarrow> bool" where
  "can_commit n k \<longleftrightarrow> Term (Log n ! nat k) = CurrentTerm n \<and>
     1 + len (filter (\<lambda>(i, match). match \<ge> k) (MatchIndex n)) > (len (Peers n) + 1) div 2"

definition commit_upto :: "int \<Rightarrow> node \<Rightarrow> int" where
  "commit_upto N n = Max (set (CommitIndex n # filter (can_commit n) [CommitIndex n + 1..N]))"

definition commit_at :: "int \<Rightarrow> node \<Rightarrow> node" where
  "commit_at k n =
     (if k = CommitIndex n then n else notifyApply (node_append (commit_record k) (n\<lparr>CommitIndex := k\<rparr>)))"

lemma commit_upto_step:
  assumes "CommitIndex n < N"
  shows "commit_upto N n = (if can_commit n N then N else commit_upto (N - 1) n)"
proof -
  have split: "[CommitIndex n + 1..N] = [CommitIndex n + 1..N - 1] @ [N]"
    using assms by (intro upto_rec2) simp
  have "Max (set (CommitIndex n # filter (can_commit n) [CommitIndex n + 1..N - 1] @ [N])) = N"
    using assms by (intro Max_eqI List.finite_set) auto
  then show ?thesis by (simp add: commit_upto_def split)
qed

lemma commit_upto_none: "N \<le> CommitIndex n \<Longrightarrow> commit_upto N n = CommitIndex n"
  by (simp add: commit_upto_def)

lemma advance_from_upto:
  assumes "-1 \<le> CommitIndex n" and "N < len (Log n)"
  shows "advance_from N n = Inr (commit_at (commit_upto N n) n)"
  using assms
proof (induction N n rule: advance_from.induct)
  case (1 N n)
  show ?case
  proof (cases "N > CommitIndex n")
    case True
    then have at: "index_at (Log n) N = Inr (Log n ! nat N)" using "1.prems" by simp
    have IH: "advance_from (N - 1) n = Inr (commit_at (commit_upto (N - 1) n) n)" if "\<not> can_commit n N"
      using "1.IH" [OF True] "1.prems" that by (auto simp: can_commit_def)
    show ?thesis
      using True at IH by (auto simp: advance_from.simps [of N] commit_upto_step commit_at_def can_commit_def)
  next
    case False
    then show ?thesis by (simp add: advance_from.simps [of N] commit_upto_none commit_at_def)
  qed
qed

text \<open>
  C15: \<^verbatim>\<open>advanceCommitIndex\<close> finds the right index. On every node with a commit index of at least \<open>-1\<close>
  it ends without a panic, moves the commit index to the greatest entry of the current term that a
  majority holds, records it in the journal and wakes the apply loop; if there is none the node is
  unchanged.
\<close>

theorem advanceCommitIndex_greatest:
  assumes "-1 \<le> CommitIndex n"
  shows "advanceCommitIndex n = Inr (commit_at (commit_upto (len (Log n) - 1) n) n) \<and>
    CommitIndex (commit_at (commit_upto (len (Log n) - 1) n) n) =
      Max (insert (CommitIndex n) {k. CommitIndex n < k \<and> k < len (Log n) \<and> can_commit n k})"
proof -
  have "set (CommitIndex n # filter (can_commit n) [CommitIndex n + 1..len (Log n) - 1]) =
      insert (CommitIndex n) {k. CommitIndex n < k \<and> k < len (Log n) \<and> can_commit n k}" by auto
  then show ?thesis
    using advance_from_upto [OF assms, of "len (Log n) - 1"]
    by (simp add: advanceCommitIndex_def commit_at_def node_simps commit_upto_def del: set_simps)
qed

theorem advanceCommitIndex_greatest_witness:
  "advanceCommitIndex ((sample_node [sample_entry 0 1 ''a'' ''1'', sample_entry 1 1 ''b'' ''2''] (-1))
     \<lparr>State := Leader, MatchIndex := [(''n2'', 0), (''n3'', -1)]\<rparr>) =
   Inr (commit_at 0 ((sample_node [sample_entry 0 1 ''a'' ''1'', sample_entry 1 1 ''b'' ''2''] (-1))
     \<lparr>State := Leader, MatchIndex := [(''n2'', 0), (''n3'', -1)]\<rparr>))"
proof -
  let ?n = "(sample_node [sample_entry 0 1 ''a'' ''1'', sample_entry 1 1 ''b'' ''2''] (-1))
     \<lparr>State := Leader, MatchIndex := [(''n2'', 0), (''n3'', -1)]\<rparr>"
  have "commit_upto (len (Log ?n) - 1) ?n = 0" by code_simp
  then show ?thesis
    using advanceCommitIndex_greatest [of ?n] by (simp add: sample_node_def)
qed

subsection \<open>Bringing a follower up to date\<close>

text \<open>
  One round of replication to the peer \<open>p\<close> in which no message is lost: the heartbeat's snapshot,
  the request, the follower's handler, the leader's handling of the reply.
\<close>

definition replicate_round :: "string \<Rightarrow> node \<Rightarrow> node \<Rightarrow> (node \<times> node) go" where
  "replicate_round p l f =
     (case filter (\<lambda>rc. rc_peer rc = p) (sendHeartbeats l) of
        [] \<Rightarrow> Inr (l, f)
      | rc # _ \<Rightarrow>
          (case replicateToPeer_request rc l of
             None \<Rightarrow> Inr (l, f)
           | Some req \<Rightarrow>
               go_bind (HandleAppendEntries req f) (\<lambda>(f', resp).
                 go_bind (replicateToPeer_reply rc req resp l) (\<lambda>l'. Inr (l', f')))))"

fun rounds :: "nat \<Rightarrow> string \<Rightarrow> node \<Rightarrow> node \<Rightarrow> (node \<times> node) go" where
  "rounds 0 p l f = Inr (l, f)"
| "rounds (Suc k) p l f = go_bind (replicate_round p l f) (\<lambda>(l', f'). rounds k p l' f')"

text \<open>Logs that agree up to every position at which they have entries of the same term.\<close>

definition agree :: "LogEntry list \<Rightarrow> LogEntry list \<Rightarrow> bool" where
  "agree L M \<longleftrightarrow> (\<forall>i. i < length L \<longrightarrow> i < length M \<longrightarrow> Term (L ! i) = Term (M ! i) \<longrightarrow>
     take (Suc i) L = take (Suc i) M)"

lemma agree_take: "agree L M \<Longrightarrow> agree (take n L) M"
  by (auto simp: agree_def take_Suc_conv_app_nth min_def)

lemma agree_prefix: "prefix M L \<Longrightarrow> agree L M"
  by (auto simp: agree_def prefix_def)

lemma merge_whole:
  assumes "agree L M" and "take k L = take k M" and "k \<le> length L" and "k \<le> length M"
  shows "prefix M (merge_log k L (drop k M))"
proof -
  let ?m = "match_len (drop k L) (drop k M)"
  note ml = match_len_le [of "drop k L" "drop k M"]
  have eq: "take (k + ?m) L = take (k + ?m) M"
  proof (cases ?m)
    case (Suc j)
    then have j: "k + j < length L" "k + j < length M" using ml by auto
    have "Term (drop k L ! j) = Term (drop k M ! j)" using Suc by (intro match_len_nth) simp
    then have "take (Suc (k + j)) L = take (Suc (k + j)) M"
      using assms(1,3,4) j by (simp add: agree_def)
    then show ?thesis using Suc by simp
  qed (use assms(2) in simp)
  show ?thesis
  proof (cases "?m = length (drop k M)")
    case True
    then have "take (length M) L = M" using eq assms(4) by simp
    then have "prefix M L" by (metis take_is_prefix)
    then show ?thesis using True by (simp add: merge_log_def)
  next
    case False
    then have "merge_log k L (drop k M) = take (k + ?m) M @ drop (k + ?m) M"
      using eq by (simp add: merge_log_def Let_def add.commute)
    then show ?thesis by simp
  qed
qed

text \<open>A leader that can replicate to \<open>p\<close>.\<close>

definition can_replicate :: "string \<Rightarrow> node \<Rightarrow> node \<Rightarrow> bool" where
  "can_replicate p l f \<longleftrightarrow> State l = Leader \<and> p \<in> fst ` set (Peers l) \<and>
     0 \<le> go_get (NextIndex l) p 0 \<and> go_get (NextIndex l) p 0 \<le> len (Log l) \<and> -1 \<le> CommitIndex l \<and>
     CurrentTerm f \<le> CurrentTerm l \<and> agree (Log f) (Log l)"

lemma heartbeat_call:
  assumes "State l = Leader" and "p \<in> fst ` set (Peers l)"
  shows "\<exists>rc rest. filter (\<lambda>rc. rc_peer rc = p) (sendHeartbeats l) = rc # rest \<and> rc_peer rc = p \<and>
    rc_next rc = go_get (NextIndex l) p 0 \<and> rc_term rc = CurrentTerm l \<and> rc_commit rc = CommitIndex l"
proof -
  have "\<exists>rc \<in> set (sendHeartbeats l). rc_peer rc = p" using assms by (force simp: sendHeartbeats_def)
  then obtain rc rest where f: "filter (\<lambda>rc. rc_peer rc = p) (sendHeartbeats l) = rc # rest"
    by (cases "filter (\<lambda>rc. rc_peer rc = p) (sendHeartbeats l)") (auto simp: filter_empty_conv)
  have "rc \<in> set (filter (\<lambda>rc. rc_peer rc = p) (sendHeartbeats l))" unfolding f by simp
  then have "rc \<in> set (sendHeartbeats l)" "rc_peer rc = p" by auto
  then show ?thesis using f assms(1) by (auto simp: sendHeartbeats_def)
qed

lemma commit_at_simps [node_simps]:
  "State (commit_at k n) = State n" "Peers (commit_at k n) = Peers n" "Log (commit_at k n) = Log n"
  "NextIndex (commit_at k n) = NextIndex n" "CurrentTerm (commit_at k n) = CurrentTerm n"
  "CommitIndex (commit_at k n) = k" "MatchIndex (commit_at k n) = MatchIndex n"
  by (simp_all add: commit_at_def node_simps)

text \<open>
  What replication to \<open>p\<close> leaves alone in a leader, and what it has reached when the whole log is
  known to be on \<open>p\<close>: nothing more can be committed.
\<close>

definition leader_frame :: "string \<Rightarrow> node \<Rightarrow> node \<Rightarrow> bool" where
  "leader_frame p l l' \<longleftrightarrow> State l' = State l \<and> CurrentTerm l' = CurrentTerm l \<and> Log l' = Log l \<and> Peers l' = Peers l \<and>
     (\<forall>q. q \<noteq> p \<longrightarrow> map_of (MatchIndex l') q = map_of (MatchIndex l) q \<and> map_of (NextIndex l') q = map_of (NextIndex l) q)"

definition scanned :: "node \<Rightarrow> bool" where
  "scanned n \<longleftrightarrow> (\<forall>k. CommitIndex n < k \<and> k < len (Log n) \<longrightarrow> \<not> can_commit n k)"

definition matched :: "string \<Rightarrow> node \<Rightarrow> bool" where
  "matched p l \<longleftrightarrow> map_of (MatchIndex l) p = Some (len (Log l) - 1) \<and> scanned l"

lemma leader_frame_refl [simp]: "leader_frame p l l"
  by (simp add: leader_frame_def)

lemma leader_frame_trans: "leader_frame p l l' \<Longrightarrow> leader_frame p l' l'' \<Longrightarrow> leader_frame p l l''"
  by (auto simp: leader_frame_def)

lemma scanned_commit_at: "scanned (commit_at (commit_upto (len (Log n) - 1) n) n)"
proof -
  have "k \<le> commit_upto (len (Log n) - 1) n"
    if "CommitIndex n < k" "k < len (Log n)" "can_commit n k" for k
    unfolding commit_upto_def using that by (intro Max_ge List.finite_set) auto
  moreover have "can_commit (commit_at m n) k \<longleftrightarrow> can_commit n k" for m k
    by (simp add: can_commit_def node_simps)
  moreover have "CommitIndex n \<le> commit_upto (len (Log n) - 1) n"
    unfolding commit_upto_def by (intro Max_ge List.finite_set) simp
  ultimately show ?thesis by (force simp: scanned_def node_simps)
qed

lemma commit_upto_ge: "CommitIndex n \<le> commit_upto N n"
  unfolding commit_upto_def by (intro Max_ge List.finite_set) simp

text \<open>A reply of success changes the leader's indexes and perhaps its commit index.\<close>

lemma replicate_success:
  assumes can: "can_replicate p l f" and t: "aer_Term resp \<le> CurrentTerm l" and s: "aer_Success resp"
    and f': "CurrentTerm f' \<le> CurrentTerm l" and rc: "rc_peer rc = p" "rc_term rc = CurrentTerm l"
    and req: "ae_PrevLogIndex req = go_get (NextIndex l) p 0 - 1"
      "ae_Entries req = drop (nat (go_get (NextIndex l) p 0)) (Log l)"
    and pre: "prefix (Log l) (Log f')"
  shows "\<exists>l'. replicateToPeer_reply rc req resp l = Inr l' \<and> can_replicate p l' f' \<and> leader_frame p l l' \<and>
    (ae_Entries req = [] \<and> l' = l \<or> matched p l')"
proof (cases "ae_Entries req = []")
  case True
  then have "replicateToPeer_reply rc req resp l = Inr l"
    using can t s rc by (simp add: replicateToPeer_reply_def can_replicate_def)
  then show ?thesis using True can f' agree_prefix [OF pre] by (simp add: can_replicate_def)
next
  case False
  let ?m = "ae_PrevLogIndex req + len (ae_Entries req)"
  let ?n = "l\<lparr>MatchIndex := AList.update p ?m (MatchIndex l), NextIndex := AList.update p (?m + 1) (NextIndex l)\<rparr>"
  have c: "-1 \<le> CommitIndex ?n" using can by (simp add: can_replicate_def)
  have m: "?m + 1 = len (Log l)" using can req by (simp add: can_replicate_def of_nat_diff nat_le_iff)
  have "replicateToPeer_reply rc req resp l = Inr (commit_at (commit_upto (len (Log ?n) - 1) ?n) ?n)"
    using can t s rc False advance_from_upto [OF c, of "len (Log ?n) - 1"]
    by (simp add: replicateToPeer_reply_def can_replicate_def advanceCommitIndex_def Let_def)
  moreover have "can_replicate p (commit_at (commit_upto (len (Log ?n) - 1) ?n) ?n) f'"
    using can f' agree_prefix [OF pre] m c commit_upto_ge [of ?n "len (Log ?n) - 1"]
    by (simp add: can_replicate_def node_simps go_get_update)
  moreover have "leader_frame p l (commit_at (commit_upto (len (Log ?n) - 1) ?n) ?n)"
    by (simp add: leader_frame_def node_simps update_conv')
  moreover have "matched p (commit_at (commit_upto (len (Log ?n) - 1) ?n) ?n)"
    using m scanned_commit_at [of ?n] by (simp add: matched_def node_simps update_conv')
  ultimately show ?thesis by blast
qed

text \<open>What a round does: it succeeds, or it lowers the next index by one.\<close>

text \<open>What the consistency check says about two logs that agree where their terms do.\<close>

lemma mismatch_not_prefix:
  assumes "prev_mismatch req (Log f)" and "ae_PrevLogIndex req = x - 1" and "x \<le> len (Log l)"
    and "0 \<le> x - 1 \<Longrightarrow> ae_PrevLogTerm req = Term (Log l ! nat (x - 1))"
  shows "\<not> prefix (Log l) (Log f)"
proof
  assume pre: "prefix (Log l) (Log f)"
  have "0 < x" using assms(1,2) by (simp add: prev_mismatch_def)
  then have "nat (x - 1) < length (Log f)" "Log f ! nat (x - 1) = Log l ! nat (x - 1)"
    using assms(3) pre prefix_length_le [OF pre] prefix_nth [of "Log l" "Log f" "nat (x - 1)"] by auto
  then show False using assms(1,2,4) \<open>0 < x\<close> by (auto simp: prev_mismatch_def)
qed

lemma match_common:
  assumes "\<not> prev_mismatch req (Log f)" and "ae_PrevLogIndex req = x - 1" and "0 \<le> x" and "x \<le> len (Log l)"
    and "0 \<le> x - 1 \<Longrightarrow> ae_PrevLogTerm req = Term (Log l ! nat (x - 1))" and "agree (Log f) (Log l)"
  shows "take (nat x) (Log f) = take (nat x) (Log l) \<and> nat x \<le> length (Log f)"
proof (cases "x = 0")
  case False
  then have "nat (x - 1) < length (Log f)" "Term (Log f ! nat (x - 1)) = Term (Log l ! nat (x - 1))"
    using assms(1-3,5) by (auto simp: prev_mismatch_def)
  moreover have "nat (x - 1) < length (Log l)" "nat x = Suc (nat (x - 1))" using assms(3,4) False by auto
  ultimately show ?thesis using assms(6) by (simp add: agree_def)
qed simp

text \<open>The request of a round.\<close>

lemma round_request:
  assumes "can_replicate p l f"
  shows "\<exists>rc rest req. filter (\<lambda>rc. rc_peer rc = p) (sendHeartbeats l) = rc # rest \<and> rc_peer rc = p \<and>
    rc_next rc = go_get (NextIndex l) p 0 \<and> rc_term rc = CurrentTerm l \<and> replicateToPeer_request rc l = Some req \<and>
    ae_PrevLogIndex req = go_get (NextIndex l) p 0 - 1 \<and> ae_Term req = CurrentTerm l \<and>
    ae_Entries req = drop (nat (go_get (NextIndex l) p 0)) (Log l) \<and> ae_LeaderCommit req = CommitIndex l \<and>
    (0 \<le> go_get (NextIndex l) p 0 - 1 \<longrightarrow> ae_PrevLogTerm req = Term (Log l ! nat (go_get (NextIndex l) p 0 - 1)))"
proof -
  have l: "State l = Leader" "0 \<le> go_get (NextIndex l) p 0" "go_get (NextIndex l) p 0 \<le> len (Log l)" "p \<in> fst ` set (Peers l)"
    using assms by (simp_all add: can_replicate_def)
  obtain rc rest where rc: "filter (\<lambda>rc. rc_peer rc = p) (sendHeartbeats l) = rc # rest" "rc_peer rc = p"
      "rc_next rc = go_get (NextIndex l) p 0" "rc_term rc = CurrentTerm l" "rc_commit rc = CommitIndex l"
    using heartbeat_call [OF l(1,4)] by blast
  then show ?thesis using l(1-3) by (auto simp: replicateToPeer_request_def Let_def)
qed

lemma replicate_refused:
  assumes can: "can_replicate p l f" and "rc_peer rc = p" "rc_next rc = go_get (NextIndex l) p 0" "rc_term rc = CurrentTerm l"
    and req: "ae_PrevLogIndex req = go_get (NextIndex l) p 0 - 1" "ae_Term req = CurrentTerm l" and mis: "prev_mismatch req (Log f)"
  shows "\<exists>f' resp l'. HandleAppendEntries req f = Inr (f', resp) \<and> CurrentTerm f' = CurrentTerm l \<and>
    replicateToPeer_reply rc req resp l = Inr l' \<and> can_replicate p l' f' \<and> leader_frame p l l' \<and>
    go_get (NextIndex l') p 0 = go_get (NextIndex l) p 0 - 1"
proof -
  let ?x = "go_get (NextIndex l) p 0"
  let ?l' = "l\<lparr>NextIndex := AList.update p (?x - 1) (NextIndex l)\<rparr>"
  have le: "CurrentTerm f \<le> ae_Term req" using can req(2) by (simp add: can_replicate_def)
  obtain f' resp where f': "HandleAppendEntries req f = Inr (f', resp)" "\<not> aer_Success resp"
      "aer_Term resp = CurrentTerm l" "CurrentTerm f' = CurrentTerm l" "Log f' = take (nat (?x - 1)) (Log f)"
    using HandleAppendEntries_mismatch [OF le mis] req by auto
  have pos: "0 < ?x" using mis req(1) by (simp add: prev_mismatch_def)
  have "replicateToPeer_reply rc req resp l = Inr ?l'"
    using can assms(2-4) f'(2,3) pos by (simp add: replicateToPeer_reply_def can_replicate_def)
  moreover have "can_replicate p ?l' f'"
    using can pos f' agree_take by (simp add: can_replicate_def go_get_update)
  moreover have "leader_frame p l ?l'" by (simp add: leader_frame_def update_conv')
  moreover have "go_get (NextIndex ?l') p 0 = ?x - 1" by (simp add: go_get_update)
  ultimately show ?thesis using f'(1,4) by blast
qed

lemma replicate_round_outcome:
  assumes can: "can_replicate p l f"
  shows "\<exists>l' f'. replicate_round p l f = Inr (l', f') \<and> can_replicate p l' f' \<and> leader_frame p l l' \<and>
    CurrentTerm f' = CurrentTerm l \<and>
    (prefix (Log l) (Log f') \<and> (go_get (NextIndex l) p 0 = len (Log l) \<and> l' = l \<or> matched p l') \<and>
       CommitIndex f' = (if CommitIndex f < CommitIndex l then min (CommitIndex l) (len (Log f') - 1) else CommitIndex f) \<or>
     \<not> prefix (Log l) (Log f) \<and> go_get (NextIndex l') p 0 = go_get (NextIndex l) p 0 - 1)"
proof -
  let ?x = "go_get (NextIndex l) p 0"
  have l: "State l = Leader" "0 \<le> ?x" "?x \<le> len (Log l)" "CurrentTerm f \<le> CurrentTerm l" "agree (Log f) (Log l)"
    using can by (simp_all add: can_replicate_def)
  obtain rc rest req where rc: "filter (\<lambda>rc. rc_peer rc = p) (sendHeartbeats l) = rc # rest"
      "rc_peer rc = p" "rc_next rc = ?x" "rc_term rc = CurrentTerm l"
    and req: "replicateToPeer_request rc l = Some req" "ae_PrevLogIndex req = ?x - 1" "ae_Term req = CurrentTerm l"
      "ae_Entries req = drop (nat ?x) (Log l)" "ae_LeaderCommit req = CommitIndex l"
      "0 \<le> ?x - 1 \<Longrightarrow> ae_PrevLogTerm req = Term (Log l ! nat (?x - 1))"
    using round_request [OF can] by blast
  have le: "CurrentTerm f \<le> ae_Term req" and prev: "-1 \<le> ae_PrevLogIndex req" using l(2,4) req by simp_all
  show ?thesis
  proof (cases "prev_mismatch req (Log f)")
    case True
    have "\<not> prefix (Log l) (Log f)" by (rule mismatch_not_prefix [OF True req(2) l(3) req(6)])
    moreover obtain f' resp l' where r: "HandleAppendEntries req f = Inr (f', resp)" "replicateToPeer_reply rc req resp l = Inr l'"
        "CurrentTerm f' = CurrentTerm l" "can_replicate p l' f'" "leader_frame p l l'" "go_get (NextIndex l') p 0 = ?x - 1"
      using replicate_refused [OF can rc(2-4) req(2,3) True] by blast
    moreover have "replicate_round p l f = Inr (l', f')" using r(1,2) rc(1) req(1) by (simp add: replicate_round_def)
    ultimately show ?thesis by blast
  next
    case False
    obtain f' resp where f': "HandleAppendEntries req f = Inr (f', resp)" "aer_Success resp"
        "aer_Term resp = CurrentTerm l" "CurrentTerm f' = CurrentTerm l"
        "Log f' = merge_log (nat ?x) (Log f) (drop (nat ?x) (Log l))"
        "CommitIndex f' = (if CommitIndex f < CommitIndex l then min (CommitIndex l) (len (Log f') - 1) else CommitIndex f)"
      using HandleAppendEntries_accept [OF le False prev] req(2-5) by auto
    have "take (nat ?x) (Log f) = take (nat ?x) (Log l) \<and> nat ?x \<le> length (Log f)"
      by (rule match_common [OF False req(2) l(2,3) req(6) l(5)])
    then have pre: "prefix (Log l) (Log f')" using merge_whole [OF l(5)] l(3) f'(5) by simp
    obtain l' where l': "replicateToPeer_reply rc req resp l = Inr l'" "can_replicate p l' f'" "leader_frame p l l'"
        "ae_Entries req = [] \<and> l' = l \<or> matched p l'"
      using replicate_success [OF can _ f'(2) _ rc(2,4) req(2,4) pre] f'(3,4) by auto
    have "?x = len (Log l)" if "ae_Entries req = []" using that req(4) l(2,3) by simp
    then have "?x = len (Log l) \<and> l' = l \<or> matched p l'" using l'(4) by auto
    moreover have "replicate_round p l f = Inr (l', f')" using rc(1) req(1) f'(1) l'(1) by (simp add: replicate_round_def)
    ultimately show ?thesis using l'(2,3) f'(4-6) pre by blast
  qed
qed

lemma rounds_catch_up:
  assumes "can_replicate p l f" and "prefix (Log l) (Log f) \<or> go_get (NextIndex l) p 0 < int k"
  shows "\<exists>l' f'. rounds k p l f = Inr (l', f') \<and> can_replicate p l' f' \<and> Log l' = Log l \<and> prefix (Log l) (Log f')"
  using assms
proof (induction k arbitrary: l f)
  case 0
  then show ?case by (auto simp: can_replicate_def)
next
  case (Suc k)
  from replicate_round_outcome [OF Suc.prems(1)] obtain l1 f1 where
    r: "replicate_round p l f = Inr (l1, f1)" "can_replicate p l1 f1" "leader_frame p l l1"
      "prefix (Log l) (Log f1) \<or>
        \<not> prefix (Log l) (Log f) \<and> go_get (NextIndex l1) p 0 = go_get (NextIndex l) p 0 - 1" by blast
  then have log: "Log l1 = Log l" by (simp add: leader_frame_def)
  have "prefix (Log l1) (Log f1) \<or> go_get (NextIndex l1) p 0 < int k"
    using log r(4) Suc.prems(2) by auto
  from Suc.IH [OF r(2) this] show ?case using r(1) log by auto
qed

lemma reachable_can_replicate:
  assumes "good_config cfg" and "reachable cfg c" and i: "i \<in> set (members cfg)" and p: "p \<in> set (members cfg)"
    and "i \<noteq> p" and lead: "State (nodes c i) = Leader" and le: "CurrentTerm (nodes c p) \<le> CurrentTerm (nodes c i)"
  shows "can_replicate p (nodes c i) (nodes c p)"
proof -
  obtain a where a: "cluster_rel cfg c a" by (rule reachable_related [OF assms(1,2)])
  note d = cluster_relD [OF a]
  note core = raft_inv_core [OF d(1)]
  have logs: "log_ok a (Log (nodes c p))" "log_ok a (Log (nodes c i))"
    using core_nodesD(2) [OF core] d(2) i p by auto
  have "agree (Log (nodes c p)) (Log (nodes c i))"
    unfolding agree_def using log_matching [OF logs] by blast
  moreover have "p \<in> fst ` set (peers_of cfg i)"
    using peers_of_members(1) [OF assms(1) i] p assms(5) by auto
  moreover have "-1 \<le> CommitIndex (nodes c i)" using node_commit_ok [OF a i] by (simp add: commit_ok_def)
  moreover have "Peers (nodes c i) = peers_of cfg i" using d(3) [OF i] by (simp add: node_ok_def)
  moreover note d(4) [OF i, unfolded leader_ok_def]
  ultimately show ?thesis using lead le unfolding can_replicate_def by metis
qed

text \<open>
  C16: replication catches up. In a reachable cluster, take a leader and any other member whose term is
  not higher. As many undisturbed rounds of replication as the leader's next index for that member,
  plus one, end without a panic and leave the leader's whole log at the front of the member's log.
\<close>

theorem replication_catches_up:
  assumes "good_config cfg" and "reachable cfg c" and "i \<in> set (members cfg)" and "p \<in> set (members cfg)"
    and "i \<noteq> p" and "State (nodes c i) = Leader" and "CurrentTerm (nodes c p) \<le> CurrentTerm (nodes c i)"
    and "go_get (NextIndex (nodes c i)) p 0 < int k"
  shows "\<exists>l' f'. rounds k p (nodes c i) (nodes c p) = Inr (l', f') \<and> State l' = Leader \<and>
    Log l' = Log (nodes c i) \<and> prefix (Log (nodes c i)) (Log f')"
  using rounds_catch_up [OF reachable_can_replicate [OF assms(1-7)] disjI2 [OF assms(8)]]
  by (auto simp: can_replicate_def)

theorem replication_catches_up_witness:
  "\<exists>l' f'. rounds 2 ''n3'' (nodes run12 ''n1'') (nodes run12 ''n3'') = Inr (l', f') \<and>
     prefix [req_entry set_req 0 1] (Log f')"
proof -
  have "State (nodes run12 ''n1'') = Leader" "CurrentTerm (nodes run12 ''n3'') \<le> CurrentTerm (nodes run12 ''n1'')"
    "go_get (NextIndex (nodes run12 ''n1'')) ''n3'' 0 < 2"
    by code_simp+
  then show ?thesis
    using replication_catches_up [OF good_cfg3 run12_reachable, of "''n1''" "''n3''" 2]
    by (auto simp: members_cfg3 run12_nodes)
qed

end
