(* ===== verification/Gob.thy ===== *)
theory Gob
  imports Wal "HOL-Library.Monad_Syntax"
begin

text \<open>
  The encoding of a \<^verbatim>\<open>WALRecord\<close> by \<^verbatim>\<open>encoding/gob\<close>, as its documentation describes it. Unsigned
  integers are one byte below 128, otherwise a negated byte count and the big-endian bytes without
  leading zeros; signed integers have their sign in the lowest bit; a string is its length and its
  bytes; a struct is a list of field number differences with values, without the fields that are
  zero, closed by a zero byte. A stream starts with the messages that describe the types: these are
  the same for every record, because \<open>Append\<close> makes a new encoder each time, and they are the
  argument \<open>types\<close>. An encoder refuses numbers and strings that have no place in 64 bits.

  The encoding round-trips, so it is an interpretation of the locale \<open>gob\<close>, and through it the
  write-ahead log an interpretation of \<open>journal\<close>.
\<close>

subsection \<open>Integers\<close>

fun be_bytes :: "nat \<Rightarrow> byte list" where
  "be_bytes n = (if n = 0 then [] else be_bytes (n div 256) @ [of_nat (n mod 256)])"

declare be_bytes.simps [simp del]

definition be_val :: "byte list \<Rightarrow> nat" where
  "be_val bs = foldl (\<lambda>a b. a * 256 + unat b) 0 bs"

definition put_uint :: "nat \<Rightarrow> byte list" where
  "put_uint n = (if n < 128 then [of_nat n] else of_nat (256 - length (be_bytes n)) # be_bytes n)"

fun get_uint :: "byte list \<Rightarrow> (nat \<times> byte list) option" where
  "get_uint [] = None"
| "get_uint (b # bs) =
     (if unat b < 128 then Some (unat b, bs)
      else let k = 256 - unat b
           in if 8 < k \<or> length bs < k then None else Some (be_val (take k bs), drop k bs))"

definition put_int :: "int \<Rightarrow> byte list" where
  "put_int i = put_uint (if i < 0 then nat (- i - 1) * 2 + 1 else nat i * 2)"

definition int_of_bits :: "nat \<Rightarrow> int" where
  "int_of_bits u = (if even u then int (u div 2) else - int (u div 2) - 1)"

lemma unat_byte: "n < 256 \<Longrightarrow> unat (of_nat n :: byte) = n"
  by (simp add: unat_of_nat take_bit_nat_eq_self)

lemma be_val_be_bytes: "be_val (be_bytes n) = n"
proof (induction n rule: be_bytes.induct)
  case (1 n)
  show ?case
  proof (cases "n = 0")
    case False
    then show ?thesis
      using "1.IH" [OF False] by (simp add: be_bytes.simps [of n] be_val_def unat_byte)
  qed (simp add: be_bytes.simps [of 0] be_val_def)
qed

lemma length_be_bytes: "n < 256 ^ k \<Longrightarrow> length (be_bytes n) \<le> k"
proof (induction n arbitrary: k rule: be_bytes.induct)
  case (1 n)
  show ?case
  proof (cases "n = 0")
    case False
    then obtain j where k: "k = Suc j" using "1.prems" by (cases k) auto
    then have "n div 256 < 256 ^ j" using "1.prems" by (simp add: less_mult_imp_div_less mult.commute)
    then show ?thesis using "1.IH" [OF False] False k by (simp add: be_bytes.simps [of n])
  qed (simp add: be_bytes.simps [of 0])
qed

lemma be_bytes_nonempty: "0 < n \<Longrightarrow> 0 < length (be_bytes n)"
  by (simp add: be_bytes.simps [of n])

lemma get_put_uint:
  assumes "n < 2 ^ 64"
  shows "get_uint (put_uint n @ rest) = Some (n, rest)"
proof (cases "n < 128")
  case True
  then show ?thesis by (simp add: put_uint_def unat_byte)
next
  case False
  have len: "length (be_bytes n) \<le> 8" using assms by (intro length_be_bytes) simp
  have pos: "0 < length (be_bytes n)" using False by (intro be_bytes_nonempty) simp
  define b :: byte where "b = of_nat (256 - length (be_bytes n))"
  have u: "unat b = 256 - length (be_bytes n)"
    unfolding b_def using pos by (intro unat_byte) simp
  have "put_uint n = b # be_bytes n" using False by (simp add: put_uint_def b_def)
  then show ?thesis
    using len pos by (simp add: u be_val_be_bytes Let_def)
qed

definition in_int64 :: "int \<Rightarrow> bool" where
  "in_int64 i \<longleftrightarrow> - (2 ^ 63) \<le> i \<and> i < 2 ^ 63"

lemma get_put_int:
  assumes "in_int64 i"
  shows "\<exists>u. get_uint (put_int i @ rest) = Some (u, rest) \<and> int_of_bits u = i"
proof -
  let ?u = "if i < 0 then nat (- i - 1) * 2 + 1 else nat i * 2"
  have "?u < 2 ^ 64" using assms by (auto simp: in_int64_def)
  then have "get_uint (put_int i @ rest) = Some (?u, rest)"
    unfolding put_int_def by (rule get_put_uint)
  moreover have "int_of_bits ?u = i" by (auto simp: int_of_bits_def)
  ultimately show ?thesis by blast
qed

definition get_int :: "byte list \<Rightarrow> (int \<times> byte list) option" where
  "get_int bs = (case get_uint bs of None \<Rightarrow> None | Some (u, rest) \<Rightarrow> Some (int_of_bits u, rest))"

lemma get_int_put_int: "in_int64 i \<Longrightarrow> get_int (put_int i @ rest) = Some (i, rest)"
  using get_put_int [of i rest] by (auto simp: get_int_def)

subsection \<open>Strings\<close>

definition put_string :: "string \<Rightarrow> byte list" where
  "put_string s = put_uint (length s) @ map (\<lambda>c. of_nat (of_char c)) s"

definition get_string :: "byte list \<Rightarrow> (string \<times> byte list) option" where
  "get_string bs = (case get_uint bs of
       None \<Rightarrow> None
     | Some (n, rest) \<Rightarrow>
         if length rest < n then None
         else Some (map (\<lambda>b. char_of (unat b)) (take n rest), drop n rest))"

lemma char_byte: "char_of (unat (of_nat (of_char c) :: byte)) = c"
  by (simp only: unat_byte [OF nat_of_char_less_256] char_of_char)

lemma get_string_put_string:
  "length s < 2 ^ 63 \<Longrightarrow> get_string (put_string s @ rest) = Some (s, rest)"
  by (simp add: get_string_def put_string_def get_put_uint char_byte comp_def)

subsection \<open>Structs\<close>

text \<open>The fields in order, \<open>None\<close> for one that is zero; \<open>d\<close> is the distance from the last field sent.\<close>

fun put_fields :: "nat \<Rightarrow> byte list option list \<Rightarrow> byte list" where
  "put_fields d [] = [0]"
| "put_fields d (None # fs) = put_fields (Suc d) fs"
| "put_fields d (Some v # fs) = put_uint d @ v @ put_fields (Suc 0) fs"

text \<open>
  The decoder keeps the distance to the next field that was sent, zero at the end of the struct, and
  takes the zero value for a field that was not.
\<close>

definition get_field ::
    "(byte list \<Rightarrow> ('a \<times> byte list) option) \<Rightarrow> 'a \<Rightarrow> nat \<times> byte list \<Rightarrow> ('a \<times> nat \<times> byte list) option" where
  "get_field p zero st =
     (case st of (d, bs) \<Rightarrow>
        if d = 0 then Some (zero, 0, bs)
        else if d = 1 then
          (case p bs of
             None \<Rightarrow> None
           | Some (v, bs1) \<Rightarrow>
               (case get_uint bs1 of None \<Rightarrow> None | Some (d', bs2) \<Rightarrow> Some (v, d', bs2)))
        else Some (zero, d - 1, bs))"

fun field_state :: "nat \<Rightarrow> byte list option list \<Rightarrow> byte list \<Rightarrow> nat \<times> byte list" where
  "field_state d [] rest = (0, rest)"
| "field_state d (None # fs) rest = field_state (Suc d) fs rest"
| "field_state d (Some v # fs) rest = (d, v @ put_fields (Suc 0) fs @ rest)"

lemma get_uint_fields:
  "d + length fs < 128 \<Longrightarrow> get_uint (put_fields d fs @ rest) = Some (field_state d fs rest)"
  by (induction d fs rest rule: field_state.induct) (simp_all add: get_put_uint)

lemma field_state_Suc:
  assumes "0 < d"
  shows "field_state (Suc d) fs rest =
    (case field_state d fs rest of (x, r) \<Rightarrow> (if x = 0 then 0 else Suc x, r))"
  using assms
proof (induction d fs rest rule: field_state.induct)
  case (2 d fs rest)
  then show ?case by simp
qed auto

lemma get_field_absent: "get_field p zero (field_state (Suc 0) (None # fs) rest) = Some (zero, field_state (Suc 0) fs rest)"
proof -
  obtain x r where s: "field_state (Suc 0) fs rest = (x, r)" by fastforce
  have "field_state (Suc (Suc 0)) fs rest = (if x = 0 then 0 else Suc x, r)"
    using field_state_Suc [of "Suc 0" fs rest] s by simp
  then show ?thesis using s by (simp add: get_field_def)
qed

lemma get_field_present:
  assumes "\<And>r. p (v @ r) = Some (x, r)" and "length fs < 100"
  shows "get_field p zero (field_state (Suc 0) (Some v # fs) rest) = Some (x, field_state (Suc 0) fs rest)"
  using assms get_uint_fields [of "Suc 0" fs rest] by (cases "field_state (Suc 0) fs rest") (simp add: get_field_def)

definition int_field :: "int \<Rightarrow> byte list option" where
  "int_field i = (if i = 0 then None else Some (put_int i))"

definition string_field :: "string \<Rightarrow> byte list option" where
  "string_field s = (if s = '''' then None else Some (put_string s))"

lemma get_int_field:
  "in_int64 i \<Longrightarrow> length fs < 100 \<Longrightarrow>
   get_field get_int 0 (field_state (Suc 0) (int_field i # fs) rest) = Some (i, field_state (Suc 0) fs rest)"
  unfolding int_field_def using get_field_absent get_field_present [of get_int "put_int i" i fs] get_int_put_int
  by (auto simp del: field_state.simps)

lemma get_string_field:
  "length s < 2 ^ 63 \<Longrightarrow> length fs < 100 \<Longrightarrow>
   get_field get_string '''' (field_state (Suc 0) (string_field s # fs) rest) = Some (s, field_state (Suc 0) fs rest)"
  unfolding string_field_def
  using get_field_absent get_field_present [of get_string "put_string s" s fs] get_string_put_string
  by (auto simp del: field_state.simps)

subsection \<open>Records of the log\<close>

definition put_entry :: "LogEntry \<Rightarrow> byte list" where
  "put_entry e = put_fields (Suc 0) [int_field (Index e), int_field (Term e), string_field (Operation e),
     string_field (Key e), string_field (Value e)]"

definition get_struct_end :: "'a \<Rightarrow> nat \<times> byte list \<Rightarrow> ('a \<times> byte list) option" where
  "get_struct_end v st = (if fst st = 0 then Some (v, snd st) else None)"

definition get_entry :: "byte list \<Rightarrow> (LogEntry \<times> byte list) option" where
  "get_entry bs = do {
     s0 \<leftarrow> get_uint bs;
     (i, s1) \<leftarrow> get_field get_int 0 s0;
     (t, s2) \<leftarrow> get_field get_int 0 s1;
     (op, s3) \<leftarrow> get_field get_string '''' s2;
     (k, s4) \<leftarrow> get_field get_string '''' s3;
     (v, s5) \<leftarrow> get_field get_string '''' s4;
     get_struct_end \<lparr>Index = i, Term = t, Operation = op, Key = k, Value = v\<rparr> s5
   }"

definition entry_encodable :: "LogEntry \<Rightarrow> bool" where
  "entry_encodable e \<longleftrightarrow> in_int64 (Index e) \<and> in_int64 (Term e) \<and> length (Operation e) < 2 ^ 63 \<and>
     length (Key e) < 2 ^ 63 \<and> length (Value e) < 2 ^ 63"

lemma get_entry_put_entry:
  assumes "entry_encodable e"
  shows "get_entry (put_entry e @ rest) = Some (e, rest)"
  using assms unfolding get_entry_def put_entry_def entry_encodable_def
  by (subst get_uint_fields) (simp_all add: get_int_field get_string_field get_struct_end_def del: field_state.simps(2,3))

definition get_entry_pointer :: "byte list \<Rightarrow> (LogEntry option \<times> byte list) option" where
  "get_entry_pointer bs = (case get_entry bs of None \<Rightarrow> None | Some (e, rest) \<Rightarrow> Some (Some e, rest))"

definition entry_field :: "LogEntry option \<Rightarrow> byte list option" where
  "entry_field p = (case p of None \<Rightarrow> None | Some e \<Rightarrow> Some (put_entry e))"

lemma get_entry_field:
  assumes "\<And>e. p = Some e \<Longrightarrow> entry_encodable e" and "length fs < 100"
  shows "get_field get_entry_pointer None (field_state (Suc 0) (entry_field p # fs) rest) = Some (p, field_state (Suc 0) fs rest)"
proof (cases p)
  case None
  then show ?thesis using get_field_absent by (simp add: entry_field_def del: field_state.simps)
next
  case (Some e)
  have "get_entry_pointer (put_entry e @ r) = Some (Some e, r)" for r
    using get_entry_put_entry [OF assms(1) [OF Some]] by (simp add: get_entry_pointer_def)
  from get_field_present [OF this assms(2)] show ?thesis
    using Some by (simp add: entry_field_def del: field_state.simps)
qed

definition put_record :: "WALRecord \<Rightarrow> byte list" where
  "put_record r = put_fields (Suc 0) [string_field (rec_Type r), int_field (rec_Term r),
     string_field (rec_VotedFor r), int_field (rec_CommitIndex r), entry_field (rec_Entry r)]"

definition get_record :: "byte list \<Rightarrow> (WALRecord \<times> byte list) option" where
  "get_record bs = do {
     s0 \<leftarrow> get_uint bs;
     (ty, s1) \<leftarrow> get_field get_string '''' s0;
     (t, s2) \<leftarrow> get_field get_int 0 s1;
     (v, s3) \<leftarrow> get_field get_string '''' s2;
     (c, s4) \<leftarrow> get_field get_int 0 s3;
     (e, s5) \<leftarrow> get_field get_entry_pointer None s4;
     get_struct_end \<lparr>rec_Type = ty, rec_Term = t, rec_VotedFor = v, rec_CommitIndex = c, rec_Entry = e\<rparr> s5
   }"

definition record_encodable :: "WALRecord \<Rightarrow> bool" where
  "record_encodable r \<longleftrightarrow> length (rec_Type r) < 2 ^ 63 \<and> in_int64 (rec_Term r) \<and>
     length (rec_VotedFor r) < 2 ^ 63 \<and> in_int64 (rec_CommitIndex r) \<and>
     (case rec_Entry r of None \<Rightarrow> True | Some e \<Rightarrow> entry_encodable e)"

lemma get_record_put_record:
  assumes "record_encodable r"
  shows "get_record (put_record r @ rest) = Some (r, rest)"
proof -
  have "\<And>e. rec_Entry r = Some e \<Longrightarrow> entry_encodable e" using assms by (simp add: record_encodable_def)
  then show ?thesis
    using assms unfolding get_record_def put_record_def record_encodable_def
    by (subst get_uint_fields)
      (simp_all add: get_int_field get_string_field get_entry_field get_struct_end_def del: field_state.simps(2,3))
qed

subsection \<open>Messages\<close>

text \<open>A value message: its length, the number of the type, the value. The encoder refuses messages
  of 8 GiB or more.\<close>

definition value_message :: "int \<Rightarrow> WALRecord \<Rightarrow> byte list" where
  "value_message ty r = put_int ty @ put_record r"

definition gob_encode :: "byte list \<Rightarrow> int \<Rightarrow> gob_enc" where
  "gob_encode types ty r =
     (let m = value_message ty r
      in if record_encodable r \<and> in_int64 ty \<and> length m < 2 ^ 33 then Some (types @ put_uint (length m) @ m)
         else None)"

definition gob_decode :: "byte list \<Rightarrow> int \<Rightarrow> gob_dec" where
  "gob_decode types ty bs =
     (if take (length types) bs \<noteq> types then None
      else do {
        (n, m) \<leftarrow> get_uint (drop (length types) bs);
        (t, body) \<leftarrow> get_int m;
        (r, rest) \<leftarrow> get_record body;
        if length m < n \<or> t \<noteq> ty then None else Some r
      })"

lemma gob_decode_encode: "gob_encode types ty r = Some bs \<Longrightarrow> gob_decode types ty bs = Some r"
  using get_record_put_record [of r "[]"]
  by (auto simp: gob_encode_def gob_decode_def Let_def value_message_def get_put_uint get_int_put_int
      split: if_splits)

interpretation gob_wal: gob "gob_encode types ty" "gob_decode types ty" for types ty
  by unfold_locales (rule gob_decode_encode)

end
