(* ===== verification/Wal_Recovery.thy ===== *)
theory Wal_Recovery
  imports Gob Durability
begin

text \<open>
  The write-ahead log over several runs of the process: what a new process reads of what earlier
  ones appended, when all went well, when a process died in the middle of an append, and when bytes
  of the file were damaged. \<close>

text \<open>One run: open the file, append records. The result is what is on disk.\<close>

definition wal_session :: "gob_enc \<Rightarrow> WALRecord list \<Rightarrow> byte list \<Rightarrow> byte list" where
  "wal_session enc rs disk = w_disk (fold (wal_add enc) rs (projr (OpenWAL True True disk)))"

text \<open>The next run: open and read.\<close>

definition wal_reopen :: "gob_dec \<Rightarrow> byte list \<Rightarrow> WALRecord list \<times> wal_error option" where
  "wal_reopen dec disk = fst (WAL_ReadAll dec True None (projr (OpenWAL True True disk)))"

lemma wal_add_end:
  assumes "w_open w" and "w_off w = length (w_disk w)" and "fits enc r"
  shows "wal_add enc r w = w\<lparr>w_disk := w_disk w @ frame enc r, w_off := length (w_disk w @ frame enc r)\<rparr>"
proof -
  obtain bs where "enc r = Some bs" using assms(3) by (auto simp: fits_def split: option.splits)
  then show ?thesis using WAL_Append_end [OF assms(1,2)] by (simp add: wal_add_def)
qed

lemma fold_wal_add:
  "w_open w \<Longrightarrow> w_off w = length (w_disk w) \<Longrightarrow> list_all (fits enc) rs \<Longrightarrow>
   w_disk (fold (wal_add enc) rs w) = w_disk w @ frames enc rs"
  by (induction rs arbitrary: w) (simp_all add: wal_add_end)

lemma wal_session_disk: "list_all (fits enc) rs \<Longrightarrow> wal_session enc rs disk = disk @ frames enc rs"
  by (simp add: wal_session_def OpenWAL_def fold_wal_add)

lemma wal_reopen_loop:
  "read_loop dec None disk 0 [] = (rs, None) \<Longrightarrow> wal_reopen dec disk = (rs, None)"
  by (simp add: wal_reopen_def OpenWAL_def WAL_ReadAll_def)

subsection \<open>Properties\<close>

definition sample_types :: "byte list" where
  "sample_types = [3, 4, 0, 255]"

abbreviation sample_enc :: gob_enc where
  "sample_enc \<equiv> gob_encode sample_types 65"

abbreviation sample_dec :: gob_dec where
  "sample_dec \<equiv> gob_decode sample_types 65"

lemma sample_codec: "gob_codec sample_enc sample_dec"
  by (rule gob_wal.codec)

lemma be_bytes_130 [simp]: "be_bytes 130 = [130]"
  by (simp add: be_bytes.simps)

lemmas encode_defs =
  gob_encode_def value_message_def put_record_def record_encodable_def string_field_def int_field_def
  entry_field_def put_string_def put_int_def put_uint_def in_int64_def Let_def sample_types_def
  state_record_def commit_record_def RecordState_def RecordCommit_def

lemma sample_fits:
  "fits sample_enc (state_record 1 ''n1'')" "fits sample_enc (commit_record 0)"
  "fits sample_enc (state_record 1 '''')" "fits sample_enc (state_record 1 ''n2'')"
  by (simp_all add: fits_def encode_defs)

text \<open>
  C18: the log survives restarts. What two runs of the process appended to a new file is what the
  third reads, in the order of the appends and without an error, for every codec with which decoding
  gives back what was encoded.
\<close>

theorem wal_roundtrip:
  assumes "gob_codec enc dec" and "list_all (fits enc) rs1" and "list_all (fits enc) rs2"
  shows "wal_reopen dec (wal_session enc rs2 (wal_session enc rs1 [])) = (rs1 @ rs2, None)"
proof -
  have "wal_session enc rs2 (wal_session enc rs1 []) = frames enc (rs1 @ rs2)"
    using assms(2,3) by (simp add: wal_session_disk)
  moreover have "read_loop dec None (frames enc (rs1 @ rs2)) 0 [] = (rs1 @ rs2, None)"
    using assms(2,3) by (intro read_all_clean [OF assms(1)]) simp
  ultimately show ?thesis using wal_reopen_loop by simp
qed

theorem wal_roundtrip_witness:
  "wal_reopen sample_dec (wal_session sample_enc [commit_record 0] (wal_session sample_enc [state_record 1 ''n1''] []))
     = ([state_record 1 ''n1'', commit_record 0], None)"
  using wal_roundtrip [OF sample_codec, of "[state_record 1 ''n1'']" "[commit_record 0]"] sample_fits by simp

text \<open>
  C19: a crash during an append. Wherever the writes of one \<open>Append\<close> stop, the next process
  reads all earlier records and either the whole new record or nothing of it; if \<open>Append\<close> reported
  success, the record is there.
\<close>

theorem wal_append_crash_safe:
  assumes "gob_codec enc dec" and "list_all (fits enc) rs" and "fits enc r"
    and "OpenWAL True True (wal_session enc rs []) = Inr w" and "WAL_Append enc f r w = (res, w')"
  shows "(wal_reopen dec (w_disk w') = (rs, None) \<or> wal_reopen dec (w_disk w') = (rs @ [r], None)) \<and>
    (res = None \<longrightarrow> wal_reopen dec (w_disk w') = (rs @ [r], None))"
proof -
  have w: "w_open w" "w_off w = length (w_disk w)" "w_disk w = frames enc rs"
    using assms(2,4) by (auto simp: OpenWAL_def wal_session_disk)
  obtain bs where bs: "enc r = Some bs" by (rule gob_codecE [OF assms(1,3)])
  obtain p where p: "prefix p (frame enc r)" "w_disk w' = frames enc rs @ p" "res = None \<longrightarrow> p = frame enc r"
    using WAL_Append_prefix [of w enc r bs f] w bs assms(5) by auto
  show ?thesis
  proof (cases "p = frame enc r")
    case True
    have "read_loop dec None (frames enc (rs @ [r])) 0 [] = (rs @ [r], None)"
      using assms(2,3) by (intro read_all_clean [OF assms(1)]) simp
    then show ?thesis using True p(2) wal_reopen_loop by simp
  next
    case False
    then have "strict_prefix p (frame enc r)" using p(1) by (simp add: strict_prefix_def)
    from read_all_torn [OF assms(1-3) this] show ?thesis
      using False p(2,3) wal_reopen_loop by simp
  qed
qed

theorem wal_append_crash_safe_witness:
  "wal_reopen sample_dec (w_disk (snd (WAL_Append sample_enc (no_faults\<lparr>payload_fault := Some 3\<rparr>) (commit_record 0)
      (projr (OpenWAL True True (wal_session sample_enc [state_record 1 ''n1''] []))))))
   \<in> {([state_record 1 ''n1''], None), ([state_record 1 ''n1'', commit_record 0], None)}"
proof -
  have "OpenWAL True True (wal_session sample_enc [state_record 1 ''n1''] []) =
      Inr (projr (OpenWAL True True (wal_session sample_enc [state_record 1 ''n1''] [])))"
    by (simp add: OpenWAL_def)
  from wal_append_crash_safe [OF sample_codec _ sample_fits(2) this prod.collapse [symmetric]] show ?thesis
    using sample_fits(1) by auto
qed

text \<open>
  C20: damage is detected. When one byte of a record's payload has changed on disk, \<open>ReadAll\<close>
  returns the records before it and none of the damaged or later ones, without an error.
\<close>

theorem wal_detects_damage:
  assumes "gob_codec enc dec" and "list_all (fits enc) rs" and "fits enc r" and "enc r = Some bs"
    and "i < length bs" and "b \<noteq> bs ! i"
  shows "wal_reopen dec (frames enc rs @ wal_header bs @ bs[i := b] @ rest) = (rs, None)"
proof -
  have "ChecksumIEEE (bs[i := b]) \<noteq> ChecksumIEEE bs"
  proof -
    have "bs = take i bs @ bs ! i # drop (Suc i) bs" using assms(5) by (rule id_take_nth_drop)
    moreover have "bs[i := b] = take i bs @ b # drop (Suc i) bs" using assms(5) by (rule upd_conv_take_nth_drop)
    ultimately show ?thesis using assms(6) checksum_single_byte by metis
  qed
  moreover have "length bs < 2 ^ 32" using assms(3,4) by (simp add: fits_def)
  ultimately show ?thesis
    by (intro wal_reopen_loop read_all_corrupt [OF assms(1,2)]) simp_all
qed

theorem wal_detects_damage_witness:
  "wal_reopen sample_dec (frames sample_enc [state_record 1 ''n1''] @ wal_header (the (sample_enc (commit_record 0))) @
     (the (sample_enc (commit_record 0)))[0 := 9] @ []) = ([state_record 1 ''n1''], None)"
proof -
  have e: "sample_enc (commit_record 0) = Some (the (sample_enc (commit_record 0)))"
    by (simp add: encode_defs)
  have b: "0 < length (the (sample_enc (commit_record 0)))" "9 \<noteq> the (sample_enc (commit_record 0)) ! 0"
    by (simp_all add: encode_defs)
  show ?thesis
    using sample_fits(1) by (intro wal_detects_damage [OF sample_codec _ sample_fits(2) e b]) simp
qed



end
