(* ===== verification/Go_Strings.thy ===== *)
theory Go_Strings
  imports Prelude
begin

text \<open>
  The functions of Go's \<^verbatim>\<open>strings\<close>, \<^verbatim>\<open>strconv\<close> and \<^verbatim>\<open>bufio\<close> packages that the text protocol and the
  control tool use, on strings as lists of bytes. White space is that of Unicode in its UTF-8
  encoding. The lemmas are the round trips of splitting with joining and of parsing with printing.
\<close>

subsection \<open>White space\<close>

definition space_runes :: "string list" where
  "space_runes =
     [[CHR 0x09], [CHR 0x0A], [CHR 0x0B], [CHR 0x0C], [CHR 0x0D], [CHR 0x20],
      [CHR 0xC2, CHR 0x85], [CHR 0xC2, CHR 0xA0], [CHR 0xE1, CHR 0x9A, CHR 0x80],
      [CHR 0xE2, CHR 0x80, CHR 0x80], [CHR 0xE2, CHR 0x80, CHR 0x81], [CHR 0xE2, CHR 0x80, CHR 0x82],
      [CHR 0xE2, CHR 0x80, CHR 0x83], [CHR 0xE2, CHR 0x80, CHR 0x84], [CHR 0xE2, CHR 0x80, CHR 0x85],
      [CHR 0xE2, CHR 0x80, CHR 0x86], [CHR 0xE2, CHR 0x80, CHR 0x87], [CHR 0xE2, CHR 0x80, CHR 0x88],
      [CHR 0xE2, CHR 0x80, CHR 0x89], [CHR 0xE2, CHR 0x80, CHR 0x8A], [CHR 0xE2, CHR 0x80, CHR 0xA8],
      [CHR 0xE2, CHR 0x80, CHR 0xA9], [CHR 0xE2, CHR 0x80, CHR 0xAF], [CHR 0xE2, CHR 0x81, CHR 0x9F],
      [CHR 0xE3, CHR 0x80, CHR 0x80]]"

text \<open>The length of the white space rune a string starts or ends with, 0 if there is none.\<close>

definition space_len :: "string \<Rightarrow> nat" where
  "space_len s = (case filter (\<lambda>r. prefix r s) space_runes of [] \<Rightarrow> 0 | r # _ \<Rightarrow> length r)"

definition space_len_end :: "string \<Rightarrow> nat" where
  "space_len_end s = (case filter (\<lambda>r. suffix r s) space_runes of [] \<Rightarrow> 0 | r # _ \<Rightarrow> length r)"

function trim_left :: "string \<Rightarrow> string" where
  "trim_left s = (if space_len s = 0 \<or> s = [] then s else trim_left (drop (space_len s) s))"
  by pat_completeness auto
termination
  by (relation "measure length") auto

function trim_right :: "string \<Rightarrow> string" where
  "trim_right s =
     (if space_len_end s = 0 \<or> s = [] then s else trim_right (take (length s - space_len_end s) s))"
  by pat_completeness auto
termination
  by (relation "measure length") auto

declare trim_left.simps [simp del] trim_right.simps [simp del]

definition TrimSpace :: "string \<Rightarrow> string" where
  "TrimSpace s = trim_right (trim_left s)"

text \<open>\<open>w\<close> is the word read so far.\<close>

function fields_from :: "string \<Rightarrow> string \<Rightarrow> string list" where
  "fields_from w [] = (if w = [] then [] else [w])"
| "fields_from w (c # cs) =
     (if space_len (c # cs) = 0 then fields_from (w @ [c]) cs
      else (if w = [] then [] else [w]) @ fields_from [] (drop (space_len (c # cs) - 1) cs))"
  by pat_completeness auto
termination
  by (relation "measure (\<lambda>(w, s). length s)") auto

definition Fields :: "string \<Rightarrow> string list" where
  "Fields s = fields_from [] s"

subsection \<open>Searching and splitting\<close>

definition HasPrefix :: "string \<Rightarrow> string \<Rightarrow> bool" where
  "HasPrefix s p \<longleftrightarrow> prefix p s"

definition HasSuffix :: "string \<Rightarrow> string \<Rightarrow> bool" where
  "HasSuffix s p \<longleftrightarrow> suffix p s"

definition TrimPrefix :: "string \<Rightarrow> string \<Rightarrow> string" where
  "TrimPrefix s p = (if prefix p s then drop (length p) s else s)"

fun index_str :: "string \<Rightarrow> string \<Rightarrow> nat option" where
  "index_str sep [] = (if sep = [] then Some 0 else None)"
| "index_str sep (c # cs) = (if prefix sep (c # cs) then Some 0 else map_option Suc (index_str sep cs))"

definition Contains :: "string \<Rightarrow> string \<Rightarrow> bool" where
  "Contains s p \<longleftrightarrow> index_str p s \<noteq> None"

text \<open>\<open>SplitN s sep (n + 1)\<close> makes at most \<open>n\<close> cuts.\<close>

fun split_cuts :: "nat \<Rightarrow> string \<Rightarrow> string \<Rightarrow> string list" where
  "split_cuts 0 sep s = [s]"
| "split_cuts (Suc n) sep s =
     (case index_str sep s of
        None \<Rightarrow> [s]
      | Some i \<Rightarrow> take i s # split_cuts n sep (drop (i + length sep) s))"

definition SplitN :: "string \<Rightarrow> string \<Rightarrow> nat \<Rightarrow> string list" where
  "SplitN s sep n = split_cuts (n - 1) sep s"

text \<open>Without a limit; a separator that is not empty occurs at most once per byte.\<close>

definition Split :: "string \<Rightarrow> string \<Rightarrow> string list" where
  "Split s sep = split_cuts (length s) sep s"

fun Join :: "string list \<Rightarrow> string \<Rightarrow> string" where
  "Join [] sep = []"
| "Join [x] sep = x"
| "Join (x # y # xs) sep = x @ sep @ Join (y # xs) sep"

text \<open>
  \<^verbatim>\<open>strings.ToUpper\<close>, as far as the program uses it: the result is compared with words of capital
  letters. Apart from the letters a to z only the long s and the dotless i, two bytes each, have a
  capital among A to Z. Other bytes that are not ASCII are kept here; no such string is equal to a
  word of capital letters, before or after the conversion.
\<close>

fun ToUpper :: "string \<Rightarrow> string" where
  "ToUpper [] = []"
| "ToUpper (c # cs) =
     (case cs of
        d # ds \<Rightarrow>
          if c = CHR 0xC5 \<and> d = CHR 0xBF then CHR ''S'' # ToUpper ds
          else if c = CHR 0xC4 \<and> d = CHR 0xB1 then CHR ''I'' # ToUpper ds
          else (if 97 \<le> (of_char c :: nat) \<and> (of_char c :: nat) \<le> 122 then char_of (of_char c - 32 :: nat) else c) # ToUpper cs
      | [] \<Rightarrow> [if 97 \<le> (of_char c :: nat) \<and> (of_char c :: nat) \<le> 122 then char_of (of_char c - 32 :: nat) else c])"

text \<open>
  \<^verbatim>\<open>strings.ToLower\<close> in the same way: only the capital I with a dot and the Kelvin sign are outside
  ASCII and have a small letter among a to z.
\<close>

definition lower_char :: "char \<Rightarrow> char" where
  "lower_char c = (if 65 \<le> (of_char c :: nat) \<and> (of_char c :: nat) \<le> 90 then char_of (of_char c + 32 :: nat) else c)"

fun ToLower :: "string \<Rightarrow> string" where
  "ToLower [] = []"
| "ToLower (c # cs) =
     (case cs of
        d # ds \<Rightarrow>
          if c = CHR 0xC4 \<and> d = CHR 0xB0 then CHR ''i'' # ToLower ds
          else (case ds of
                  e # es \<Rightarrow> if c = CHR 0xE2 \<and> d = CHR 0x84 \<and> e = CHR 0xAA then CHR ''k'' # ToLower es
                           else lower_char c # ToLower cs
                | [] \<Rightarrow> lower_char c # ToLower cs)
      | [] \<Rightarrow> [lower_char c])"

subsection \<open>Numbers\<close>

definition digit_char :: "nat \<Rightarrow> char" where
  "digit_char d = char_of (48 + d)"

fun nat_string :: "nat \<Rightarrow> string" where
  "nat_string n = (if n < 10 then [digit_char n] else nat_string (n div 10) @ [digit_char (n mod 10)])"

declare nat_string.simps [simp del]

text \<open>\<^verbatim>\<open>%d\<close> and \<^verbatim>\<open>strconv.Itoa\<close>.\<close>

definition Itoa :: "int \<Rightarrow> string" where
  "Itoa i = (if i < 0 then ''-'' @ nat_string (nat (- i)) else nat_string (nat i))"

definition is_digit :: "char \<Rightarrow> bool" where
  "is_digit c \<longleftrightarrow> 48 \<le> (of_char c :: nat) \<and> (of_char c :: nat) \<le> 57"

definition digits_val :: "string \<Rightarrow> nat" where
  "digits_val s = foldl (\<lambda>a c. a * 10 + (of_char c - 48)) 0 s"

text \<open>\<^verbatim>\<open>strconv.Atoi\<close> with the error as a flag: the value is 0 on a syntax error and the nearest int
  when it is out of range.\<close>

definition Atoi :: "string \<Rightarrow> int \<times> bool" where
  "Atoi s =
     (let neg = (s \<noteq> [] \<and> hd s = CHR ''-'');
          body = (if s \<noteq> [] \<and> (hd s = CHR ''-'' \<or> hd s = CHR ''+'') then tl s else s)
      in if body = [] \<or> \<not> list_all is_digit body then (0, False)
         else let v = (if neg then - int (digits_val body) else int (digits_val body))
              in if v > max_int then (max_int, False)
                 else if v < - (2 ^ 63) then (- (2 ^ 63), False)
                 else (v, True))"

subsection \<open>Lines\<close>

text \<open>
  The lines a \<^verbatim>\<open>bufio.Scanner\<close> returns for everything a peer sends: without the newline and one
  carriage return before it, the last line also without a newline. A line that does not fit the
  scanner's buffer of 64 KiB together with its newline ends the scan.
\<close>

definition drop_cr :: "string \<Rightarrow> string" where
  "drop_cr s = (if s \<noteq> [] \<and> last s = CHR 0x0D then butlast s else s)"

function scan_lines :: "string \<Rightarrow> string list" where
  "scan_lines s =
     (if s = [] then []
      else let line = takeWhile (\<lambda>c. c \<noteq> CHR 0x0A) s; rest = dropWhile (\<lambda>c. c \<noteq> CHR 0x0A) s
           in if length line \<ge> 65536 then []
              else drop_cr line # scan_lines (drop 1 rest))"
  by pat_completeness auto
termination
proof (relation "measure length", goal_cases)
  case (2 s line rest)
  have "length rest \<le> length s" using 2 by (simp add: length_dropWhile_le)
  moreover have "0 < length s" using 2(1) by simp
  ultimately have "length (drop 1 rest) < length s" unfolding length_drop by linarith
  then show ?case by simp
qed simp

declare scan_lines.simps [simp del]

subsection \<open>Lemmas\<close>

lemma index_str_Some:
  "index_str sep s = Some i \<Longrightarrow> i + length sep \<le> length s \<and> take (length sep) (drop i s) = sep"
proof (induction s arbitrary: i)
  case Nil
  then show ?case by (simp split: if_splits)
next
  case (Cons c cs)
  show ?case
  proof (cases "prefix sep (c # cs)")
    case True
    then show ?thesis using Cons.prems by (simp add: prefix_iff_take)
  next
    case False
    then obtain j where "index_str sep cs = Some j" "i = Suc j" using Cons.prems by auto
    then show ?thesis using Cons.IH [of j] by simp
  qed
qed

text \<open>Joining the parts of a split gives the string back.\<close>

lemma Join_Cons: "xs \<noteq> [] \<Longrightarrow> Join (x # xs) sep = x @ sep @ Join xs sep"
  by (cases xs) simp_all

lemma split_cuts_nonempty [simp]: "split_cuts n sep s \<noteq> []"
  by (cases n) (auto split: option.splits)

lemma Join_split_cuts: "Join (split_cuts n sep s) sep = s"
proof (induction n arbitrary: s)
  case (Suc n)
  show ?case
  proof (cases "index_str sep s")
    case (Some i)
    note i = index_str_Some [OF Some]
    have "s = take i s @ drop i s" by simp
    also have "drop i s = take (length sep) (drop i s) @ drop (length sep) (drop i s)"
      by (rule append_take_drop_id [symmetric])
    also have "\<dots> = sep @ drop (i + length sep) s" using i by (simp add: add.commute)
    finally show ?thesis using Some Suc.IH by (simp add: Join_Cons)
  qed simp
qed simp

text \<open>Where a separator starts when none starts earlier.\<close>

definition no_sep :: "string \<Rightarrow> string \<Rightarrow> string \<Rightarrow> bool" where
  "no_sep sep x rest \<longleftrightarrow> (\<forall>i < length x. \<not> prefix sep (drop i (x @ rest)))"

lemma index_str_first:
  assumes "no_sep sep x (sep @ rest)"
  shows "index_str sep (x @ sep @ rest) = Some (length x)"
  using assms
proof (induction x)
  case Nil
  have "prefix sep (sep @ rest)" by simp
  then show ?case by (cases "sep @ rest") simp_all
next
  case (Cons c x)
  have "\<not> prefix sep ((c # x) @ sep @ rest)" using Cons.prems by (force simp: no_sep_def)
  moreover have "no_sep sep x (sep @ rest)"
    using Cons.prems by (fastforce simp: no_sep_def)
  ultimately show ?case using Cons.IH by simp
qed

lemma index_str_none:
  assumes "sep \<noteq> []" and "no_sep sep x []"
  shows "index_str sep x = None"
  using assms(2)
proof (induction x)
  case (Cons c x)
  have "\<not> prefix sep (c # x)" using Cons.prems by (force simp: no_sep_def)
  moreover have "no_sep sep x []" using Cons.prems by (fastforce simp: no_sep_def)
  ultimately show ?case using Cons.IH by simp
qed (use assms(1) in simp)

lemma no_sep_char: "c \<notin> set x \<Longrightarrow> no_sep (c # cs) x rest"
  unfolding no_sep_def
proof (intro allI impI notI)
  fix i assume c: "c \<notin> set x" and i: "i < length x" and p: "prefix (c # cs) (drop i (x @ rest))"
  have "drop i (x @ rest) = x ! i # drop (Suc i) (x @ rest)"
    using i by (simp add: Cons_nth_drop_Suc [symmetric] nth_append)
  then show False using p c i by (metis Cons_prefix_Cons nth_mem)
qed

lemma SplitN_char_2:
  assumes "c \<notin> set x"
  shows "SplitN (x @ [c] @ y) [c] 2 = [x, y]"
  using index_str_first [OF no_sep_char [OF assms], of "[]" y] by (simp add: SplitN_def numeral_2_eq_2)

lemma SplitN_char_none: "c \<notin> set x \<Longrightarrow> SplitN x [c] n = [x]"
  using index_str_none [OF _ no_sep_char, of c "[]" x] by (cases "n - 1") (simp_all add: SplitN_def)

lemma SplitN_char_3:
  assumes "c \<notin> set x" and "c \<notin> set y"
  shows "SplitN (x @ [c] @ y @ [c] @ z) [c] 3 = [x, y, z]"
  using index_str_first [OF no_sep_char [OF assms(1)], of "[]" "y @ [c] @ z"]
    index_str_first [OF no_sep_char [OF assms(2)], of "[]" z]
  by (simp add: SplitN_def numeral_3_eq_3)

subsection \<open>Numbers round-trip\<close>

lemma of_char_digit: "d < 10 \<Longrightarrow> (of_char (digit_char d) :: nat) = 48 + d"
  by (simp add: digit_char_def)

lemma nat_string_digits: "list_all is_digit (nat_string n) \<and> nat_string n \<noteq> []"
proof (induction n rule: nat_string.induct)
  case (1 n)
  have "is_digit (digit_char d)" if "d < 10" for d
    using that by (simp add: is_digit_def of_char_digit)
  then show ?case using 1 by (auto simp: nat_string.simps [of n])
qed

lemma digits_val_nat_string: "digits_val (nat_string n) = n"
proof (induction n rule: nat_string.induct)
  case (1 n)
  show ?case
  proof (cases "n < 10")
    case True
    then show ?thesis by (simp add: nat_string.simps [of n] digits_val_def of_char_digit)
  next
    case False
    have "digits_val (nat_string n) = digits_val (nat_string (n div 10)) * 10 + n mod 10"
      using False by (simp add: nat_string.simps [of n] digits_val_def of_char_digit)
    then show ?thesis using 1 [OF False] by simp
  qed
qed

lemma hd_nat_string: "is_digit (hd (nat_string n))"
  using nat_string_digits [of n] by (cases "nat_string n") auto

lemma Atoi_Itoa:
  assumes "- (2 ^ 63) \<le> i" and "i \<le> max_int"
  shows "Atoi (Itoa i) = (i, True)"
proof -
  have sign: "hd (nat_string n) \<noteq> CHR ''-''" "hd (nat_string n) \<noteq> CHR ''+''" for n
    using hd_nat_string [of n] by (auto simp: is_digit_def)
  show ?thesis
    using assms nat_string_digits sign
    by (auto simp: Atoi_def Itoa_def Let_def digits_val_nat_string)
qed

subsection \<open>Visible characters\<close>

text \<open>The printable characters of ASCII without the space start no white space.\<close>

definition visible :: "char \<Rightarrow> bool" where
  "visible c \<longleftrightarrow> 33 \<le> (of_char c :: nat) \<and> (of_char c :: nat) \<le> 126"

lemma space_runes_visible: "list_all (\<lambda>r. r \<noteq> [] \<and> \<not> visible (hd r) \<and> \<not> visible (last r)) space_runes"
  by (simp add: space_runes_def visible_def)

lemma space_len_visible: "visible c \<Longrightarrow> space_len (c # cs) = 0"
proof -
  assume v: "visible c"
  have "\<not> prefix r (c # cs)" if "r \<in> set space_runes" for r
  proof -
    have "r \<noteq> []" "\<not> visible (hd r)" using space_runes_visible that by (simp_all add: list_all_iff)
    then show ?thesis using v by (cases r) auto
  qed
  then have "filter (\<lambda>r. prefix r (c # cs)) space_runes = []" by (simp add: filter_empty_conv)
  then show ?thesis by (simp add: space_len_def)
qed

lemma space_len_end_visible: "s \<noteq> [] \<Longrightarrow> visible (last s) \<Longrightarrow> space_len_end s = 0"
proof -
  assume s: "s \<noteq> []" "visible (last s)"
  have "\<not> suffix r s" if "r \<in> set space_runes" for r
  proof
    assume "suffix r s"
    moreover have r: "r \<noteq> []" "\<not> visible (last r)" using space_runes_visible that by (simp_all add: list_all_iff)
    ultimately have "last r = last s" by (auto simp: suffix_def)
    then show False using s(2) r(2) by simp
  qed
  then have "filter (\<lambda>r. suffix r s) space_runes = []" by (simp add: filter_empty_conv)
  then show ?thesis by (simp add: space_len_end_def)
qed

lemma space_len_blank: "space_len (CHR '' '' # cs) = 1"
  by (simp add: space_len_def space_runes_def)

lemma trim_left_visible: "visible c \<Longrightarrow> trim_left (c # cs) = c # cs"
  by (simp add: trim_left.simps [of "c # cs"] space_len_visible)

lemma TrimSpace_visible:
  assumes "s \<noteq> []" and "visible (hd s)" and "visible (last s)"
  shows "TrimSpace s = s"
proof -
  have "trim_left s = s" using assms(1,2) trim_left_visible [of "hd s" "tl s"] by simp
  then show ?thesis
    using assms space_len_end_visible [of s] by (simp add: TrimSpace_def trim_right.simps [of s])
qed

lemma TrimSpace_Nil [simp]: "TrimSpace [] = []"
  by (simp add: TrimSpace_def trim_left.simps [of "[]"] trim_right.simps [of "[]"])

text \<open>A word of visible characters that contains no white space at its places.\<close>

lemma fields_from_word: "list_all visible x \<Longrightarrow> fields_from w (x @ rest) = fields_from (w @ x) rest"
  by (induction x arbitrary: w) (simp_all add: space_len_visible)

lemma Fields_Join:
  assumes "list_all (\<lambda>w. w \<noteq> [] \<and> list_all visible w) ws"
  shows "Fields (Join ws '' '') = ws"
  unfolding Fields_def using assms
proof (induction ws rule: induct_list012)
  case (2 x)
  then show ?case using fields_from_word [of x "[]" "[]"] by simp
next
  case (3 x y zs)
  then have "fields_from [] (Join (x # y # zs) '' '') = fields_from x (CHR '' '' # Join (y # zs) '' '')"
    using fields_from_word [of x "[]" "'' '' @ Join (y # zs) '' ''"] by simp
  then show ?case using 3 by (simp add: space_len_blank)
qed simp

lemma visible_digit: "is_digit c \<Longrightarrow> visible c"
  by (simp add: is_digit_def visible_def)

lemma visible_Itoa: "list_all visible (Itoa i) \<and> Itoa i \<noteq> []"
proof -
  have "list_all visible (nat_string n)" for n
    using nat_string_digits [of n] visible_digit by (auto simp: list_all_iff)
  then show ?thesis using nat_string_digits by (auto simp: Itoa_def visible_def)
qed

end
