(* ===== verification/Client_Server.thy ===== *)
theory Client_Server
  imports Client_Request Go_Strings
begin

text \<open>
  The text protocol for clients (\<^verbatim>\<open>internal/client/server.go\<close>). \<open>handleClient_line\<close> is what the
  server makes of one line: nothing, a reply, or a proposal whose outcome becomes the reply.
  \<open>handleClient\<close> is a whole connection.

  A command reads the node through accessors that lock the node one after the other, so the node can
  change in between: \<open>reads k\<close> is the node at the \<open>k\<close>-th read. The order in which Go iterates over
  a map is the argument \<open>order\<close>.
\<close>

abbreviation newline :: string where
  "newline \<equiv> [CHR 0x0A]"

datatype client_action = Skip | Reply string | Propose ClientReq

definition status_reply :: "(nat \<Rightarrow> node) \<Rightarrow> string" where
  "status_reply reads =
     ''NODE '' @ ID (reads 0) @ '' ROLE '' @ GetRole (reads 0) @ '' TERM '' @ Itoa (GetTerm (reads 1)) @
     '' COMMIT '' @ Itoa (GetCommit (reads 2)) @ '' APPLIED '' @ Itoa (GetLastApplied (reads 3)) @
     '' LOGLEN '' @ Itoa (len (GetLogEntries (reads 4))) @ newline"

definition leader_reply :: "(nat \<Rightarrow> node) \<Rightarrow> string" where
  "leader_reply reads = ''ROLE '' @ GetRole (reads 0) @ '' TERM '' @ Itoa (GetTerm (reads 1)) @ newline"

definition format_pair :: "string \<times> string \<Rightarrow> string" where
  "format_pair p = fst p @ ''='' @ snd p"

definition keys_reply :: "((string, string) go_map \<Rightarrow> (string, string) go_map) \<Rightarrow> node \<Rightarrow> string" where
  "keys_reply order n =
     (let all = order (GetAllKeys n)
      in if all = [] then ''KEYS (empty)'' @ newline
         else ''KEYS '' @ Join (map format_pair all) '' | '' @ newline)"

definition format_entry :: "LogEntry \<Rightarrow> string" where
  "format_entry e = ''['' @ Itoa (Index e) @ '']T'' @ Itoa (Term e) @ '':'' @ Operation e @ '':'' @ Key e @ ''='' @ Value e"

definition logs_reply :: "node \<Rightarrow> string" where
  "logs_reply n =
     (let entries = GetLogEntries n
      in if entries = [] then ''LOGS (empty)'' @ newline
         else ''LOGS '' @ Join (map format_entry entries) '' | '' @ newline)"

definition get_reply :: "string \<Rightarrow> node \<Rightarrow> string" where
  "get_reply key n =
     (let (val, ok) = GetState key n
      in if ok then ''VALUE '' @ val @ newline else ''ERR NOT_FOUND'' @ newline)"

text \<open>The reply to a proposal, from the error that came over the request's channel.\<close>

definition proposal_reply :: "client_error option \<Rightarrow> string" where
  "proposal_reply res =
     (case res of None \<Rightarrow> ''OK COMMITTED'' @ newline | Some err \<Rightarrow> ''ERR '' @ client_error_string err @ newline)"

definition handleClient_line ::
    "((string, string) go_map \<Rightarrow> (string, string) go_map) \<Rightarrow> nat \<Rightarrow> (nat \<Rightarrow> node) \<Rightarrow> string \<Rightarrow> client_action" where
  "handleClient_line order ch reads text =
     (let line = TrimSpace text
      in if line = '''' then Skip
         else let parts = SplitN line '' '' 3; cmd = ToUpper (parts ! 0)
         in if cmd = ''PING'' then Reply (''PONG'' @ newline)
            else if cmd = ''SET'' then
              (if length parts < 3 then Reply (''ERR INVALID_ARGS'' @ newline)
               else Propose \<lparr>req_Op = OpSet, req_Key = parts ! 1, req_Value = parts ! 2, req_ResCh = ch\<rparr>)
            else if cmd = ''DELETE'' \<or> cmd = ''DEL'' then
              (if length parts < 2 then Reply (''ERR INVALID_ARGS'' @ newline)
               else Propose \<lparr>req_Op = OpDelete, req_Key = parts ! 1, req_Value = '''', req_ResCh = ch\<rparr>)
            else if cmd = ''GET'' then
              (if length parts < 2 then Reply (''ERR INVALID_ARGS'' @ newline)
               else Reply (get_reply (parts ! 1) (reads 0)))
            else if cmd = ''STATUS'' then Reply (status_reply reads)
            else if cmd = ''LEADER'' then Reply (leader_reply reads)
            else if cmd = ''KEYS'' then Reply (keys_reply order (reads 0))
            else if cmd = ''LOGS'' then Reply (logs_reply (reads 0))
            else Reply (''ERR UNKNOWN_CMD'' @ newline))"

text \<open>
  A connection: \<open>reads k\<close> are the reads during the \<open>k\<close>-th line, \<open>outcome k\<close> is what the channel
  of its proposal delivers, and \<open>write_ok k\<close> whether its reply can be written; the result is what
  the client receives.
\<close>

fun serve_lines ::
    "((string, string) go_map \<Rightarrow> (string, string) go_map) \<Rightarrow> (nat \<Rightarrow> nat \<Rightarrow> node) \<Rightarrow>
     (nat \<Rightarrow> client_error option) \<Rightarrow> (nat \<Rightarrow> bool) \<Rightarrow> nat \<Rightarrow> string list \<Rightarrow> string list" where
  "serve_lines order reads outcome write_ok k [] = []"
| "serve_lines order reads outcome write_ok k (text # rest) =
     (case handleClient_line order k (reads k) text of
        Skip \<Rightarrow> serve_lines order reads outcome write_ok (Suc k) rest
      | Reply resp \<Rightarrow>
          if write_ok k then resp # serve_lines order reads outcome write_ok (Suc k) rest else []
      | Propose req \<Rightarrow>
          if write_ok k
          then proposal_reply (outcome k) # serve_lines order reads outcome write_ok (Suc k) rest else [])"

definition handleClient ::
    "((string, string) go_map \<Rightarrow> (string, string) go_map) \<Rightarrow> (nat \<Rightarrow> nat \<Rightarrow> node) \<Rightarrow>
     (nat \<Rightarrow> client_error option) \<Rightarrow> (nat \<Rightarrow> bool) \<Rightarrow> string \<Rightarrow> string list" where
  "handleClient order reads outcome write_ok input =
     serve_lines order reads outcome write_ok 0 (scan_lines input)"

subsection \<open>Commands\<close>

lemma visible_not_blank: "list_all visible w \<Longrightarrow> CHR '' '' \<notin> set w"
  by (auto simp: list_all_iff visible_def)

lemma line_three:
  assumes "c \<noteq> []" and "list_all visible c" and "list_all visible k" and "v \<noteq> []" and "visible (last v)"
  shows "TrimSpace (c @ '' '' @ k @ '' '' @ v) = c @ '' '' @ k @ '' '' @ v"
    and "SplitN (c @ '' '' @ k @ '' '' @ v) '' '' 3 = [c, k, v]"
proof -
  show "TrimSpace (c @ '' '' @ k @ '' '' @ v) = c @ '' '' @ k @ '' '' @ v"
    using assms by (intro TrimSpace_visible) (cases c; simp)+
  show "SplitN (c @ '' '' @ k @ '' '' @ v) '' '' 3 = [c, k, v]"
    using assms(2,3) visible_not_blank by (intro SplitN_char_3) auto
qed

lemma line_two:
  assumes "c \<noteq> []" and "list_all visible c" and "list_all visible k" and "k \<noteq> []"
  shows "TrimSpace (c @ '' '' @ k) = c @ '' '' @ k" and "SplitN (c @ '' '' @ k) '' '' 3 = [c, k]"
proof -
  have "visible (last k)" using assms(3,4) by (simp add: list_all_iff)
  then show "TrimSpace (c @ '' '' @ k) = c @ '' '' @ k"
    using assms by (intro TrimSpace_visible) (cases c; simp)+
  have "index_str '' '' (c @ '' '' @ k) = Some (length c)"
    using visible_not_blank [OF assms(2)] by (intro index_str_first no_sep_char)
  moreover have "index_str '' '' k = None"
    using visible_not_blank [OF assms(3)] by (intro index_str_none no_sep_char) simp_all
  ultimately show "SplitN (c @ '' '' @ k) '' '' 3 = [c, k]"
    by (simp add: SplitN_def numeral_3_eq_3)
qed

subsection \<open>One line per reply\<close>

definition one_line :: "string \<Rightarrow> bool" where
  "one_line s \<longleftrightarrow> (\<exists>x. s = x @ newline \<and> CHR 0x0A \<notin> set x)"

text \<open>What a node holds is free of newlines.\<close>

definition text_node :: "node \<Rightarrow> bool" where
  "text_node n \<longleftrightarrow> CHR 0x0A \<notin> set (ID n) \<and>
     (\<forall>(k, v) \<in> set (GetAllKeys n). CHR 0x0A \<notin> set k \<and> CHR 0x0A \<notin> set v) \<and>
     (\<forall>k. CHR 0x0A \<notin> set (fst (GetState k n))) \<and>
     (\<forall>e \<in> set (Log n). CHR 0x0A \<notin> set (Operation e) \<and> CHR 0x0A \<notin> set (Key e) \<and> CHR 0x0A \<notin> set (Value e))"

lemma newline_Itoa: "CHR 0x0A \<notin> set (Itoa i)"
  using visible_Itoa [of i] by (auto simp: list_all_iff visible_def)

lemma newline_role: "CHR 0x0A \<notin> set (GetRole n)"
  by (cases "State n") (simp_all add: GetRole_def)

lemma set_Join: "c \<notin> set sep \<Longrightarrow> (\<And>x. x \<in> set xs \<Longrightarrow> c \<notin> set x) \<Longrightarrow> c \<notin> set (Join xs sep)"
  by (induction xs sep rule: Join.induct) auto

lemma one_line_simps [simp]:
  "one_line newline"
  "c \<noteq> CHR 0x0A \<Longrightarrow> one_line (c # s) \<longleftrightarrow> one_line s"
  "CHR 0x0A \<notin> set x \<Longrightarrow> one_line (x @ s) \<longleftrightarrow> one_line s"
proof -
  show "one_line newline" by (simp add: one_line_def)
  show cons: "one_line (c # s) \<longleftrightarrow> one_line s" if "c \<noteq> CHR 0x0A" for c s
    using that unfolding one_line_def by (auto simp: Cons_eq_append_conv)
  show "one_line (x @ s) \<longleftrightarrow> one_line s" if "CHR 0x0A \<notin> set x"
    using that by (induction x) (auto simp: cons)
qed

lemma reply_one_line:
  assumes "\<And>k. text_node (reads k)" and "\<And>xs. set (order xs) = set xs"
  shows "one_line (status_reply reads)" "one_line (leader_reply reads)"
    "one_line (keys_reply order (reads 0))" "one_line (logs_reply (reads 0))" "one_line (get_reply key (reads 0))"
    "one_line (proposal_reply res)"
proof -
  show "one_line (status_reply reads)" "one_line (leader_reply reads)"
    using assms(1) [of 0] newline_Itoa newline_role
    by (simp_all add: status_reply_def leader_reply_def text_node_def)
  have "CHR 0x0A \<notin> set (Join (map format_pair (order (GetAllKeys (reads 0)))) '' | '')"
    using assms(1) [of 0] assms(2) by (intro set_Join) (auto simp: format_pair_def text_node_def)
  then show "one_line (keys_reply order (reads 0))" by (simp add: keys_reply_def Let_def)
  have "CHR 0x0A \<notin> set (Join (map format_entry (GetLogEntries (reads 0))) '' | '')"
    using assms(1) [of 0] newline_Itoa
    by (intro set_Join) (auto simp: format_entry_def text_node_def GetLogEntries_def)
  then show "one_line (logs_reply (reads 0))" by (simp add: logs_reply_def Let_def)
  have "CHR 0x0A \<notin> set (fst (GetState key (reads 0)))" using assms(1) [of 0] by (simp add: text_node_def)
  then show "one_line (get_reply key (reads 0))" by (cases "GetState key (reads 0)") (simp add: get_reply_def)
  have "CHR 0x0A \<notin> set (client_error_string err)" for err by (cases err) simp_all
  then show "one_line (proposal_reply res)" by (simp add: proposal_reply_def split: option.splits)
qed

lemma handleClient_line_one_line:
  assumes "\<And>k. text_node (reads k)" and "\<And>xs. set (order xs) = set xs"
    and "handleClient_line order ch reads text = Reply resp"
  shows "one_line resp"
  using assms(3) reply_one_line [OF assms(1,2)]
  unfolding handleClient_line_def Let_def by (auto split: if_splits)

subsection \<open>Properties\<close>

text \<open>A \<^verbatim>\<open>SET\<close> line, the command word in any mix of upper and lower case, proposes its key and value.\<close>

lemma set_line_proposes:
  assumes "c \<noteq> []" and "list_all visible c" and "ToUpper c = ''SET''" and "list_all visible k"
    and "v \<noteq> []" and "visible (last v)"
  shows "handleClient_line order ch reads (c @ '' '' @ k @ '' '' @ v) =
    Propose \<lparr>req_Op = OpSet, req_Key = k, req_Value = v, req_ResCh = ch\<rparr>"
  using assms(1,3) unfolding handleClient_line_def
  by (simp only: line_three [OF assms(1,2,4-6)] Let_def) simp

text \<open>
  C34: one line per command. As long as nothing a node holds contains a newline, everything a
  connection sends is a sequence of single lines, one for each line that is not blank, until a write
  fails: a client that reads one line per command reads the reply to its own command.
\<close>

theorem replies_are_lines:
  assumes "\<And>k m. text_node (reads k m)" and "\<And>xs. set (order xs) = set xs"
  shows "list_all one_line (handleClient order reads outcome write_ok input) \<and>
    length (handleClient order reads outcome write_ok input) \<le>
      length (filter (\<lambda>l. TrimSpace l \<noteq> '''') (scan_lines input)) \<and>
    ((\<forall>k. write_ok k) \<longrightarrow> length (handleClient order reads outcome write_ok input) =
      length (filter (\<lambda>l. TrimSpace l \<noteq> '''') (scan_lines input)))"
proof -
  have skip: "handleClient_line order k (reads k) l = Skip \<longleftrightarrow> TrimSpace l = ''''" for k l
    by (simp add: handleClient_line_def Let_def)
  have "list_all one_line (serve_lines order reads outcome write_ok k ls) \<and>
    length (serve_lines order reads outcome write_ok k ls) \<le> length (filter (\<lambda>l. TrimSpace l \<noteq> '''') ls) \<and>
    ((\<forall>k. write_ok k) \<longrightarrow> length (serve_lines order reads outcome write_ok k ls) =
      length (filter (\<lambda>l. TrimSpace l \<noteq> '''') ls))" for k ls
  proof (induction ls arbitrary: k)
    case (Cons l ls)
    show ?case
      using Cons.IH [of "Suc k"] skip [of k l] handleClient_line_one_line [of "reads k" order k l]
        reply_one_line(6) [of "reads k" order] assms
      by (cases "handleClient_line order k (reads k) l") auto
  qed simp
  then show ?thesis by (simp add: handleClient_def)
qed

lemma sample_text_node: "text_node (sample_node [sample_entry 0 1 ''a'' ''1''] 0)"
  by (simp add: text_node_def sample_node_def sample_entry_def GetAllKeys_def GetState_def Store_GetAll_def
      Store_Get_def NewStore_def OpSet_def)

theorem replies_are_lines_witness:
  "list_all one_line (handleClient id (\<lambda>_ _. sample_node [sample_entry 0 1 ''a'' ''1''] 0) (\<lambda>_. None) (\<lambda>_. True)
     (''LOGS'' @ newline @ ''SET b 2'' @ newline))"
  using replies_are_lines [of "\<lambda>_ _. sample_node [sample_entry 0 1 ''a'' ''1''] 0" id] sample_text_node by simp

end
