(* ===== verification/Orrisctl.thy ===== *)
theory Orrisctl
  imports Client_Server Cluster
begin

text \<open>
  The control tool (\<^verbatim>\<open>cmd/orrisctl\<close>) as a client of the text protocol, and the command line on which
  it starts the daemon (\<^verbatim>\<open>cmd/orrisd\<close>). The network is an argument: \<open>tcp k addr text\<close> are the
  bytes the server at \<open>addr\<close> sends back on the \<open>k\<close>-th connection for the text sent to it, \<open>None\<close>
  if the connection or the write fails. Latencies are left out.
\<close>

type_synonym network = "nat \<Rightarrow> string \<Rightarrow> string \<Rightarrow> string option"

definition sendRawCommand :: "(string \<Rightarrow> string \<Rightarrow> string option) \<Rightarrow> string \<Rightarrow> string \<Rightarrow> string option" where
  "sendRawCommand conn addr cmd =
     (case conn addr (if HasSuffix cmd newline then cmd else cmd @ newline) of
        None \<Rightarrow> None
      | Some bytes \<Rightarrow> (case scan_lines bytes of [] \<Rightarrow> None | line # _ \<Rightarrow> Some line))"

subsection \<open>Querying nodes\<close>

record NodeInfo =
  ni_ID :: string
  ni_Addr :: string
  ni_Online :: bool
  ni_Role :: string
  ni_Term :: int
  ni_CommitIndex :: int
  ni_LastApplied :: int
  ni_LogLen :: int
  ni_Keys :: "(string, string) go_map"
  ni_Logs :: "string list"

definition blank_info :: "string \<Rightarrow> NodeInfo" where
  "blank_info addr =
     \<lparr>ni_ID = '''', ni_Addr = addr, ni_Online = False, ni_Role = '''', ni_Term = 0, ni_CommitIndex = 0,
      ni_LastApplied = 0, ni_LogLen = 0, ni_Keys = [], ni_Logs = []\<rparr>"

text \<open>The loop over the words of the status line with the word that follows each.\<close>

definition status_word :: "string \<times> string \<Rightarrow> NodeInfo \<Rightarrow> NodeInfo" where
  "status_word p info =
     (let w = fst p; x = snd p
      in if w = ''NODE'' then info\<lparr>ni_ID := x\<rparr>
         else if w = ''ROLE'' then info\<lparr>ni_Role := x\<rparr>
         else if w = ''TERM'' then info\<lparr>ni_Term := fst (Atoi x)\<rparr>
         else if w = ''COMMIT'' then info\<lparr>ni_CommitIndex := fst (Atoi x)\<rparr>
         else if w = ''APPLIED'' then info\<lparr>ni_LastApplied := fst (Atoi x)\<rparr>
         else if w = ''LOGLEN'' then info\<lparr>ni_LogLen := fst (Atoi x)\<rparr>
         else info)"

definition parse_status :: "string \<Rightarrow> NodeInfo \<Rightarrow> NodeInfo" where
  "parse_status resp info = (let parts = Fields resp in fold status_word (zip parts (tl parts)) info)"

definition parse_pair :: "string \<Rightarrow> (string, string) go_map \<Rightarrow> (string, string) go_map" where
  "parse_pair p m =
     (let kv = SplitN p ''='' 2 in if length kv = 2 then AList.update (kv ! 0) (kv ! 1) m else m)"

definition parse_keys :: "string \<Rightarrow> (string, string) go_map" where
  "parse_keys resp =
     (let s = TrimPrefix resp ''KEYS ''
      in if s \<noteq> ''(empty)'' \<and> s \<noteq> '''' then fold parse_pair (Split s '' | '') [] else [])"

definition parse_logs :: "string \<Rightarrow> string list" where
  "parse_logs resp =
     (let s = TrimPrefix resp ''LOGS '' in if s \<noteq> ''(empty)'' \<and> s \<noteq> '''' then Split s '' | '' else [])"

definition queryNode :: "network \<Rightarrow> nat \<Rightarrow> string \<Rightarrow> NodeInfo" where
  "queryNode tcp k addr =
     (case sendRawCommand (tcp k) addr ''STATUS'' of
        None \<Rightarrow> blank_info addr
      | Some status \<Rightarrow>
          (let i1 = parse_status status ((blank_info addr)\<lparr>ni_Online := True\<rparr>);
               i2 = (case sendRawCommand (tcp (k + 1)) addr ''KEYS'' of
                       Some resp \<Rightarrow> i1\<lparr>ni_Keys := parse_keys resp\<rparr> | None \<Rightarrow> i1)
           in case sendRawCommand (tcp (k + 2)) addr ''LOGS'' of
                Some resp \<Rightarrow> i2\<lparr>ni_Logs := parse_logs resp\<rparr> | None \<Rightarrow> i2))"

text \<open>The queries run in parallel; each has three connections of its own.\<close>

definition queryCluster :: "network \<Rightarrow> nat \<Rightarrow> string list \<Rightarrow> NodeInfo list" where
  "queryCluster tcp k addrs = map (\<lambda>(j, addr). queryNode tcp (k + 3 * j) addr) (enumerate 0 addrs)"

subsection \<open>Log items\<close>

record LogItem =
  li_Index :: int
  li_Term :: int
  li_Op :: string
  li_Key :: string
  li_Val :: string

definition zero_LogItem :: LogItem where
  "zero_LogItem = \<lparr>li_Index = 0, li_Term = 0, li_Op = '''', li_Key = '''', li_Val = ''''\<rparr>"

definition parseLogItem :: "string \<Rightarrow> LogItem \<times> bool" where
  "parseLogItem text =
     (let raw = TrimSpace text
      in if \<not> HasPrefix raw ''['' then (zero_LogItem, False)
         else case index_str '']'' raw of
                None \<Rightarrow> (zero_LogItem, False)
              | Some closeBracket \<Rightarrow>
                  (let idx = fst (Atoi (drop 1 (take closeBracket raw)));
                       rest = drop (closeBracket + 1) raw;
                       parts = SplitN rest '':'' 3
                   in if length parts < 3 then (zero_LogItem\<lparr>li_Index := idx\<rparr>, False)
                      else let t = fst (Atoi (TrimPrefix (parts ! 0) ''T''));
                               kv = SplitN (parts ! 2) ''='' 2
                           in (\<lparr>li_Index = idx, li_Term = t, li_Op = parts ! 1, li_Key = kv ! 0,
                                li_Val = (if length kv > 1 then kv ! 1 else '''')\<rparr>, True)))"

subsection \<open>Routing\<close>

text \<open>One attempt: the reply counts unless the call failed or the reply mentions \<^verbatim>\<open>NOT_LEADER\<close>.\<close>

definition attempt :: "network \<Rightarrow> nat \<Rightarrow> string \<Rightarrow> string \<Rightarrow> string option" where
  "attempt tcp k addr cmd =
     (case sendRawCommand (tcp k) addr cmd of
        Some res \<Rightarrow> if Contains res ''NOT_LEADER'' then None else Some res
      | None \<Rightarrow> None)"

fun try_nodes :: "network \<Rightarrow> nat \<Rightarrow> NodeInfo list \<Rightarrow> string \<Rightarrow> string \<times> string" where
  "try_nodes tcp k [] cmd = (''ERR NO_LEADER_FOUND'', ''none'')"
| "try_nodes tcp k (n # ns) cmd =
     (if ni_Online n
      then case attempt tcp k (ni_Addr n) cmd of
             Some res \<Rightarrow> (res, ni_Addr n)
           | None \<Rightarrow> try_nodes tcp (k + 1) ns cmd
      else try_nodes tcp k ns cmd)"

definition executeRouted :: "network \<Rightarrow> string list \<Rightarrow> string \<Rightarrow> string \<times> string" where
  "executeRouted tcp addrs cmd =
     (let infos = queryCluster tcp 0 addrs; k = 3 * length addrs
      in case find (\<lambda>n. ni_Online n \<and> ni_Role n = ''LEADER'') infos of
           Some n \<Rightarrow>
             if ni_Addr n \<noteq> '''' then
               (case attempt tcp k (ni_Addr n) cmd of
                  Some res \<Rightarrow> (res, ni_Addr n)
                | None \<Rightarrow> try_nodes tcp (k + 1) infos cmd)
             else try_nodes tcp k infos cmd
         | None \<Rightarrow> try_nodes tcp k infos cmd)"

definition handleRoutedCommand :: "network \<Rightarrow> string list \<Rightarrow> string \<Rightarrow> string list \<Rightarrow> string \<times> string" where
  "handleRoutedCommand tcp addrs cmd args = executeRouted tcp addrs (cmd @ '' '' @ Join args '' '')"

text \<open>The line that is printed; \<open>None\<close> is the exit with an error.\<close>

definition handleSingleCommand :: "network \<Rightarrow> string \<Rightarrow> string \<Rightarrow> string list \<Rightarrow> string option" where
  "handleSingleCommand tcp target cmd args =
     sendRawCommand (tcp 0) target (if args \<noteq> [] then cmd @ '' '' @ Join args '' '' else cmd)"

subsection \<open>Starting nodes\<close>

definition node_id :: "int \<Rightarrow> string" where
  "node_id i = ''node'' @ Itoa i"

definition node_addr :: "int \<Rightarrow> string" where
  "node_addr i = ''127.0.0.1:'' @ Itoa (int64 (8000 + i))"

definition client_addr :: "int \<Rightarrow> string" where
  "client_addr i = ''127.0.0.1:'' @ Itoa (int64 (9000 + i))"

definition peer_arg :: "int \<Rightarrow> string" where
  "peer_arg j = node_id j @ ''='' @ node_addr j"

definition peers_arg :: "int \<Rightarrow> int \<Rightarrow> string" where
  "peers_arg i totalCount = Join (map peer_arg (filter (\<lambda>j. j \<noteq> i) [1..totalCount])) '',''"

text \<open>The command line of \<^verbatim>\<open>clusterStartSingleNode\<close>.\<close>

definition node_args :: "int \<Rightarrow> int \<Rightarrow> string list" where
  "node_args i totalCount =
     [''-id'', node_id i, ''-addr'', node_addr i, ''-client'', client_addr i,
      ''-peers'', peers_arg i totalCount, ''-data'', ''./data/node'' @ Itoa i, ''-log'', ''node'' @ Itoa i @ ''.log'']"

text \<open>The nodes that \<^verbatim>\<open>clusterStart\<close> starts.\<close>

definition clusterStart_args :: "int \<Rightarrow> string list list" where
  "clusterStart_args count =
     (let n = (if count < 1 then 3 else count) in map (\<lambda>i. node_args i n) [1..n])"

text \<open>How the daemon reads its list of peers (\<^verbatim>\<open>main\<close> of \<^verbatim>\<open>cmd/orrisd\<close>).\<close>

definition parse_peers :: "string \<Rightarrow> (string, string) go_map" where
  "parse_peers s = (if s \<noteq> '''' then fold parse_pair (Split s '','') [] else [])"

subsection \<open>Splitting what was joined\<close>

text \<open>A part in which no separator starts, whether a separator or nothing follows it.\<close>

definition part_ok :: "string \<Rightarrow> string \<Rightarrow> bool" where
  "part_ok sep x \<longleftrightarrow> no_sep sep x [] \<and> (\<forall>rest. no_sep sep x (sep @ rest))"

lemma part_ok_char: "c \<notin> set x \<Longrightarrow> part_ok [c] x"
  by (simp add: part_ok_def no_sep_char)

lemma part_ok_bar: "CHR ''|'' \<notin> set x \<Longrightarrow> part_ok '' | '' x"
  unfolding part_ok_def no_sep_def
proof (intro conjI allI impI notI)
  fix i rest
  assume bar: "CHR ''|'' \<notin> set x" and i: "i < length x"
  have d: "drop i x = x ! i # drop (Suc i) x" using i by (simp add: Cons_nth_drop_Suc)
  have tail: "CHR ''|'' \<notin> set (drop (Suc i) x)" using bar by (meson in_set_dropD)
  show False if "prefix '' | '' (drop i (x @ []))"
    using that d tail by (cases "drop (Suc i) x") auto
  show False if "prefix '' | '' (drop i (x @ '' | '' @ rest))"
    using that d tail i by (cases "drop (Suc i) x") auto
qed

lemma split_cuts_Join:
  assumes "sep \<noteq> []" and "xs \<noteq> []" and "\<forall>x \<in> set xs. part_ok sep x" and "length xs \<le> Suc n"
  shows "split_cuts n sep (Join xs sep) = xs"
  using assms(2-4)
proof (induction xs arbitrary: n rule: induct_list012)
  case (2 x)
  then have "index_str sep x = None" using assms(1) by (intro index_str_none) (simp_all add: part_ok_def)
  then show ?case by (cases n) simp_all
next
  case (3 x y zs)
  then obtain m where n: "n = Suc m" by (cases n) auto
  have "index_str sep (x @ sep @ Join (y # zs) sep) = Some (length x)"
    using 3 by (intro index_str_first) (simp add: part_ok_def)
  then show ?case using 3 by (simp add: n)
qed simp

lemma length_Join_le: "sep \<noteq> [] \<Longrightarrow> length xs \<le> Suc (length (Join xs sep))"
proof (induction xs sep rule: Join.induct)
  case (3 x y xs sep)
  then have "1 \<le> length sep" by (cases sep) simp_all
  moreover have "length (y # xs) \<le> Suc (length (Join (y # xs) sep))" using 3 by blast
  ultimately show ?case by (simp only: Join.simps length_append list.size)
qed simp_all

lemma Split_Join:
  "sep \<noteq> [] \<Longrightarrow> xs \<noteq> [] \<Longrightarrow> (\<And>x. x \<in> set xs \<Longrightarrow> part_ok sep x) \<Longrightarrow> Split (Join xs sep) sep = xs"
  by (simp add: Split_def split_cuts_Join length_Join_le)

text \<open>Reading back pairs with new keys gives the map in the order in which it was written.\<close>

lemma update_fresh: "k \<notin> set (map fst m) \<Longrightarrow> AList.update k v m = m @ [(k, v)]"
  by (induction m) auto

lemma parse_pairs:
  assumes "distinct (map fst (m @ ps))" and "\<forall>p \<in> set ps. CHR ''='' \<notin> set (fst p)"
  shows "fold parse_pair (map format_pair ps) m = m @ ps"
  using assms
proof (induction ps arbitrary: m)
  case (Cons p ps)
  obtain k v where p: "p = (k, v)" by (cases p)
  have "SplitN (format_pair p) ''='' 2 = [k, v]"
    unfolding format_pair_def p fst_conv snd_conv using Cons.prems(2) p by (intro SplitN_char_2) simp
  then have "parse_pair (format_pair p) m = m @ [p]"
    using Cons.prems(1) by (simp add: parse_pair_def p update_fresh)
  then show ?case using Cons.IH [of "m @ [p]"] Cons.prems by simp
qed simp

subsection \<open>The started cluster\<close>

definition cluster_config :: "int \<Rightarrow> config" where
  "cluster_config n = map (\<lambda>j. (node_id j, node_addr j)) [1..n]"

lemma nat_string_inject: "nat_string m = nat_string n \<longleftrightarrow> m = n"
  by (metis digits_val_nat_string)

lemma minus_nat_string: "CHR ''-'' # x \<noteq> nat_string n"
proof
  assume "CHR ''-'' # x = nat_string n"
  then have "is_digit (CHR ''-'')" using hd_nat_string [of n] by (metis list.sel(1))
  then show False by (simp add: is_digit_def)
qed

lemma node_id_inject [simp]: "node_id i = node_id j \<longleftrightarrow> i = j"
  using minus_nat_string minus_nat_string [symmetric] by (auto simp: node_id_def Itoa_def nat_string_inject)

lemma digit_not_in_Itoa:
  "\<not> is_digit c \<Longrightarrow> c \<noteq> CHR ''-'' \<Longrightarrow> c \<notin> set (Itoa i)"
  using nat_string_digits by (auto simp: Itoa_def list_all_iff)

lemma peer_arg_pair: "peer_arg j = format_pair (node_id j, node_addr j)"
  by (simp add: peer_arg_def format_pair_def)

lemma comma_peer_arg: "CHR '','' \<notin> set (peer_arg j)" and equals_node_id: "CHR ''='' \<notin> set (node_id j)"
  using digit_not_in_Itoa [of "CHR '',''"] digit_not_in_Itoa [of "CHR ''=''"]
  by (simp_all add: peer_arg_def node_id_def node_addr_def is_digit_def)

lemma peers_of_cluster:
  "peers_of (cluster_config n) (node_id i) =
     map (\<lambda>j. (node_id j, node_addr j)) (filter (\<lambda>j. j \<noteq> i) [1..n])"
  by (simp add: peers_of_def cluster_config_def filter_map comp_def)

lemma parse_peers_arg: "parse_peers (peers_arg i n) = peers_of (cluster_config n) (node_id i)"
proof -
  define L where "L = filter (\<lambda>j. j \<noteq> i) [1..n]"
  define ps where "ps = map (\<lambda>j. (node_id j, node_addr j)) L"
  have arg: "peers_arg i n = Join (map format_pair ps) '',''"
    unfolding peers_arg_def L_def [symmetric] by (simp add: ps_def peer_arg_pair comp_def cong: map_cong)
  have "fold parse_pair (map format_pair ps) [] = [] @ ps"
    using equals_node_id by (intro parse_pairs) (auto simp: ps_def L_def comp_def distinct_map inj_on_def)
  moreover have "Split (peers_arg i n) '','' = map format_pair ps" if "L \<noteq> []"
    unfolding arg using that comma_peer_arg
    by (intro Split_Join part_ok_char) (auto simp: ps_def peer_arg_pair)
  moreover have "peers_arg i n \<noteq> ''''" if "L \<noteq> []"
    using that unfolding arg by (cases L; cases "tl L") (simp_all add: ps_def format_pair_def)
  moreover have "peers_arg i n = ''''" if "L = []" using that by (simp add: arg ps_def)
  ultimately have "parse_peers (peers_arg i n) = ps"
    by (cases "L = []") (simp_all add: parse_peers_def ps_def)
  then show ?thesis by (simp add: peers_of_cluster ps_def L_def)
qed

subsection \<open>What the server writes and the tool reads\<close>

lemma scan_one_line:
  assumes "CHR 0x0A \<notin> set x" and "length x < 65536" and "CHR 0x0D \<notin> set x"
  shows "scan_lines (x @ newline) = [x]"
proof -
  have "takeWhile (\<lambda>c. c \<noteq> CHR 0x0A) (x @ newline) = x"
    using assms(1) by (subst takeWhile_append2) auto
  moreover have "dropWhile (\<lambda>c. c \<noteq> CHR 0x0A) (x @ newline) = newline"
    using assms(1) by (subst dropWhile_append2) auto
  moreover have "drop_cr x = x" using assms(3) last_in_set [of x] by (metis drop_cr_def)
  moreover have "scan_lines [] = []" by (simp add: scan_lines.simps)
  ultimately show ?thesis using assms(2) by (subst scan_lines.simps) (simp add: Let_def)
qed

text \<open>A server as the network: every connection is handled, and all replies are written.\<close>

definition server_net ::
    "((string, string) go_map \<Rightarrow> (string, string) go_map) \<Rightarrow> (nat \<Rightarrow> nat \<Rightarrow> node) \<Rightarrow> network" where
  "server_net order reads k addr text =
     Some (concat (handleClient order (\<lambda>_. reads k) (\<lambda>_. None) (\<lambda>_. True) text))"

lemma command_words:
  "scan_lines (''STATUS'' @ newline) = [''STATUS'']" "scan_lines (''KEYS'' @ newline) = [''KEYS'']"
  "scan_lines (''LOGS'' @ newline) = [''LOGS'']"
  "TrimSpace ''STATUS'' = ''STATUS''" "TrimSpace ''KEYS'' = ''KEYS''" "TrimSpace ''LOGS'' = ''LOGS''"
  "SplitN ''STATUS'' '' '' 3 = [''STATUS'']" "SplitN ''KEYS'' '' '' 3 = [''KEYS'']"
  "SplitN ''LOGS'' '' '' 3 = [''LOGS'']"
  "ToUpper ''STATUS'' = ''STATUS''" "ToUpper ''KEYS'' = ''KEYS''" "ToUpper ''LOGS'' = ''LOGS''"
  by (intro scan_one_line TrimSpace_visible SplitN_char_none; simp add: visible_def)+ code_simp+

lemma query_replies:
  "handleClient_line order ch reads ''STATUS'' = Reply (status_reply reads)"
  "handleClient_line order ch reads ''KEYS'' = Reply (keys_reply order (reads 0))"
  "handleClient_line order ch reads ''LOGS'' = Reply (logs_reply (reads 0))"
  unfolding handleClient_line_def command_words by (simp_all add: command_words del: ToUpper.simps)

lemma no_newline_suffix:
  "\<not> HasSuffix ''STATUS'' newline" "\<not> HasSuffix ''KEYS'' newline" "\<not> HasSuffix ''LOGS'' newline"
  by (simp_all add: HasSuffix_def suffix_to_prefix)

text \<open>The tool receives the server's line if it has no further line break and fits the scanner.\<close>

lemma send_query:
  assumes "x @ newline = reply" and "CHR 0x0A \<notin> set x" and "CHR 0x0D \<notin> set x" and "length reply \<le> 65536"
    and "scan_lines (cmd @ newline) = [cmd]" and "handleClient_line order 0 (reads k) cmd = Reply reply"
    and "\<not> HasSuffix cmd newline"
  shows "sendRawCommand (server_net order reads k) addr cmd = Some x"
proof -
  have "server_net order reads k addr (cmd @ newline) = Some (x @ newline)"
    using assms(1,5,6) by (simp add: server_net_def handleClient_def)
  moreover have "length x < 65536" using assms(1,4) by auto
  ultimately show ?thesis using assms(2,3,7) by (simp add: sendRawCommand_def scan_one_line)
qed

text \<open>Texts that survive the formatting of \<^verbatim>\<open>KEYS\<close> and \<^verbatim>\<open>LOGS\<close>, and nodes that hold only such texts.\<close>

definition wire_text :: "string \<Rightarrow> bool" where
  "wire_text s \<longleftrightarrow> CHR 0x0A \<notin> set s \<and> CHR 0x0D \<notin> set s \<and> CHR ''|'' \<notin> set s"

definition wire_int :: "int \<Rightarrow> bool" where
  "wire_int i \<longleftrightarrow> - (2 ^ 63) \<le> i \<and> i \<le> max_int"

definition wire_id :: "string \<Rightarrow> bool" where
  "wire_id s \<longleftrightarrow> s \<noteq> '''' \<and> list_all visible s \<and> s \<noteq> ''NODE''"

definition wire_node :: "node \<Rightarrow> bool" where
  "wire_node n \<longleftrightarrow> wire_id (ID n) \<and> wire_int (CurrentTerm n) \<and> wire_int (CommitIndex n) \<and>
     wire_int (LastApplied n) \<and> wire_int (len (Log n)) \<and> go_map_inv (GetAllKeys n) \<and>
     list_all (\<lambda>(k, v). wire_text k \<and> wire_text v \<and> CHR ''='' \<notin> set k) (GetAllKeys n) \<and>
     list_all (\<lambda>e. wire_text (Operation e) \<and> wire_text (Key e) \<and> wire_text (Value e)) (Log n)"

lemma wire_text_append [simp]: "wire_text (x @ y) \<longleftrightarrow> wire_text x \<and> wire_text y"
  by (auto simp: wire_text_def)

lemma wire_text_Itoa [simp]: "wire_text (Itoa i)"
  using digit_not_in_Itoa [of "CHR 0x0A"] digit_not_in_Itoa [of "CHR 0x0D"] digit_not_in_Itoa [of "CHR ''|''"]
  by (simp add: wire_text_def is_digit_def)

lemma visible_role: "list_all visible (GetRole n) \<and> GetRole n \<noteq> []"
  by (cases "State n") (simp_all add: GetRole_def visible_def)

definition status_words :: "(nat \<Rightarrow> node) \<Rightarrow> string list" where
  "status_words reads =
     [''NODE'', ID (reads 0), ''ROLE'', GetRole (reads 0), ''TERM'', Itoa (GetTerm (reads 1)), ''COMMIT'',
      Itoa (GetCommit (reads 2)), ''APPLIED'', Itoa (GetLastApplied (reads 3)), ''LOGLEN'',
      Itoa (len (GetLogEntries (reads 4)))]"

lemma status_reply_words: "status_reply reads = Join (status_words reads) '' '' @ newline"
  by (simp add: status_reply_def status_words_def)

lemma status_words_visible:
  "wire_id (ID (reads 0)) \<Longrightarrow> list_all (\<lambda>w. w \<noteq> [] \<and> list_all visible w) (status_words reads)"
  using visible_role visible_Itoa by (simp add: status_words_def wire_id_def visible_def)

text \<open>A role or a number is none of the key words.\<close>

lemma not_key_word:
  "GetRole n \<notin> {''NODE'', ''ROLE'', ''TERM'', ''COMMIT'', ''APPLIED'', ''LOGLEN''}"
  "Itoa i \<notin> {''NODE'', ''ROLE'', ''TERM'', ''COMMIT'', ''APPLIED'', ''LOGLEN''}"
proof -
  show "GetRole n \<notin> {''NODE'', ''ROLE'', ''TERM'', ''COMMIT'', ''APPLIED'', ''LOGLEN''}"
    by (cases "State n") (simp_all add: GetRole_def)
  have "hd (Itoa i) = CHR ''-'' \<or> is_digit (hd (Itoa i))" using hd_nat_string by (simp add: Itoa_def)
  then show "Itoa i \<notin> {''NODE'', ''ROLE'', ''TERM'', ''COMMIT'', ''APPLIED'', ''LOGLEN''}"
    by (auto simp: is_digit_def)
qed

lemma parse_status_words:
  assumes "wire_id (ID (reads 0))" and "\<And>k. wire_int (GetTerm (reads k))" and "\<And>k. wire_int (GetCommit (reads k))"
    and "\<And>k. wire_int (GetLastApplied (reads k))" and "\<And>k. wire_int (len (GetLogEntries (reads k)))"
  shows "parse_status (Join (status_words reads) '' '') info =
    info\<lparr>ni_ID := ID (reads 0), ni_Role := GetRole (reads 0), ni_Term := GetTerm (reads 1),
      ni_CommitIndex := GetCommit (reads 2), ni_LastApplied := GetLastApplied (reads 3),
      ni_LogLen := len (GetLogEntries (reads 4))\<rparr>"
proof -
  have atoi: "fst (Atoi (Itoa i)) = i" if "wire_int i" for i
    using that by (simp add: Atoi_Itoa wire_int_def)
  have "ID (reads 0) \<noteq> ''NODE''" using assms(1) by (simp add: wire_id_def)
  then show ?thesis
    using not_key_word unfolding parse_status_def Fields_Join [OF status_words_visible [of reads, OF assms(1)]]
    by (simp add: status_words_def status_word_def Let_def atoi assms(2-5))
qed

definition no_break :: "string \<Rightarrow> bool" where
  "no_break s \<longleftrightarrow> CHR 0x0A \<notin> set s \<and> CHR 0x0D \<notin> set s"

lemma no_break_Join: "no_break sep \<Longrightarrow> (\<And>x. x \<in> set xs \<Longrightarrow> no_break x) \<Longrightarrow> no_break (Join xs sep)"
  by (simp add: no_break_def set_Join)

lemma no_break_visible: "list_all visible s \<Longrightarrow> no_break s"
  by (auto simp: no_break_def list_all_iff visible_def)

lemma no_break_wire: "wire_text s \<Longrightarrow> no_break s"
  by (simp add: no_break_def wire_text_def)

lemma wire_pair: "wire_text k \<Longrightarrow> wire_text v \<Longrightarrow> wire_text (format_pair (k, v))"
  by (simp add: format_pair_def wire_text_def)

lemma wire_entry:
  "wire_text (Operation e) \<Longrightarrow> wire_text (Key e) \<Longrightarrow> wire_text (Value e) \<Longrightarrow> wire_text (format_entry e)"
  using wire_text_Itoa [of "Index e"] wire_text_Itoa [of "Term e"] by (simp add: format_entry_def wire_text_def)

text \<open>The lists of pairs and of entries: what is sent, and that splitting it gives the list back.\<close>

lemma wire_list:
  assumes "xs \<noteq> []" and "\<And>x. x \<in> set xs \<Longrightarrow> wire_text x"
  shows "no_break (Join xs '' | '')" and "Split (Join xs '' | '') '' | '' = xs"
proof -
  show "no_break (Join xs '' | '')"
    using assms(2) no_break_wire by (intro no_break_Join) (simp_all add: no_break_def)
  show "Split (Join xs '' | '') '' | '' = xs"
    using assms by (intro Split_Join part_ok_bar) (simp_all add: wire_text_def)
qed

lemma Join_head: "xs \<noteq> [] \<Longrightarrow> \<exists>rest. Join xs sep = hd xs @ rest"
  by (cases xs; cases "tl xs") auto

lemma parse_keys_reply:
  assumes "wire_node n" and "distinct (map fst (order (GetAllKeys n)))" and "set (order (GetAllKeys n)) = set (GetAllKeys n)"
  shows "\<exists>x. keys_reply order n = x @ newline \<and> no_break x \<and> parse_keys x = order (GetAllKeys n)"
proof (cases "order (GetAllKeys n) = []")
  case True
  then show ?thesis
    by (intro exI [of _ "''KEYS (empty)''"])
      (simp add: keys_reply_def no_break_def parse_keys_def TrimPrefix_def)
next
  case False
  define ps where "ps = order (GetAllKeys n)"
  have ps: "ps \<noteq> []" "\<forall>p \<in> set ps. wire_text (fst p) \<and> wire_text (snd p) \<and> CHR ''='' \<notin> set (fst p)"
    using False assms(1,3) by (auto simp: ps_def wire_node_def list_all_iff)
  have wire: "wire_text x" if "x \<in> set (map format_pair ps)" for x
    using that ps(2) wire_pair by auto
  define s where "s = Join (map format_pair ps) '' | ''"
  have s: "no_break s" "Split s '' | '' = map format_pair ps"
    unfolding s_def using wire_list [of "map format_pair ps"] ps(1) wire by auto
  obtain rest where "s = format_pair (hd ps) @ rest"
    unfolding s_def using Join_head [of "map format_pair ps"] ps(1) by (auto simp: hd_map)
  then have "CHR ''='' \<in> set s" by (simp add: format_pair_def)
  then have "s \<noteq> ''(empty)''" "s \<noteq> ''''" by auto
  moreover have "fold parse_pair (map format_pair ps) [] = ps"
    using parse_pairs [of "[]" ps] assms(2) ps by (simp add: ps_def)
  ultimately have "parse_keys (''KEYS '' @ s) = ps" using s(2) by (simp add: parse_keys_def TrimPrefix_def Let_def)
  moreover have "keys_reply order n = (''KEYS '' @ s) @ newline"
    using False by (simp add: keys_reply_def ps_def s_def Let_def)
  ultimately show ?thesis using s(1) unfolding ps_def [symmetric]
    by (intro exI [of _ "''KEYS '' @ s"]) (simp add: no_break_def)
qed

lemma parse_logs_reply:
  assumes "wire_node n"
  shows "\<exists>x. logs_reply n = x @ newline \<and> no_break x \<and> parse_logs x = map format_entry (Log n)"
proof (cases "Log n = []")
  case True
  then show ?thesis
    by (intro exI [of _ "''LOGS (empty)''"])
      (simp add: logs_reply_def GetLogEntries_def no_break_def parse_logs_def TrimPrefix_def)
next
  case False
  define s where "s = Join (map format_entry (Log n)) '' | ''"
  have "wire_text x" if "x \<in> set (map format_entry (Log n))" for x
    using that assms wire_entry by (auto simp: wire_node_def list_all_iff)
  then have s: "no_break s" "Split s '' | '' = map format_entry (Log n)"
    unfolding s_def using wire_list [of "map format_entry (Log n)"] False by auto
  obtain rest where "s = format_entry (hd (Log n)) @ rest"
    unfolding s_def using Join_head [of "map format_entry (Log n)"] False by (auto simp: hd_map)
  then have "s \<noteq> ''(empty)''" "s \<noteq> ''''" by (auto simp: format_entry_def)
  then have "parse_logs (''LOGS '' @ s) = map format_entry (Log n)"
    using s(2) by (simp add: parse_logs_def TrimPrefix_def Let_def)
  moreover have "logs_reply n = (''LOGS '' @ s) @ newline"
    using False by (simp add: logs_reply_def s_def GetLogEntries_def Let_def)
  ultimately show ?thesis using s(1) by (intro exI [of _ "''LOGS '' @ s"]) (simp add: no_break_def)
qed

text \<open>What the tool reads from the server of a node.\<close>

lemma queryNode_server:
  assumes "\<And>c r. wire_node (reads c r)" and "\<And>m. go_map_inv m \<Longrightarrow> go_map_inv (order m) \<and> set (order m) = set m"
    and "length (status_reply (reads k)) \<le> 65536" and "length (keys_reply order (reads (k + 1) 0)) \<le> 65536"
    and "length (logs_reply (reads (k + 2) 0)) \<le> 65536"
  shows "queryNode (server_net order reads) k addr =
    \<lparr>ni_ID = ID (reads k 0), ni_Addr = addr, ni_Online = True, ni_Role = GetRole (reads k 0),
     ni_Term = GetTerm (reads k 1), ni_CommitIndex = GetCommit (reads k 2),
     ni_LastApplied = GetLastApplied (reads k 3), ni_LogLen = len (GetLogEntries (reads k 4)),
     ni_Keys = order (GetAllKeys (reads (k + 1) 0)), ni_Logs = map format_entry (Log (reads (k + 2) 0))\<rparr>"
proof -
  note wire = assms(1) [unfolded wire_node_def]
  have id: "wire_id (ID (reads k 0))" using wire by blast
  have "no_break (Join (status_words (reads k)) '' '')"
    using status_words_visible [of "reads k", OF id] no_break_visible
    by (intro no_break_Join) (auto simp: no_break_def list_all_iff)
  then have status: "sendRawCommand (server_net order reads k) addr ''STATUS'' = Some (Join (status_words (reads k)) '' '')"
    using assms(3) by (intro send_query [OF _ _ _ _ command_words(1) query_replies(1) no_newline_suffix(1)])
      (simp_all add: no_break_def status_reply_words)
  obtain x where x: "keys_reply order (reads (k + 1) 0) = x @ newline" "no_break x"
      "parse_keys x = order (GetAllKeys (reads (k + 1) 0))"
    using parse_keys_reply [OF assms(1), of order "k + 1" 0] assms(2) wire unfolding go_map_inv_def by blast
  have keys: "sendRawCommand (server_net order reads (k + 1)) addr ''KEYS'' = Some x"
    using assms(4) x(1,2) by (intro send_query [OF _ _ _ _ command_words(2) query_replies(2) no_newline_suffix(2)])
      (simp_all add: no_break_def)
  obtain y where y: "logs_reply (reads (k + 2) 0) = y @ newline" "no_break y"
      "parse_logs y = map format_entry (Log (reads (k + 2) 0))"
    using parse_logs_reply [OF assms(1), of "k + 2" 0] by blast
  have logs: "sendRawCommand (server_net order reads (k + 2)) addr ''LOGS'' = Some y"
    using assms(5) y(1,2) by (intro send_query [OF _ _ _ _ command_words(3) query_replies(3) no_newline_suffix(3)])
      (simp_all add: no_break_def)
  have "parse_status (Join (status_words (reads k)) '' '') info =
    info\<lparr>ni_ID := ID (reads k 0), ni_Role := GetRole (reads k 0), ni_Term := GetTerm (reads k 1),
      ni_CommitIndex := GetCommit (reads k 2), ni_LastApplied := GetLastApplied (reads k 3),
      ni_LogLen := len (GetLogEntries (reads k 4))\<rparr>" for info
    using wire by (intro parse_status_words)
      (simp_all add: id GetTerm_def GetCommit_def GetLastApplied_def GetLogEntries_def)
  then show ?thesis using x(3) y(3)
    unfolding queryNode_def status keys logs by (simp add: Let_def blank_info_def)
qed

subsection \<open>Properties\<close>

text \<open>
  C30: the dashboard shows what the nodes hold. When the tool queries a node whose texts contain no
  line break and no vertical bar, and whose replies fit a line, it reads back the node's name, role,
  term and indices, its whole key-value map in the order it was sent, and one item for each log
  entry. The six values of the status line come from five moments, the keys and the log from two
  later connections.
\<close>

theorem queryNode_reads_node:
  assumes "\<And>c r. wire_node (reads c r)" and "\<And>m. go_map_inv m \<Longrightarrow> go_map_inv (order m) \<and> set (order m) = set m"
    and "length (status_reply (reads k)) \<le> 65536" and "length (keys_reply order (reads (k + 1) 0)) \<le> 65536"
    and "length (logs_reply (reads (k + 2) 0)) \<le> 65536"
  shows "queryNode (server_net order reads) k addr =
    \<lparr>ni_ID = ID (reads k 0), ni_Addr = addr, ni_Online = True, ni_Role = GetRole (reads k 0),
     ni_Term = GetTerm (reads k 1), ni_CommitIndex = GetCommit (reads k 2),
     ni_LastApplied = GetLastApplied (reads k 3), ni_LogLen = len (GetLogEntries (reads k 4)),
     ni_Keys = order (GetAllKeys (reads (k + 1) 0)), ni_Logs = map format_entry (Log (reads (k + 2) 0))\<rparr>"
  by (rule queryNode_server [OF assms])

abbreviation shown_node :: node where
  "shown_node \<equiv> (sample_node [sample_entry 0 1 ''a'' ''1''] 0)\<lparr>KVStore := \<lparr>data = [(''a'', ''1'')]\<rparr>\<rparr>"

lemma wire_shown_node: "wire_node shown_node"
  by (simp add: wire_node_def wire_id_def wire_int_def wire_text_def visible_def sample_node_def sample_entry_def
      GetAllKeys_def Store_GetAll_def OpSet_def max_int_def go_map_inv_def)

lemma shown_replies:
  "status_reply (\<lambda>_. shown_node) = ''NODE n1 ROLE FOLLOWER TERM 1 COMMIT 0 APPLIED -1 LOGLEN 1'' @ newline"
  "keys_reply id shown_node = ''KEYS a=1'' @ newline" "logs_reply shown_node = ''LOGS [0]T1:SET:a=1'' @ newline"
  by code_simp+

theorem queryNode_reads_node_witness:
  "queryNode (server_net id (\<lambda>_ _. shown_node)) 0 ''h'' =
    \<lparr>ni_ID = ''n1'', ni_Addr = ''h'', ni_Online = True, ni_Role = ''FOLLOWER'', ni_Term = 1, ni_CommitIndex = 0,
     ni_LastApplied = -1, ni_LogLen = 1, ni_Keys = [(''a'', ''1'')], ni_Logs = [''[0]T1:SET:a=1'']\<rparr>"
proof -
  have "format_entry (sample_entry 0 1 ''a'' ''1'') = ''[0]T1:SET:a=1''" by code_simp
  then show ?thesis
    using queryNode_reads_node [of "\<lambda>_ _. shown_node" id 0 "''h''"] wire_shown_node shown_replies
    by (simp add: sample_node_def GetRole_def GetTerm_def GetCommit_def GetLastApplied_def GetLogEntries_def
        GetAllKeys_def Store_GetAll_def)
qed

text \<open>
  Log items are read back, when the operation contains no colon and the key no equals sign; the value
  may contain any of the separators, but must not end with white space.
\<close>

definition readable :: "LogEntry \<Rightarrow> bool" where
  "readable e \<longleftrightarrow> CHR '':'' \<notin> set (Operation e) \<and> CHR ''='' \<notin> set (Key e) \<and> wire_int (Index e) \<and>
     wire_int (Term e) \<and> (Value e = [] \<or> visible (last (Value e)))"

definition item_of :: "LogEntry \<Rightarrow> LogItem" where
  "item_of e = \<lparr>li_Index = Index e, li_Term = Term e, li_Op = Operation e, li_Key = Key e, li_Val = Value e\<rparr>"

lemma parseLogItem_format_entry:
  assumes "readable e"
  shows "parseLogItem (format_entry e) = (item_of e, True)"
proof -
  let ?idx = "Itoa (Index e)" let ?kv = "Key e @ ''='' @ Value e"
  let ?rest = "(''T'' @ Itoa (Term e)) @ '':'' @ Operation e @ '':'' @ ?kv"
  have line: "format_entry e = (''['' @ ?idx) @ '']'' @ ?rest" by (simp add: format_entry_def)
  have "last (format_entry e) = (if Value e = [] then CHR ''='' else last (Value e))"
    by (simp add: format_entry_def)
  then have "TrimSpace (format_entry e) = format_entry e"
    using assms by (intro TrimSpace_visible) (auto simp: line visible_def readable_def)
  moreover have "CHR '']'' \<notin> set ?idx" "CHR '':'' \<notin> set (Itoa (Term e))"
    by (simp_all add: digit_not_in_Itoa is_digit_def)
  then have "index_str '']'' (format_entry e) = Some (length (''['' @ ?idx))"
    unfolding line by (intro index_str_first no_sep_char) simp
  moreover have "SplitN ?rest '':'' 3 = [''T'' @ Itoa (Term e), Operation e, ?kv]"
    using assms \<open>CHR '':'' \<notin> set (Itoa (Term e))\<close> by (intro SplitN_char_3) (simp_all add: readable_def)
  moreover have "SplitN ?kv ''='' 2 = [Key e, Value e]"
    using assms by (intro SplitN_char_2) (simp add: readable_def)
  moreover have "HasPrefix (format_entry e) ''[''" "drop 1 (take (length (''['' @ ?idx)) (format_entry e)) = ?idx"
    "drop (length (''['' @ ?idx) + 1) (format_entry e) = ?rest"
    by (simp_all add: line HasPrefix_def)
  ultimately show ?thesis
    using assms unfolding parseLogItem_def Let_def
    by (simp add: Atoi_Itoa wire_int_def TrimPrefix_def readable_def item_of_def del: length_append)
qed

lemma queryCluster_addrs: "map ni_Addr (queryCluster tcp k addrs) = addrs"
proof -
  have "ni_Addr (fold status_word ws info) = ni_Addr info" for ws info
    by (induction ws arbitrary: info) (simp_all add: status_word_def Let_def)
  then have "ni_Addr (queryNode tcp j addr) = addr" for j addr
    by (simp add: queryNode_def parse_status_def blank_info_def Let_def split: option.splits)
  then show ?thesis by (simp add: queryCluster_def comp_def case_prod_unfold)
qed

lemma attempt_Some:
  "attempt tcp k addr cmd = Some res \<longleftrightarrow>
     sendRawCommand (tcp k) addr cmd = Some res \<and> \<not> Contains res ''NOT_LEADER''"
  by (auto simp: attempt_def split: option.splits if_splits)

text \<open>What a loop over the nodes returns.\<close>

definition routed_ok :: "network \<Rightarrow> nat \<Rightarrow> NodeInfo list \<Rightarrow> string \<Rightarrow> string \<times> string \<Rightarrow> bool" where
  "routed_ok tcp k infos cmd out \<longleftrightarrow>
     (\<exists>n \<in> set infos. ni_Online n \<and> snd out = ni_Addr n \<and> (\<exists>j \<ge> k. attempt tcp j (ni_Addr n) cmd = Some (fst out))) \<or>
     (out = (''ERR NO_LEADER_FOUND'', ''none'') \<and>
        (\<forall>n \<in> set infos. ni_Online n \<longrightarrow> (\<exists>j \<ge> k. attempt tcp j (ni_Addr n) cmd = None)))"

lemma routed_ok_mono: "routed_ok tcp j infos cmd out \<Longrightarrow> k \<le> j \<Longrightarrow> routed_ok tcp k infos cmd out"
  unfolding routed_ok_def by (auto intro: order_trans) (meson order_trans)+

lemma try_nodes_ok: "routed_ok tcp k infos cmd (try_nodes tcp k infos cmd)"
proof (induction infos arbitrary: k)
  case (Cons n ns)
  have weaken: "routed_ok tcp k (n # ns) cmd out"
    if "routed_ok tcp j ns cmd out" "k \<le> j" "ni_Online n \<longrightarrow> attempt tcp k (ni_Addr n) cmd = None" for out j
    using routed_ok_mono [OF that(1,2)] that(3) unfolding routed_ok_def by auto
  show ?case
  proof (cases "ni_Online n \<and> attempt tcp k (ni_Addr n) cmd \<noteq> None")
    case True
    then show ?thesis by (auto simp: routed_ok_def)
  next
    case False
    then show ?thesis
      using weaken [OF Cons.IH [of k]] weaken [OF Cons.IH [of "k + 1"]] by (auto split: option.splits)
  qed
qed (simp add: routed_ok_def)

text \<open>
  C33: what a routed command reports. The tool prints either a reply that a queried, reachable node
  gave to this very command and that is not a refusal for not being the leader, or
  \<^verbatim>\<open>ERR NO_LEADER_FOUND\<close>; the latter only after every reachable node has refused the command or has
  failed to answer it.
\<close>

theorem executeRouted_reports:
  "(\<exists>addr \<in> set addrs. snd (executeRouted tcp addrs cmd) = addr \<and>
      (\<exists>k \<ge> 3 * length addrs. sendRawCommand (tcp k) addr cmd = Some (fst (executeRouted tcp addrs cmd))) \<and>
      \<not> Contains (fst (executeRouted tcp addrs cmd)) ''NOT_LEADER'') \<or>
   (executeRouted tcp addrs cmd = (''ERR NO_LEADER_FOUND'', ''none'') \<and>
      list_all (\<lambda>n. \<exists>k \<ge> 3 * length addrs. case sendRawCommand (tcp k) (ni_Addr n) cmd of
            None \<Rightarrow> True | Some res \<Rightarrow> Contains res ''NOT_LEADER'')
        (filter ni_Online (queryCluster tcp 0 addrs)))"
proof -
  define infos where "infos = queryCluster tcp 0 addrs"
  define K where "K = 3 * length addrs"

  have "routed_ok tcp K infos cmd (executeRouted tcp addrs cmd)"
  proof (cases "find (\<lambda>n. ni_Online n \<and> ni_Role n = ''LEADER'') infos")
    case None
    then show ?thesis using try_nodes_ok by (simp add: executeRouted_def Let_def infos_def K_def)
  next
    case (Some n)
    then have n: "n \<in> set infos" "ni_Online n" by (auto simp: find_Some_iff)
    then have "routed_ok tcp K infos cmd (res, ni_Addr n)" if "attempt tcp K (ni_Addr n) cmd = Some res" for res
      using that by (auto simp: routed_ok_def)
    then show ?thesis
      using Some try_nodes_ok [of tcp K infos cmd] routed_ok_mono [OF try_nodes_ok [of tcp "K + 1" infos cmd], of K]
      by (auto simp: executeRouted_def Let_def infos_def K_def split: option.splits)
  qed
  note routed = this
  have addr: "ni_Addr n \<in> set addrs" if "n \<in> set infos" for n
    using that queryCluster_addrs [of tcp 0 addrs] unfolding infos_def by (metis image_eqI set_map)
  have refused: "attempt tcp k addr cmd = None \<longleftrightarrow>
      (case sendRawCommand (tcp k) addr cmd of None \<Rightarrow> True | Some res \<Rightarrow> Contains res ''NOT_LEADER'')" for k addr
    by (simp add: attempt_def split: option.splits)
  show ?thesis
    using routed addr unfolding routed_ok_def infos_def [symmetric] K_def [symmetric] refused attempt_Some
    by (auto simp: list_all_iff)
qed

subsection \<open>One configuration\<close>

text \<open>What the tool starts are the members of one configuration, each at its own address.\<close>

lemma members_cluster_config [simp]: "members (cluster_config n) = map node_id [1..n]"
  by (simp add: members_def cluster_config_def comp_def)

lemma good_cluster_config: "good_config (cluster_config n)"
  by (auto simp: good_config_def distinct_map inj_on_def) (simp add: node_id_def)

lemma cluster_config_addr: "i \<in> {1..n} \<Longrightarrow> go_get (cluster_config n) (node_id i) '''' = node_addr i"
proof -
  assume i: "i \<in> {1..n}"
  have "distinct (map fst (cluster_config n))"
    using good_cluster_config [of n] by (simp add: good_config_def members_def)
  then have "map_of (cluster_config n) (node_id i) = Some (node_addr i)"
    using i by (intro map_of_is_SomeI) (auto simp: cluster_config_def)
  then show ?thesis by (simp add: go_get_def)
qed

end
