(* ===== verification/Go_Os.thy ===== *)
theory Go_Os
  imports Go_Strings
begin

text \<open>
  What the two programs use of Go's packages \<^verbatim>\<open>flag\<close> and \<^verbatim>\<open>path/filepath\<close>: how a command line is cut
  into flags and arguments, and how a path is put together and cleaned. Paths are those of a system
  with slashes.
\<close>

subsection \<open>Flags\<close>

text \<open>\<^verbatim>\<open>flag.Parse\<close> ends the program with status 0 when help is asked for and with status 2 on an error.\<close>

datatype flag_exit = FlagHelp | FlagError

definition flag_status :: "flag_exit \<Rightarrow> int" where
  "flag_status e = (case e of FlagHelp \<Rightarrow> 0 | FlagError \<Rightarrow> 2)"

definition ParseBool :: "string \<Rightarrow> bool option" where
  "ParseBool s =
     (if s \<in> {''1'', ''t'', ''T'', ''TRUE'', ''true'', ''True''} then Some True
      else if s \<in> {''0'', ''f'', ''F'', ''FALSE'', ''false'', ''False''} then Some False
      else None)"

text \<open>\<^verbatim>\<open>name\<close> or \<^verbatim>\<open>name=value\<close>.\<close>

definition flag_split :: "string \<Rightarrow> string \<times> string option" where
  "flag_split body =
     (case index_str ''='' body of None \<Rightarrow> (body, None) | Some i \<Rightarrow> (take i body, Some (drop (i + 1) body)))"

text \<open>
  \<open>spec\<close> are the names of the flags, with \<^const>\<open>True\<close> for a boolean one. The result are the values that
  were set and the arguments from the first one that is no flag.
\<close>

fun flag_parse ::
    "(string \<times> bool) list \<Rightarrow> string list \<Rightarrow> (string, string) go_map \<Rightarrow>
     flag_exit + (string, string) go_map \<times> string list" where
  "flag_parse spec [] m = Inr (m, [])"
| "flag_parse spec (s # args) m =
     (if length s < 2 \<or> hd s \<noteq> CHR ''-'' then Inr (m, s # args)
      else if s = ''--'' then Inr (m, args)
      else let body = (if s ! 1 = CHR ''-'' then drop 2 s else drop 1 s)
           in if body = [] \<or> hd body = CHR ''-'' \<or> hd body = CHR ''='' then Inl FlagError
              else case flag_split body of (name, val) \<Rightarrow>
                (case map_of spec name of
                   None \<Rightarrow> Inl (if name = ''help'' \<or> name = ''h'' then FlagHelp else FlagError)
                 | Some True \<Rightarrow>
                     (case val of
                        None \<Rightarrow> flag_parse spec args (AList.update name ''true'' m)
                      | Some v \<Rightarrow>
                          (case ParseBool v of
                             None \<Rightarrow> Inl FlagError
                           | Some b \<Rightarrow>
                               flag_parse spec args (AList.update name (if b then ''true'' else ''false'') m)))
                 | Some False \<Rightarrow>
                     (case val of
                        Some v \<Rightarrow> flag_parse spec args (AList.update name v m)
                      | None \<Rightarrow>
                          (case args of
                             [] \<Rightarrow> Inl FlagError
                           | v # rest \<Rightarrow> flag_parse spec rest (AList.update name v m)))))"

declare flag_parse.simps(2) [simp del]

text \<open>A text flag with its value as the next argument.\<close>

lemma flag_parse_text:
  assumes "map_of spec name = Some False" and "name \<noteq> []" and "hd name \<noteq> CHR ''-''" and "CHR ''='' \<notin> set name"
  shows "flag_parse spec ((CHR ''-'' # name) # v # args) m = flag_parse spec args (AList.update name v m)"
proof -
  have "index_str ''='' name = None" using assms(4) by (intro index_str_none no_sep_char) simp_all
  moreover have "hd name \<noteq> CHR ''=''" using assms(2,4) by (metis list.set_sel(1))
  moreover obtain c cs where "name = c # cs" using assms(2) by (cases name) auto
  ultimately show ?thesis using assms by (simp add: flag_parse.simps(2) flag_split_def Let_def)
qed

subsection \<open>Paths\<close>

text \<open>The elements of a path, without empty ones and dots, and with \<open>..\<close> taken back where possible.\<close>

fun clean_elements :: "bool \<Rightarrow> string list \<Rightarrow> string list \<Rightarrow> string list" where
  "clean_elements rooted acc [] = rev acc"
| "clean_elements rooted acc (x # xs) =
     (if x = '''' \<or> x = ''.'' then clean_elements rooted acc xs
      else if x = ''..'' then
        (case acc of
           y # ys \<Rightarrow> if y = ''..'' then clean_elements rooted (x # acc) xs else clean_elements rooted ys xs
         | [] \<Rightarrow> clean_elements rooted (if rooted then [] else [x]) xs)
      else clean_elements rooted (x # acc) xs)"

definition path_Clean :: "string \<Rightarrow> string" where
  "path_Clean p =
     (let rooted = HasPrefix p ''/''; q = Join (clean_elements rooted [] (Split p ''/'')) ''/''
      in if rooted then ''/'' @ q else if q = '''' then ''.'' else q)"

definition path_Join :: "string list \<Rightarrow> string" where
  "path_Join elems =
     (let es = filter (\<lambda>e. e \<noteq> '''') elems in if es = [] then '''' else path_Clean (Join es ''/''))"

end
