(* ===== verification/Daemon.thy ===== *)
theory Daemon
  imports Progress Wal_Recovery Orrisctl Go_Os
begin

text \<open>
  The server daemon (\<^verbatim>\<open>cmd/orrisd\<close>): from its command line to the running node with its log file and
  its two listeners, and the accept loops of the listeners (\<^verbatim>\<open>StartRPCServer\<close> of
  \<^verbatim>\<open>internal/transport/tcp.go\<close> and \<^verbatim>\<open>StartClientServer\<close> of \<^verbatim>\<open>internal/client/server.go\<close>). What the
  operating system decides is the record \<open>daemon_env\<close>: which directories can be made, what the log
  file holds (nothing if it is new), whether it can be opened, positioned and read, and whether the
  process can listen on an address, given the addresses on which it listens already. Redirecting the
  daemon's own log output is left out.

  The properties join the control tool, the command line, the file and the cluster: what the tool
  starts is a member of the cluster, and starting it again is the crash step of the cluster.
\<close>

record daemon_env =
  env_mkdir :: "string \<Rightarrow> bool"
  env_file :: "string \<Rightarrow> byte list"
  env_open :: "string \<Rightarrow> bool"
  env_seek :: "string \<Rightarrow> bool"
  env_rewind :: "string \<Rightarrow> bool"
  env_bad :: "string \<Rightarrow> nat option"
  env_listen :: "string list \<Rightarrow> string \<Rightarrow> bool"

record daemon =
  d_node :: node
  d_path :: string
  d_file :: WAL
  d_consensus :: string
  d_client :: string

datatype daemon_result = Exit int | Running daemon

definition orrisd_flags :: "(string \<times> bool) list" where
  "orrisd_flags =
     [(''id'', False), (''addr'', False), (''client'', False), (''peers'', False), (''data'', False),
      (''log'', False), (''version'', True)]"

text \<open>\<^verbatim>\<open>NewNode\<close> on a path: open the log, read it, and build the node from what was read.\<close>

definition NewNode_at ::
    "gob_dec \<Rightarrow> daemon_env \<Rightarrow> string \<Rightarrow> string \<Rightarrow> (string, string) go_map \<Rightarrow> string \<Rightarrow> wal_error + node \<times> WAL" where
  "NewNode_at dec env i addr peers path =
     (case OpenWAL (env_open env path) (env_seek env path) (env_file env path) of
        Inl err \<Rightarrow> Inl err
      | Inr w \<Rightarrow>
          (let (ra, w') = WAL_ReadAll dec (env_rewind env path) (env_bad env path) w
           in Inr (NewNode i addr peers \<lparr>j_open = True, j_records = fst ra\<rparr> ra, w')))"

definition orrisd_main :: "gob_dec \<Rightarrow> daemon_env \<Rightarrow> string list \<Rightarrow> daemon_result" where
  "orrisd_main dec env args =
     (case flag_parse orrisd_flags args [] of
        Inl e \<Rightarrow> Exit (flag_status e)
      | Inr (m, rest) \<Rightarrow>
          if go_get m ''version'' ''false'' = ''true'' then Exit 0
          else
            let i = go_get m ''id'' ''node1''; addr = go_get m ''addr'' ''127.0.0.1:8001'';
                clientAddr = go_get m ''client'' ''127.0.0.1:9001'';
                peers = parse_peers (go_get m ''peers'' ''''); dataDir = go_get m ''data'' ''./data/node1'';
                walPath = path_Join [dataDir, ''wal.log'']
            in if \<not> env_mkdir env dataDir then Exit 1
               else case NewNode_at dec env i addr peers walPath of
                      Inl err \<Rightarrow> Exit 1
                    | Inr (n, w) \<Rightarrow>
                        if \<not> env_listen env [] addr then Exit 1
                        else if \<not> env_listen env [addr] clientAddr then Exit 1
                        else Running \<lparr>d_node = n, d_path = walPath, d_file = w, d_consensus = addr,
                               d_client = clientAddr\<rparr>)"

text \<open>After a signal: the channel that ends the listeners is closed, then the node is stopped.\<close>

definition orrisd_shutdown :: "daemon \<Rightarrow> daemon" where
  "orrisd_shutdown d = d\<lparr>d_node := Stop (d_node d)\<rparr>"

subsection \<open>Accept loops\<close>

text \<open>
  What \<^verbatim>\<open>Accept\<close> returns: a connection, or an error together with whether \<^verbatim>\<open>stopCh\<close> is closed then. The
  loop hands every connection to a handler of its own, goes on after an error, and returns only when
  the channel is closed; the flag says that it has returned.
\<close>

datatype 'c accept_event = Accepted 'c | AcceptFailed bool

fun accept_loop :: "'c accept_event list \<Rightarrow> 'c list \<times> bool" where
  "accept_loop [] = ([], False)"
| "accept_loop (Accepted conn # es) = (let (served, ended) = accept_loop es in (conn # served, ended))"
| "accept_loop (AcceptFailed closed # es) = (if closed then ([], True) else accept_loop es)"

definition StartRPCServer :: "bool \<Rightarrow> 'c accept_event list \<Rightarrow> ('c list \<times> bool) option" where
  "StartRPCServer listens es = (if listens then Some (accept_loop es) else None)"

definition StartClientServer :: "bool \<Rightarrow> 'c accept_event list \<Rightarrow> ('c list \<times> bool) option" where
  "StartClientServer listens es = (if listens then Some (accept_loop es) else None)"

text \<open>
  A loop serves the connections that come before the first error after the close, and ends exactly
  there; other errors lose nothing.
\<close>

lemma accept_loop_served:
  "accept_loop es =
     (concat (map (\<lambda>e. case e of Accepted conn \<Rightarrow> [conn] | AcceptFailed _ \<Rightarrow> []) (takeWhile (\<lambda>e. e \<noteq> AcceptFailed True) es)),
      AcceptFailed True \<in> set es)"
  by (induction es rule: accept_loop.induct) auto

subsection \<open>The command line of the control tool\<close>

lemma orrisd_node_args:
  "flag_parse orrisd_flags (node_args i n) [] =
     Inr ([(''id'', node_id i), (''addr'', node_addr i), (''client'', client_addr i), (''peers'', peers_arg i n),
       (''data'', ''./data/node'' @ Itoa i), (''log'', ''node'' @ Itoa i @ ''.log'')], [])"
  by (simp add: node_args_def flag_parse_text orrisd_flags_def)

definition wal_path :: "int \<Rightarrow> string" where
  "wal_path i = ''data/node'' @ Itoa i @ ''/wal.log''"

lemma wal_path_inject: "wal_path i = wal_path j \<longleftrightarrow> i = j"
  using node_id_inject [of i j] by (simp add: wal_path_def node_id_def)

lemma Split_path:
  assumes "CHR ''/'' \<notin> set x"
  shows "Split (''./data/'' @ x @ ''/wal.log'') ''/'' = [''.'', ''data'', x, ''wal.log'']"
    and "Split (''data/'' @ x @ ''/wal.log'') ''/'' = [''data'', x, ''wal.log'']"
proof -
  have "Split (Join [''.'', ''data'', x, ''wal.log''] ''/'') ''/'' = [''.'', ''data'', x, ''wal.log'']"
    using assms by (intro Split_Join part_ok_char) auto
  then show "Split (''./data/'' @ x @ ''/wal.log'') ''/'' = [''.'', ''data'', x, ''wal.log'']" by simp
  have "Split (Join [''data'', x, ''wal.log''] ''/'') ''/'' = [''data'', x, ''wal.log'']"
    using assms by (intro Split_Join part_ok_char) auto
  then show "Split (''data/'' @ x @ ''/wal.log'') ''/'' = [''data'', x, ''wal.log'']" by simp
qed

lemma node_wal_path:
  "path_Join [''./data/node'' @ Itoa i, ''wal.log''] = wal_path i"
  "path_Join [''data'', node_id i, ''wal.log''] = wal_path i"
proof -
  have x: "CHR ''/'' \<notin> set (node_id i)" by (simp add: node_id_def digit_not_in_Itoa is_digit_def)
  show "path_Join [''./data/node'' @ Itoa i, ''wal.log''] = wal_path i"
    using Split_path(1) [OF x] by (simp add: path_Join_def path_Clean_def HasPrefix_def node_id_def wal_path_def)
  show "path_Join [''data'', node_id i, ''wal.log''] = wal_path i"
    using Split_path(2) [OF x] by (simp add: path_Join_def path_Clean_def HasPrefix_def node_id_def wal_path_def)
qed

text \<open>A machine on which directories and files work.\<close>

definition env_fine :: "daemon_env \<Rightarrow> bool" where
  "env_fine env \<longleftrightarrow> (\<forall>x. env_mkdir env x \<and> env_open env x \<and> env_seek env x \<and> env_rewind env x \<and>
     env_bad env x = None)"

text \<open>
  Listeners on the machine: \<^verbatim>\<open>net.Listen\<close> fails on an address on which there is a listener, and succeeds on a
  port of the loopback interface that is neither reserved nor taken, as long as the machine has no
  listeners but those given. \<open>beside used env\<close> is what a process finds when others listen on \<open>used\<close>.
\<close>

definition loopback :: "int \<Rightarrow> string" where
  "loopback port = ''127.0.0.1:'' @ Itoa port"

definition tcp_listen :: "(string list \<Rightarrow> string \<Rightarrow> bool) \<Rightarrow> bool" where
  "tcp_listen listen \<longleftrightarrow>
     (\<forall>held a. a \<in> set held \<longrightarrow> \<not> listen held a) \<and>
     (\<forall>held port. 1024 \<le> port \<longrightarrow> port \<le> 65535 \<longrightarrow> set held \<subseteq> range loopback \<longrightarrow> loopback port \<notin> set held \<longrightarrow>
        listen held (loopback port))"

definition beside :: "string list \<Rightarrow> daemon_env \<Rightarrow> daemon_env" where
  "beside used env = env\<lparr>env_listen := \<lambda>held. env_listen env (held @ used)\<rparr>"

lemma loopback_inject [simp]: "loopback p = loopback q \<longleftrightarrow> p = q"
  using node_id_inject [of p q] by (simp add: loopback_def node_id_def)

lemma beside_simps [simp]:
  "env_fine (beside used env) = env_fine env" "env_file (beside used env) = env_file env"
  "env_listen (beside used env) held = env_listen env (held @ used)"
  by (simp_all add: beside_def env_fine_def)

text \<open>The addresses of the nodes that the control tool starts.\<close>

lemma node_ports:
  assumes "i \<in> {1..1000}"
  shows "node_addr i = loopback (8000 + i)" and "client_addr i = loopback (9000 + i)"
  using assms by (simp_all add: node_addr_def client_addr_def loopback_def int64_id)

lemma own_ports_free:
  assumes "tcp_listen listen" and i: "i \<in> {1..n}" and n: "n \<le> 1000"
    and used: "set used \<subseteq> node_addr ` ({1..n} - {i}) \<union> client_addr ` ({1..n} - {i})"
  shows "listen used (node_addr i) \<and> listen (node_addr i # used) (client_addr i)"
proof -
  have p: "node_addr j = loopback (8000 + j)" "client_addr j = loopback (9000 + j)" if "j \<in> {1..n}" for j
    using that n node_ports [of j] by auto
  have free: "listen held (loopback port)"
    if "1024 \<le> port" "port \<le> 65535" "set held \<subseteq> range loopback" "loopback port \<notin> set held" for held port
    using assms(1) that by (simp add: tcp_listen_def)
  have "\<exists>j \<in> {1..n} - {i}. a = loopback (8000 + j) \<or> a = loopback (9000 + j)" if "a \<in> set used" for a
    using used p that by fast
  then have held: "set used \<subseteq> range loopback" "loopback (8000 + i) \<notin> set used" "loopback (9000 + i) \<notin> set used"
    using i n by fastforce+
  then have "listen used (loopback (8000 + i))" using i n by (intro free) simp_all
  moreover have "listen (loopback (8000 + i) # used) (loopback (9000 + i))" using i n held by (intro free) simp_all
  ultimately show ?thesis by (simp add: p [OF i])
qed

lemma shared_port: "node_addr (1000 + j) = client_addr j"
  by (simp add: node_addr_def client_addr_def)

lemma NewNode_at_clean:
  assumes "env_fine env" and "gob_codec enc dec" and "list_all (fits enc) rs" and "env_file env path = frames enc rs"
  shows "NewNode_at dec env i addr peers path =
    Inr (NewNode i addr peers \<lparr>j_open = True, j_records = rs\<rparr> (rs, None),
      \<lparr>w_open = True, w_disk = frames enc rs, w_off = length (frames enc rs)\<rparr>)"
  using assms(1,4) read_all_clean [OF assms(2,3)]
  by (simp add: env_fine_def NewNode_at_def OpenWAL_def WAL_ReadAll_def)

lemma orrisd_main_node_args:
  assumes "env_fine env" and "gob_codec enc dec" and "list_all (fits enc) rs"
    and "env_file env (wal_path i) = frames enc rs"
    and "env_listen env [] (node_addr i)" and "env_listen env [node_addr i] (client_addr i)"
  shows "orrisd_main dec env (node_args i n) =
    Running \<lparr>d_node = NewNode (node_id i) (node_addr i) (peers_of (cluster_config n) (node_id i))
          \<lparr>j_open = True, j_records = rs\<rparr> (rs, None),
        d_path = wal_path i, d_file = \<lparr>w_open = True, w_disk = frames enc rs, w_off = length (frames enc rs)\<rparr>,
        d_consensus = node_addr i, d_client = client_addr i\<rparr>"
proof -
  have "env_mkdir env x" for x using assms(1) by (simp add: env_fine_def)
  then show ?thesis
    using NewNode_at_clean [OF assms(1-4)] assms(5,6)
    by (simp add: orrisd_main_def orrisd_node_args go_get_def node_wal_path parse_peers_arg Let_def del: append_Cons)
qed

lemma orrisd_main_no_listener:
  assumes "\<not> env_listen env [] (node_addr i) \<or> \<not> env_listen env [node_addr i] (client_addr i)"
  shows "orrisd_main dec env (node_args i n) = Exit 1"
  using assms
  by (auto simp: orrisd_main_def orrisd_node_args go_get_def Let_def simp del: append_Cons split: sum.split prod.split)

lemma node_identity:
  assumes "reachable (cluster_config n) c" and "i \<in> {1..n}"
  shows "ID (nodes c (node_id i)) = node_id i" and "Peers (nodes c (node_id i)) = peers_of (cluster_config n) (node_id i)"
    and "Addr (nodes c (node_id i)) = node_addr i"
proof -
  obtain a where a: "cluster_rel (cluster_config n) c a" by (rule reachable_related [OF good_cluster_config assms(1)])
  have "node_id i \<in> set (members (cluster_config n))" using assms(2) by simp
  from cluster_relD(3) [OF a this]
  show "ID (nodes c (node_id i)) = node_id i" "Peers (nodes c (node_id i)) = peers_of (cluster_config n) (node_id i)"
    by (simp_all add: node_ok_def)
  have "grows (nodes (start_cluster (cluster_config n)) (node_id i)) (nodes c (node_id i))"
    using assms(1) by (intro grows_steps [OF good_cluster_config]) (simp_all add: reachable_def)
  then have "Addr (nodes c (node_id i)) = go_get (cluster_config n) (node_id i) ''''"
    by (simp add: grows_def start_cluster_def start_node_restart initial_node_def node_simps)
  then show "Addr (nodes c (node_id i)) = node_addr i" by (simp add: cluster_config_addr [OF assms(2)])
qed

lemma started_node:
  "i \<in> {1..n} \<Longrightarrow> nodes (start_cluster (cluster_config n)) (node_id i) =
     NewNode (node_id i) (node_addr i) (peers_of (cluster_config n) (node_id i)) \<lparr>j_open = True, j_records = []\<rparr> ([], None)"
  by (simp add: start_cluster_def start_node_def cluster_config_addr)

subsection \<open>Properties\<close>

text \<open>
  C31: the tool starts the cluster, up to a thousand nodes. On a new machine the daemons that \<^verbatim>\<open>start\<close>
  starts, each from the command line it is given, are the members of one configuration, each with its
  own log file. With at most 1000 nodes all their addresses are different, and whichever of the others
  listen already, each daemon comes up in the initial state of the cluster model: with its own name and
  address, the other members as its peers, and listening on its own two addresses. With more nodes the
  consensus address of node \<open>1000 + j\<close> is the client address of node \<open>j\<close>: whichever of these two daemons
  comes second exits with status 1.
\<close>

theorem started_cluster:
  assumes "env_fine env" and "gob_codec enc dec" and "\<And>path. env_file env path = []" and "tcp_listen (env_listen env)"
  shows "let n = (if count < 1 then 3 else count); cfg = cluster_config n;
      start = (\<lambda>i used. orrisd_main dec (beside used env) (clusterStart_args count ! nat (i - 1)))
    in good_config cfg \<and> members cfg = map node_id [1..n] \<and> length (clusterStart_args count) = nat n \<and>
      distinct (map wal_path [1..n]) \<and>
      (n \<le> 1000 \<longrightarrow> distinct (map node_addr [1..n] @ map client_addr [1..n]) \<and>
         (\<forall>i \<in> {1..n}. \<forall>used. set used \<subseteq> node_addr ` ({1..n} - {i}) \<union> client_addr ` ({1..n} - {i}) \<longrightarrow>
            start i used =
              Running \<lparr>d_node = nodes (start_cluster cfg) (node_id i), d_path = wal_path i,
                d_file = \<lparr>w_open = True, w_disk = [], w_off = 0\<rparr>, d_consensus = node_addr i, d_client = client_addr i\<rparr>)) \<and>
      (\<forall>j \<in> {1..n - 1000}. \<forall>used.
         (client_addr j \<in> set used \<longrightarrow> start (1000 + j) used = Exit 1) \<and>
         (node_addr (1000 + j) \<in> set used \<longrightarrow> start j used = Exit 1))"
proof -
  define n where "n = (if count < 1 then 3 else count)"
  have args: "clusterStart_args count ! nat (i - 1) = node_args i n" if "1 \<le> i" "i \<le> n" for i
    using that by (simp add: clusterStart_args_def n_def [symmetric] Let_def nth_upto)
  have far: "clusterStart_args count ! nat (999 + j) = node_args (1000 + j) n" if "1 \<le> j" "1000 + j \<le> n" for j
    using args [of "1000 + j"] that by simp
  have paths: "distinct (map wal_path [1..n])" by (simp add: distinct_map inj_on_def wal_path_inject)
  have taken: "\<not> env_listen env held a" if "a \<in> set held" for held a
    using assms(4) that by (simp add: tcp_listen_def)
  have "distinct (map node_addr [1..n] @ map client_addr [1..n])" if "n \<le> 1000"
    using that by (auto simp: distinct_map inj_on_def node_ports)
  moreover have "orrisd_main dec (beside used env) (node_args i n) =
      Running \<lparr>d_node = nodes (start_cluster (cluster_config n)) (node_id i), d_path = wal_path i,
        d_file = \<lparr>w_open = True, w_disk = [], w_off = 0\<rparr>, d_consensus = node_addr i, d_client = client_addr i\<rparr>"
    if "n \<le> 1000" and i: "1 \<le> i" "i \<le> n" and used: "set used \<subseteq> node_addr ` ({1..n} - {i}) \<union> client_addr ` ({1..n} - {i})" for i used
    using orrisd_main_node_args [of "beside used env" enc dec "[]" i n] own_ports_free [OF assms(4) _ that(1) used] assms(1-3) i
    by (simp add: started_node frames_def)
  moreover have "orrisd_main dec (beside used env) (node_args (1000 + j) n) = Exit 1" if "client_addr j \<in> set used" for j used
    using that taken [of "client_addr j" used] by (intro orrisd_main_no_listener) (simp add: shared_port)
  moreover have "orrisd_main dec (beside used env) (node_args j n) = Exit 1" if "node_addr (1000 + j) \<in> set used" for j used
    using that taken [of "client_addr j" "node_addr j # used"] by (intro orrisd_main_no_listener) (simp add: shared_port)
  moreover have "length (clusterStart_args count) = nat n" by (simp add: clusterStart_args_def n_def [symmetric] Let_def)
  ultimately show ?thesis
    using good_cluster_config [of n] paths args far unfolding n_def [symmetric] by (simp add: Let_def)
qed

text \<open>
  C17: starting a node again is the crash step of the cluster. Whatever a cluster that the tool
  started has done, the daemon that is started on the command line of node \<open>i\<close>, on the file to which
  that node's records were appended and with its two addresses free, is the node that the cluster has
  after the crash of \<open>i\<close>, and it listens on the addresses the other members and the clients know.
\<close>

theorem daemon_restart:
  assumes "reachable (cluster_config n) c" and "i \<in> {1..n}" and "env_fine env" and "gob_codec enc dec"
    and "env_listen env [] (node_addr i)" and "env_listen env [node_addr i] (client_addr i)"
    and "list_all (fits enc) (records (nodes c (node_id i)))"
    and "env_file env (wal_path i) = wal_session enc (records (nodes c (node_id i))) []"
  shows "\<exists>d. orrisd_main dec env (node_args i n) = Running d \<and>
    d_node d = nodes (do_crash (node_id i) c) (node_id i) \<and> d_consensus d = go_get (cluster_config n) (node_id i) '''' \<and>
    d_client d = client_addr i \<and> reachable (cluster_config n) (do_crash (node_id i) c)"
proof -
  have "reachable (cluster_config n) (do_crash (node_id i) c)"
    using assms(2) by (intro reachable_step [OF assms(1)] cstep.c_crash) simp
  moreover have "env_file env (wal_path i) = frames enc (records (nodes c (node_id i)))"
    using assms(7,8) by (simp add: wal_session_disk)
  ultimately show ?thesis
    using orrisd_main_node_args [OF assms(3,4,7) _ assms(5,6)] node_identity [OF assms(1,2)]
    by (simp add: do_crash_def upd_def restart_def cluster_config_addr [OF assms(2)])
qed

definition sample_env :: "(string \<Rightarrow> byte list) \<Rightarrow> daemon_env" where
  "sample_env file =
     \<lparr>env_mkdir = (\<lambda>_. True), env_file = file, env_open = (\<lambda>_. True), env_seek = (\<lambda>_. True),
      env_rewind = (\<lambda>_. True), env_bad = (\<lambda>_. None), env_listen = (\<lambda>held a. a \<notin> set held)\<rparr>"

lemma sample_env_fine: "env_fine (sample_env file)" "tcp_listen (env_listen (sample_env file))"
  by (simp_all add: env_fine_def tcp_listen_def sample_env_def)

lemma sample_env_listens:
  "env_listen (sample_env file) [] (node_addr i)" "i \<in> {1..1000} \<Longrightarrow> env_listen (sample_env file) [node_addr i] (client_addr i)"
  by (simp_all add: sample_env_def node_ports)

text \<open>The second of three nodes when the first one is up, and node 1001 of 1001 when the first one is up.\<close>

theorem started_cluster_witness:
  "(\<exists>d. orrisd_main sample_dec (beside [node_addr 1, client_addr 1] (sample_env (\<lambda>_. []))) (clusterStart_args 0 ! 1) = Running d \<and>
      ID (d_node d) = node_id 2) \<and>
   orrisd_main sample_dec (beside [node_addr 1, client_addr 1] (sample_env (\<lambda>_. []))) (clusterStart_args 1001 ! 1000) = Exit 1"
proof -
  let ?used = "[node_addr 1, client_addr 1]"
  note three = started_cluster [OF sample_env_fine(1) sample_codec _ sample_env_fine(2), of "\<lambda>_. []" 0]
  have "\<forall>i \<in> {1..3 :: int}. \<forall>used. set used \<subseteq> node_addr ` ({1..3} - {i}) \<union> client_addr ` ({1..3} - {i}) \<longrightarrow>
      orrisd_main sample_dec (beside used (sample_env (\<lambda>_. []))) (clusterStart_args 0 ! nat (i - 1)) =
        Running \<lparr>d_node = nodes (start_cluster (cluster_config 3)) (node_id i), d_path = wal_path i,
          d_file = \<lparr>w_open = True, w_disk = [], w_off = 0\<rparr>, d_consensus = node_addr i, d_client = client_addr i\<rparr>"
    using three by (simp add: Let_def sample_env_def)
  from bspec [OF this, of 2] have "\<exists>d. orrisd_main sample_dec (beside ?used (sample_env (\<lambda>_. []))) (clusterStart_args 0 ! 1) = Running d \<and>
      d_node d = nodes (start_cluster (cluster_config 3)) (node_id 2)" by simp
  moreover have "ID (nodes (start_cluster (cluster_config 3)) (node_id 2)) = node_id 2"
    by (simp add: node_identity(1) [OF reachable_start])
  moreover have "orrisd_main sample_dec (beside ?used (sample_env (\<lambda>_. []))) (clusterStart_args 1001 ! 1000) = Exit 1"
    using started_cluster [OF sample_env_fine(1) sample_codec _ sample_env_fine(2), of "\<lambda>_. []" 1001]
    by (simp add: Let_def sample_env_def)
  ultimately show ?thesis by auto
qed

text \<open>A node of the started cluster after it has voted for itself.\<close>

definition voted_cluster :: cluster where
  "voted_cluster = do_timeout (node_id 1) (start_cluster (cluster_config 2))"

lemma voted_cluster:
  "reachable (cluster_config 2) voted_cluster" "records (nodes voted_cluster (node_id 1)) = [state_record 1 (node_id 1)]"
proof -
  have start: "CurrentTerm (nodes (start_cluster (cluster_config 2)) (node_id 1)) = 0"
    "State (nodes (start_cluster (cluster_config 2)) (node_id 1)) = Follower"
    "ID (nodes (start_cluster (cluster_config 2)) (node_id 1)) = node_id 1"
    "wal (nodes (start_cluster (cluster_config 2)) (node_id 1)) = \<lparr>j_open = True, j_records = []\<rparr>"
    by (simp_all add: start_cluster_def start_node_restart restart_eq initial_node_def node_simps
        journal_state_def persist0_def)
  then show "reachable (cluster_config 2) voted_cluster"
    unfolding voted_cluster_def by (intro reachable_step [OF reachable_start] cstep.c_timeout) (simp_all add: max_int_def)
  show "records (nodes voted_cluster (node_id 1)) = [state_record 1 (node_id 1)]"
    using start by (simp add: voted_cluster_def do_timeout_def startElection_begin_def Let_def node_simps int64_def)
qed

theorem daemon_restart_witness:
  "\<exists>d. orrisd_main sample_dec (sample_env (\<lambda>_. wal_session sample_enc [state_record 1 (node_id 1)] [])) (node_args 1 2) =
      Running d \<and> CurrentTerm (d_node d) = 1 \<and> VotedFor (d_node d) = node_id 1"
proof -
  have id: "node_id 1 = ''node1''" by code_simp
  have "fits sample_enc (state_record 1 ''node1'')" by (simp add: fits_def encode_defs)
  then have "\<exists>d. orrisd_main sample_dec (sample_env (\<lambda>_. wal_session sample_enc [state_record 1 (node_id 1)] []))
      (node_args 1 2) = Running d \<and> d_node d = nodes (do_crash (node_id 1) voted_cluster) (node_id 1)"
    using daemon_restart [OF voted_cluster(1) _ sample_env_fine(1) sample_codec sample_env_listens(1), of 1
        "\<lambda>_. wal_session sample_enc [state_record 1 (node_id 1)] []"] sample_env_listens(2) [of 1] voted_cluster(2) id
    by (auto simp: sample_env_def)
  moreover have "CurrentTerm (restart (nodes voted_cluster (node_id 1))) = 1 \<and>
      VotedFor (restart (nodes voted_cluster (node_id 1))) = node_id 1"
    using voted_cluster(2) by (simp add: node_simps journal_state_def)
  ultimately show ?thesis by (auto simp: do_crash_def upd_def)
qed

end
