(* ===== verification/Orrisctl_Main.thy ===== *)
theory Orrisctl_Main
  imports Orrisctl Raft_Spec
begin

text \<open>
  How the control tool chooses what to do: \<open>main_command\<close> for its command line (\<^verbatim>\<open>main\<close>) and
  \<open>repl_line\<close> for a line typed at its prompt (\<^verbatim>\<open>runREPL\<close>). The actions themselves are in
  \<open>Orrisctl\<close>, or are output and process control and appear here by name only. A command word with
  letters outside ASCII is only converted as far as it matters for the comparison; no server knows
  such a command.
\<close>

datatype ctl_command =
    CtlStart int
  | CtlStop
  | CtlKillLeader
  | CtlKill string
  | CtlSpawn int int
  | CtlNodeWAL string
  | CtlAllWALs
  | CtlBench int int
  | CtlPing
  | CtlLeader
  | CtlStatus
  | CtlKeys
  | CtlLogs
  | CtlDemo
  | CtlUsage
  | CtlDashboard
  | CtlREPL
  | CtlRouted string "string list"
  | CtlSingle string string "string list"

text \<open>An optional positive number at position \<open>k\<close>.\<close>

definition number_arg :: "int \<Rightarrow> string list \<Rightarrow> nat \<Rightarrow> int" where
  "number_arg dflt args k =
     (if length args > k
      then let (c, ok) = Atoi (args ! k) in if ok \<and> c > 0 then c else dflt
      else dflt)"

definition spawn_number :: "string list \<Rightarrow> int" where
  "spawn_number args =
     (if length args > 1
      then let (c, ok) = Atoi (TrimPrefix (ToLower (args ! 1)) ''node'') in if ok then c else 1
      else 1)"

definition main_command :: "string \<Rightarrow> string \<Rightarrow> bool \<Rightarrow> string list \<Rightarrow> ctl_command" where
  "main_command addr nodesFlag watchMode args =
     (if args \<noteq> [] then
        let nodeAddrs = Split nodesFlag '',''; cmd = ToUpper (args ! 0)
        in if cmd \<in> {''START'', ''UP''} then CtlStart (number_arg 3 args 1)
           else if cmd \<in> {''STOP'', ''DOWN''} then CtlStop
           else if cmd \<in> {''KILL-LEADER'', ''KILLLEADER''} then CtlKillLeader
           else if cmd = ''KILL'' then CtlKill (if length args > 1 then args ! 1 else ''leader'')
           else if cmd \<in> {''SPAWN'', ''START-NODE'', ''RESTART''} then CtlSpawn (spawn_number args) 3
           else if cmd \<in> {''WALS'', ''WAL''} then (if length args > 1 then CtlNodeWAL (args ! 1) else CtlAllWALs)
           else if cmd \<in> {''BENCH'', ''BENCHMARK''} then CtlBench (number_arg 50 args 1) (number_arg 5 args 2)
           else if cmd = ''PING'' then CtlPing
           else if cmd = ''LEADER'' then CtlLeader
           else if cmd \<in> {''STATUS'', ''INFO''} then CtlStatus
           else if cmd = ''KEYS'' then CtlKeys
           else if cmd \<in> {''LOGS'', ''LOG''} then CtlLogs
           else if cmd = ''DEMO'' then CtlDemo
           else if cmd = ''CLUSTER'' then
             (if length args > 1
              then let sub = ToUpper (args ! 1)
                   in if sub \<in> {''START'', ''UP''} then CtlStart (number_arg 3 args 2)
                      else if sub \<in> {''STOP'', ''DOWN''} then CtlStop
                      else if sub = ''KILL-LEADER'' then CtlKillLeader
                      else CtlUsage
              else CtlUsage)
           else if cmd \<in> {''RUN'', ''LIVE'', ''DASHBOARD'', ''TOP'', ''UI''} then CtlDashboard
           else if cmd \<in> {''REPL'', ''INTERACTIVE''} then CtlREPL
           else let targetAddr = (if addr = '''' then nodeAddrs ! 0 else addr)
                in if cmd = ''SET'' \<or> cmd = ''DELETE'' \<or> cmd = ''DEL'' then CtlRouted cmd (drop 1 args)
                   else CtlSingle targetAddr cmd (drop 1 args)
      else if watchMode then CtlDashboard
      else CtlREPL)"

text \<open>
  One line at the prompt. \<open>ReplAgain\<close> goes back to the dashboard at once, \<open>ReplRun\<close> runs a command
  and waits for Enter, \<open>ReplWatch\<close> and \<open>ReplQuit\<close> leave the loop. \<open>ReplSet\<close>, \<open>ReplGet\<close> and
  \<open>ReplDel\<close> carry the key and the value, \<open>ReplUsage\<close> the usage of the command.
\<close>

datatype repl_action =
    ReplAgain
  | ReplQuit
  | ReplWatch
  | ReplRun ctl_command
  | ReplUsage string
  | ReplSet string string
  | ReplGet string
  | ReplDel string
  | ReplHelp
  | ReplUnknown string

definition repl_command :: "int \<Rightarrow> string list \<Rightarrow> string \<Rightarrow> repl_action" where
  "repl_command displayed parts cmd =
     (if cmd \<in> {''exit'', ''quit'', ''q''} then ReplQuit
      else if cmd \<in> {''clear'', ''cls''} then ReplAgain
      else if cmd \<in> {''start'', ''up'', ''scale''} then ReplRun (CtlStart (number_arg 3 parts 1))
      else if cmd \<in> {''stop'', ''down''} then ReplRun CtlStop
      else if cmd \<in> {''kill-leader'', ''killleader''} then ReplRun CtlKillLeader
      else if cmd = ''kill'' then ReplRun (CtlKill (if length parts > 1 then parts ! 1 else ''leader''))
      else if cmd \<in> {''spawn'', ''start-node'', ''restart-node'', ''restart''}
        then ReplRun (CtlSpawn (spawn_number parts) displayed)
      else if cmd = ''ping'' then ReplRun CtlPing
      else if cmd = ''leader'' then ReplRun CtlLeader
      else if cmd \<in> {''status'', ''info''} then ReplRun CtlStatus
      else if cmd \<in> {''keys'', ''dump''} then ReplRun CtlKeys
      else if cmd = ''wals'' then ReplRun CtlAllWALs
      else if cmd = ''wal'' then ReplRun (if length parts > 1 then CtlNodeWAL (parts ! 1) else CtlAllWALs)
      else if cmd \<in> {''watch'', ''top''} then ReplWatch
      else if cmd = ''set'' then
        (if length parts < 3 then ReplUsage ''set <key> <value>''
         else ReplSet (parts ! 1) (Join (drop 2 parts) '' ''))
      else if cmd = ''get'' then (if length parts < 2 then ReplUsage ''get <key>'' else ReplGet (parts ! 1))
      else if cmd \<in> {''del'', ''delete''} then
        (if length parts < 2 then ReplUsage ''del <key>'' else ReplDel (parts ! 1))
      else if cmd \<in> {''bench'', ''benchmark''}
        then ReplRun (CtlBench (number_arg 50 parts 1) (number_arg 5 parts 2))
      else if cmd \<in> {''logs'', ''log''} then ReplRun CtlLogs
      else if cmd \<in> {''help'', ''?''} then ReplHelp
      else ReplUnknown cmd)"

text \<open>\<open>displayed\<close> is the number of nodes on the dashboard. \<^verbatim>\<open>parts[0]\<close> is an index expression.\<close>

definition repl_line :: "int \<Rightarrow> string \<Rightarrow> repl_action go" where
  "repl_line displayed text =
     (let line = TrimSpace text
      in if line = '''' then Inr ReplAgain
         else let line' = TrimSpace (TrimPrefix (TrimPrefix line ''orris>'') ''orris >'')
              in if line' = '''' then Inr ReplAgain
                 else let parts = Fields line'
                      in go_bind (index_at parts 0) (\<lambda>w. Inr (repl_command displayed parts (ToLower w))))"

text \<open>The lines that are sent for a write.\<close>

definition set_line :: "string \<Rightarrow> string \<Rightarrow> string" where
  "set_line key val = ''SET '' @ key @ '' '' @ val"

definition del_line :: "string \<Rightarrow> string" where
  "del_line key = ''DEL '' @ key"

text \<open>\<^verbatim>\<open>get\<close> at the prompt asks the reachable nodes in turn; the value and the address it came from.\<close>

fun repl_get :: "network \<Rightarrow> nat \<Rightarrow> NodeInfo list \<Rightarrow> string \<Rightarrow> (string \<times> string) option" where
  "repl_get tcp k [] line = None"
| "repl_get tcp k (n # ns) line =
     (if ni_Online n
      then case sendRawCommand (tcp k) (ni_Addr n) line of
             Some res \<Rightarrow> if HasPrefix res ''VALUE'' then Some (TrimPrefix res ''VALUE '', ni_Addr n)
                         else repl_get tcp (k + 1) ns line
           | None \<Rightarrow> repl_get tcp (k + 1) ns line
      else repl_get tcp k ns line)"

subsection \<open>Words of a trimmed line\<close>

lemma space_len_take:
  assumes "space_len s = 0"
  shows "space_len (take m s) = 0"
proof -
  have pos: "0 < length r" if "r \<in> set space_runes" for r
    using that space_runes_visible by (auto simp: list_all_iff)
  have "filter (\<lambda>r. prefix r s) space_runes = []"
  proof (rule ccontr)
    assume "filter (\<lambda>r. prefix r s) space_runes \<noteq> []"
    then obtain r rs where "filter (\<lambda>r. prefix r s) space_runes = r # rs" by (cases "filter (\<lambda>r. prefix r s) space_runes") auto
    moreover from this have "r \<in> set space_runes" by (metis filter_is_subset list.set_intros(1) subsetD)
    ultimately show False using assms pos [of r] by (simp add: space_len_def)
  qed
  then have "\<not> prefix r (take m s)" if "r \<in> set space_runes" for r
    using that by (metis filter_empty_conv prefix_order.order_trans take_is_prefix)
  then have "filter (\<lambda>r. prefix r (take m s)) space_runes = []" by (simp add: filter_empty_conv)
  then show ?thesis by (simp add: space_len_def)
qed

lemma trim_left_start: "trim_left s \<noteq> [] \<Longrightarrow> space_len (trim_left s) = 0"
proof (induction s rule: trim_left.induct)
  case (1 s)
  then show ?case
    by (cases "space_len s = 0 \<or> s = []") (auto simp: trim_left.simps [of s])
qed

lemma trim_right_take: "\<exists>m. trim_right s = take m s"
proof (induction s rule: trim_right.induct)
  case (1 s)
  show ?case
  proof (cases "space_len_end s = 0 \<or> s = []")
    case True
    then have "trim_right s = take (length s) s" by (simp add: trim_right.simps [of s])
    then show ?thesis ..
  next
    case False
    then show ?thesis using 1 by (metis take_take trim_right.simps)
  qed
qed

lemma fields_from_nonempty: "w \<noteq> [] \<Longrightarrow> fields_from w s \<noteq> []"
  by (induction w s rule: fields_from.induct) auto

lemma Fields_TrimSpace:
  assumes "TrimSpace s \<noteq> []"
  shows "Fields (TrimSpace s) \<noteq> []"
proof -
  obtain m where m: "TrimSpace s = take m (trim_left s)" using trim_right_take by (auto simp: TrimSpace_def)
  then have "space_len (TrimSpace s) = 0" using assms trim_left_start by (auto intro: space_len_take)
  then show ?thesis using assms by (cases "TrimSpace s") (auto simp: Fields_def fields_from_nonempty)
qed

lemma Join_visible_ends:
  assumes "ws \<noteq> []" and "list_all (\<lambda>w. w \<noteq> [] \<and> list_all visible w) ws"
  shows "Join ws '' '' \<noteq> []" and "visible (last (Join ws '' ''))"
proof -
  have "Join ws '' '' \<noteq> [] \<and> visible (last (Join ws '' ''))" using assms
  proof (induction ws rule: induct_list012)
    case (2 x)
    then show ?case by (simp add: list_all_iff)
  qed simp_all
  then show "Join ws '' '' \<noteq> []" "visible (last (Join ws '' ''))" by simp_all
qed

lemma repl_set_line:
  assumes "ws \<noteq> []" and words: "list_all (\<lambda>w. w \<noteq> [] \<and> list_all visible w) (k # ws)"
  shows "repl_line d (Join (''set'' # k # ws) '' '') = Inr (ReplSet k (Join ws '' ''))"
proof -
  let ?line = "Join (''set'' # k # ws) '' ''"
  have all: "list_all (\<lambda>w. w \<noteq> [] \<and> list_all visible w) (''set'' # k # ws)"
    using words by (simp add: visible_def)
  have head: "?line = ''set'' @ '' '' @ Join (k # ws) '' ''" by (cases ws) simp_all
  have "visible (last ?line)" using Join_visible_ends(2) [OF _ all] by simp
  then have trim: "TrimSpace ?line = ?line"
    by (intro TrimSpace_visible) (simp_all add: head visible_def del: Join.simps)
  have "TrimPrefix (TrimPrefix ?line ''orris>'') ''orris >'' = ?line"
    by (simp add: head TrimPrefix_def del: Join.simps)
  moreover have "ToLower ''set'' = ''set''" by code_simp
  moreover note assms(1)
  ultimately show ?thesis
    unfolding repl_line_def Let_def trim
    by (simp add: trim Fields_Join [OF all] repl_command_def head [symmetric] del: Join.simps ToLower.simps)
      (simp add: head del: Join.simps)
qed

text \<open>A new node is a follower with the peers it was given, whatever it recovers.\<close>

lemma NewNode_role: "Peers (NewNode i addr peers j ra) = peers \<and> State (NewNode i addr peers j ra) = Follower"
proof -
  have 1: "Peers (replay_committed k n) = Peers n \<and> State (replay_committed k n) = State n" for k n
  proof (induction k n rule: replay_committed.induct)
    case (1 k n)
    then show ?case by (cases "0 \<le> k \<and> k \<le> CommitIndex n \<and> k < len (Log n)") (auto simp: replay_committed.simps [of k n])
  qed
  have 2: "Peers (fold replay_record rs n) = Peers n \<and> State (fold replay_record rs n) = State n" for rs n
    by (induction rs arbitrary: n) (simp_all add: replay_record_def Let_def split: option.splits)
  show ?thesis using 1 2
    by (cases ra; cases "snd ra") (simp_all add: NewNode_def recoverState_def initial_node_def node_simps)
qed

subsection \<open>Properties\<close>

text \<open>No line typed at the prompt makes the tool panic.\<close>

lemma repl_line_total: "\<exists>act. repl_line displayed text = Inr act"
  using Fields_TrimSpace [of "TrimPrefix (TrimPrefix (TrimSpace text) ''orris>'') ''orris >''"]
  by (simp add: repl_line_def Let_def)

text \<open>
  C35: \<^verbatim>\<open>set\<close> from the prompt to the proposal. For every key and every value of visible words, the
  line the prompt routes to the leader makes the leader's server propose exactly that key with that
  value.
\<close>

theorem repl_set_proposes:
  assumes "ws \<noteq> []" and "list_all (\<lambda>w. w \<noteq> [] \<and> list_all visible w) (k # ws)"
  shows "repl_line displayed (Join (''set'' # k # ws) '' '') = Inr (ReplSet k (Join ws '' '')) \<and>
    handleClient_line order ch reads (set_line k (Join ws '' '')) =
      Propose \<lparr>req_Op = OpSet, req_Key = k, req_Value = Join ws '' '', req_ResCh = ch\<rparr>"
proof -
  have v: "Join ws '' '' \<noteq> []" "visible (last (Join ws '' ''))"
    using Join_visible_ends [of ws] assms by simp_all
  have "list_all visible ''SET''" "ToUpper ''SET'' = ''SET''" by code_simp+
  then have "handleClient_line order ch reads (''SET'' @ '' '' @ k @ '' '' @ Join ws '' '') =
      Propose \<lparr>req_Op = OpSet, req_Key = k, req_Value = Join ws '' '', req_ResCh = ch\<rparr>"
    using assms(2) v by (intro set_line_proposes) simp_all
  then show ?thesis using repl_set_line [OF assms] by (simp add: set_line_def)
qed

theorem repl_set_proposes_witness:
  "repl_line 3 ''set a hello world'' = Inr (ReplSet ''a'' ''hello world'') \<and>
    handleClient_line id 7 (\<lambda>_. sample_node [] 0) (set_line ''a'' ''hello world'') =
      Propose \<lparr>req_Op = OpSet, req_Key = ''a'', req_Value = ''hello world'', req_ResCh = 7\<rparr>"
  using repl_set_proposes [of "[''hello'', ''world'']" "''a''" 3 id 7 "\<lambda>_. sample_node [] 0"]
  by (simp add: visible_def)

text \<open>
  A node restarted by \<^verbatim>\<open>spawn\<close> on the command line takes the cluster to have three members, whatever its
  size: one granted vote makes it leader, from any records it recovers.
\<close>

lemma spawned_node_elected_by_two:
  assumes "main_command addr nodesFlag watch args = CtlSpawn i cnt" and "i \<in> {1, 2, 3}" and "4 \<le> n"
    and "rvr_VoteGranted r"
    and "n0 = NewNode (node_args i cnt ! 1) (node_args i cnt ! 3) (parse_peers (node_args i cnt ! 7)) j (recs, None)"
    and "rvr_Term r \<le> int64 (CurrentTerm n0 + 1)"
  shows "State (startElection [Some r] n0) = Leader \<and> CurrentTerm (startElection [Some r] n0) = int64 (CurrentTerm n0 + 1) \<and>
    \<not> majority (members (cluster_config n)) {node_id i, p}"
proof -
  have cnt: "cnt = 3" using assms(1) unfolding main_command_def Let_def by (auto split: if_splits)
  have peers: "Peers n0 = peers_of (cluster_config 3) (node_id i)" and state: "State n0 = Follower"
    using NewNode_role by (simp_all add: assms(5) cnt node_args_def parse_peers_arg)
  have "length (Peers n0) = 2"
    using assms(2) unfolding peers peers_of_cluster by (auto simp: upto.simps)
  then have "State (startElection [Some r] n0) = Leader" "CurrentTerm (startElection [Some r] n0) = int64 (CurrentTerm n0 + 1)"
    using assms(4,6) state
    by (simp_all add: startElection_def startElection_begin_def startElection_reply_def startElection_count_def
        startElection_finish_def Let_def node_simps)
  moreover have "2 \<le> n div 2" using assms(3) by presburger
  then have "int (card {node_id i, p}) \<le> n div 2" by (simp add: card_insert_if)
  moreover have "card (set (members (cluster_config n))) = nat n"
    by (simp add: members_def cluster_config_def comp_def card_image inj_on_def image_image)
  ultimately show ?thesis using assms(3) by (simp add: majority_def)
qed

end
