(* ===== verification/Scenario.thy ===== *)
theory Scenario
  imports Sample_Run
begin

text \<open>
  Scripted runs of a cluster. A script names the steps one after the other, messages and calls by
  their position; running it gives the cluster it leads to, or nothing if a step is not possible.
  Every cluster a script leads to is reachable.
\<close>

datatype act =
    Timeout string
  | Serve nat
  | Count string int string
  | Heartbeat string
  | Replicate nat
  | Propose_at string ClientReq
  | Take_up string
  | Poll string bool
  | Apply string
  | Crash string

text \<open>What becomes of the \<open>k\<close>-th message: a request is handled, a reply goes to who waits for it.\<close>

definition serve_msg :: "config \<Rightarrow> msg \<Rightarrow> cluster \<Rightarrow> cluster option" where
  "serve_msg cfg m c =
     (case m of
        RVReqM p req \<Rightarrow> if p \<in> set (members cfg) then Some (do_handle_rv p req c) else None
      | RVRespM p req resp \<Rightarrow>
          (let i = rv_CandidateID req; t = rv_Term req
           in case elections c (i, t) of
                None \<Rightarrow> None
              | Some r \<Rightarrow>
                  if i \<in> set (members cfg) \<and> p \<in> set (run_waiting r) \<and> req = vote_request i (run_el r)
                  then Some (do_vote_reply i t r p resp c) else None)
      | AEReqM p rc req \<Rightarrow>
          if p \<in> set (members cfg)
          then (case do_handle_ae p rc req c of Inr c' \<Rightarrow> Some c' | Inl e \<Rightarrow> None) else None
      | AERespM p rc req resp \<Rightarrow>
          (let i = ae_LeaderID req
           in if i \<in> set (members cfg)
              then (case replicateToPeer_reply rc req resp (nodes c i) of
                      Inr n' \<Rightarrow> Some (upd i n' c) | Inl e \<Rightarrow> None)
              else None))"

fun exec1 :: "config \<Rightarrow> act \<Rightarrow> cluster \<Rightarrow> cluster option" where
  "exec1 cfg (Timeout i) c =
     (if i \<in> set (members cfg) \<and> CurrentTerm (nodes c i) < max_int then Some (do_timeout i c) else None)"
| "exec1 cfg (Serve k) c = (if k < length (net c) then serve_msg cfg (net c ! k) c else None)"
| "exec1 cfg (Count i t p) c =
     (case elections c (i, t) of
        None \<Rightarrow> None
      | Some r \<Rightarrow> if i \<in> set (members cfg) \<and> p \<in> set (run_counting r) then Some (do_vote_count i t r p c) else None)"
| "exec1 cfg (Heartbeat i) c = (if i \<in> set (members cfg) then Some (do_heartbeat i c) else None)"
| "exec1 cfg (Replicate k) c =
     (if k < length (calls c)
      then case calls c ! k of (i, rc) \<Rightarrow>
             if i \<in> set (members cfg)
             then map_option (\<lambda>req. send [AEReqM (rc_peer rc) rc req] c) (replicateToPeer_request rc (nodes c i))
             else None
      else None)"
| "exec1 cfg (Propose_at i req) c = (if i \<in> set (members cfg) then Some (do_submit i req c) else None)"
| "exec1 cfg (Take_up i) c = (if i \<in> set (members cfg) \<and> handling c i = None then Some (do_take i c) else None)"
| "exec1 cfg (Poll i late) c =
     (case handling c i of
        None \<Rightarrow> None
      | Some (req, idx, t) \<Rightarrow> if i \<in> set (members cfg) then Some (do_poll i late req idx t c) else None)"
| "exec1 cfg (Apply i) c =
     (if i \<in> set (members cfg)
      then (case applyLoop_turn True (nodes c i) of Inr n' \<Rightarrow> Some (upd i n' c) | Inl e \<Rightarrow> None) else None)"
| "exec1 cfg (Crash i) c = (if i \<in> set (members cfg) then Some (do_crash i c) else None)"

fun exec :: "config \<Rightarrow> act list \<Rightarrow> cluster \<Rightarrow> cluster option" where
  "exec cfg [] c = Some c"
| "exec cfg (a # as) c = Option.bind (exec1 cfg a c) (exec cfg as)"

lemma serve_msg_step: "m \<in> set (net c) \<Longrightarrow> serve_msg cfg m c = Some c' \<Longrightarrow> cstep cfg c c'"
  by (cases m) (auto simp: serve_msg_def Let_def intro: cstep.intros split: if_splits option.splits sum.splits)

lemma exec1_step: "exec1 cfg a c = Some c' \<Longrightarrow> cstep cfg c c'"
proof (cases a)
  case (Replicate k)
  assume "exec1 cfg a c = Some c'"
  then obtain i rc req where "k < length (calls c)" "calls c ! k = (i, rc)" "i \<in> set (members cfg)"
      "replicateToPeer_request rc (nodes c i) = Some req" "c' = send [AEReqM (rc_peer rc) rc req] c"
    using Replicate by (auto split: if_splits prod.splits)
  then show ?thesis using nth_mem [of k "calls c"] by (auto intro: cstep.c_replicate)
next
  case (Serve k)
  assume "exec1 cfg a c = Some c'"
  then show ?thesis using Serve serve_msg_step [of "net c ! k" c cfg c'] by (auto split: if_splits)
qed (auto intro: cstep.intros split: if_splits option.splits sum.splits)

lemma exec_steps: "exec cfg as c = Some c' \<Longrightarrow> (cstep cfg)\<^sup>*\<^sup>* c c'"
  by (induction "as" arbitrary: c) (auto intro: converse_rtranclp_into_rtranclp exec1_step split: Option.bind_splits)

lemma exec_reachable: "exec cfg as (start_cluster cfg) = Some c \<Longrightarrow> reachable cfg c"
  using exec_steps by (simp add: reachable_def)

subsection \<open>A leader that was cut off\<close>

text \<open>
  \<open>n1\<close> is elected and appends two entries that reach nobody. \<open>n2\<close> is elected for the next term by
  \<open>n3\<close>, appends one entry, replicates it to \<open>n3\<close> and commits it.
\<close>

definition other_req :: ClientReq where
  "other_req = \<lparr>req_Op = OpSet, req_Key = ''a'', req_Value = ''2'', req_ResCh = 0\<rparr>"

definition cut_off :: "act list" where
  "cut_off =
     [Timeout ''n1'', Serve 0, Serve 2, Count ''n1'' 1 ''n2'',
      Propose_at ''n1'' set_req, Take_up ''n1'', Poll ''n1'' True, Propose_at ''n1'' set_req, Take_up ''n1'',
      Timeout ''n2'', Serve 4, Serve 5, Count ''n2'' 2 ''n3'',
      Propose_at ''n2'' other_req, Take_up ''n2'', Heartbeat ''n2'', Replicate 1, Serve 6, Serve 7]"

definition after_cut :: cluster where
  "after_cut = the (exec cfg3 cut_off (start_cluster cfg3))"

lemma after_cut_runs: "exec cfg3 cut_off (start_cluster cfg3) \<noteq> None"
  by code_simp

lemma after_cut_nodes:
  "Log (nodes after_cut ''n1'') = [req_entry set_req 0 1, req_entry set_req 1 1]" "CommitIndex (nodes after_cut ''n1'') = -1"
  "Log (nodes after_cut ''n2'') = [req_entry other_req 0 2]" "CommitIndex (nodes after_cut ''n2'') = 0"
  "Log (nodes after_cut ''n3'') = [req_entry other_req 0 2]" "CommitIndex (nodes after_cut ''n3'') = -1"
  by code_simp+

lemma after_cut_reachable: "reachable cfg3 after_cut"
  using after_cut_runs by (intro exec_reachable [of cfg3 cut_off]) (auto simp: after_cut_def)

end
