(* ===== verification/Split_Brain.thy ===== *)
theory Split_Brain
  imports Daemon Orrisctl_Main Scenario
begin

text \<open>
  A cluster in which one member was started with another configuration than the others. The tool
  starts five nodes; \<^verbatim>\<open>spawn\<close> on its command line starts a node as one of three.
\<close>

definition cluster5 :: config where
  "cluster5 = [(''node1'', ''127.0.0.1:8001''), (''node2'', ''127.0.0.1:8002''), (''node3'', ''127.0.0.1:8003''),
     (''node4'', ''127.0.0.1:8004''), (''node5'', ''127.0.0.1:8005'')]"

lemma cluster5: "cluster_config 5 = cluster5"
proof -
  have chars: "char_of (48 :: nat) = CHR ''0''" "char_of (49 :: nat) = CHR ''1''" "char_of (50 :: nat) = CHR ''2''"
    "char_of (51 :: nat) = CHR ''3''" "char_of (52 :: nat) = CHR ''4''" "char_of (53 :: nat) = CHR ''5''"
    "char_of (56 :: nat) = CHR ''8''"
    by code_simp+
  show ?thesis
    by (simp add: cluster_config_def cluster5_def node_id_def node_addr_def int64_def Itoa_def nat_string.simps
        digit_char_def chars upto.simps)
qed

text \<open>The node that \<^verbatim>\<open>spawn node2\<close> starts, on a new file.\<close>

definition spawned_node :: node where
  "spawned_node = NewNode ''node2'' ''127.0.0.1:8002'' (peers_of (take 3 cluster5) ''node2'')
     \<lparr>j_open = True, j_records = []\<rparr> ([], None)"

definition mixed_cluster :: cluster where
  "mixed_cluster = upd ''node2'' spawned_node (start_cluster cluster5)"

text \<open>
  \<open>node2\<close> is elected by \<open>node1\<close>, \<open>node4\<close> by \<open>node3\<close> and \<open>node5\<close>, for the same term. Each takes a client's
  request, replicates it to its voters, commits it and answers the client.
\<close>

definition split_run :: "act list" where
  "split_run =
     [Timeout ''node2'', Serve 0, Serve 2, Count ''node2'' 1 ''node1'',
      Timeout ''node4'', Serve 5, Serve 6, Serve 7, Count ''node4'' 1 ''node3'', Serve 8, Count ''node4'' 1 ''node5'',
      Propose_at ''node2'' set_req, Take_up ''node2'', Heartbeat ''node2'', Replicate 0, Serve 9, Serve 10, Poll ''node2'' False,
      Propose_at ''node4'' other_req, Take_up ''node4'', Heartbeat ''node4'', Replicate 4, Serve 11, Serve 12,
      Replicate 5, Serve 13, Serve 14, Poll ''node4'' False]"

definition split_cluster :: cluster where
  "split_cluster = the (exec cluster5 split_run mixed_cluster)"

lemma split_runs: "exec cluster5 split_run mixed_cluster \<noteq> None"
  by code_simp

lemma split_nodes:
  "State (nodes split_cluster ''node2'') = Leader" "State (nodes split_cluster ''node4'') = Leader"
  "CurrentTerm (nodes split_cluster ''node2'') = 1" "CurrentTerm (nodes split_cluster ''node4'') = 1"
  "CommitIndex (nodes split_cluster ''node2'') = 0" "CommitIndex (nodes split_cluster ''node4'') = 0"
  "Log (nodes split_cluster ''node2'') = [req_entry set_req 0 1]" "Log (nodes split_cluster ''node4'') = [req_entry other_req 0 1]"
  "answers split_cluster = [(set_req, Inr (0, 1)), (other_req, Inr (0, 1))]"
  by code_simp+

lemma spawned_daemon:
  "\<exists>d. orrisd_main sample_dec (sample_env (\<lambda>_. [])) (node_args 2 3) = Running d \<and> d_node d = spawned_node"
proof -
  have "cluster_config 3 = take 3 (cluster_config 5)" by (simp add: cluster_config_def upto.simps)
  then have three: "cluster_config 3 = take 3 cluster5" by (simp add: cluster5)
  have "cluster_config 5 ! 1 = cluster5 ! 1" by (simp only: cluster5)
  then have node: "node_id 2 = ''node2''" "node_addr 2 = ''127.0.0.1:8002''"
    by (simp_all add: cluster_config_def cluster5_def upto.simps)
  show ?thesis
    using orrisd_main_node_args [OF sample_env_fine(1) sample_codec _ _ sample_env_listens(1), of "[]" "\<lambda>_. []" 2 3]
      sample_env_listens(2) [of 2 "\<lambda>_. []"]
    by (simp add: sample_env_def frames_def spawned_node_def three node)
qed

subsection \<open>Properties\<close>

text \<open>
  C32: \<^verbatim>\<open>spawn\<close> can split the cluster. In a cluster of five that the tool has just started, \<open>node2\<close> is
  restarted by \<^verbatim>\<open>orrisctl spawn node2\<close>. There is a run, without any lost message or crash, after which two
  leaders of one term have committed different entries at index 0 and have told both clients that
  their writes are committed.
\<close>

theorem spawn_splits_cluster:
  "main_command addr nodesFlag watch [''spawn'', ''node2''] = CtlSpawn 2 3 \<and>
   (\<exists>d c. orrisd_main sample_dec (sample_env (\<lambda>_. [])) (node_args 2 3) = Running d \<and>
     (cstep (cluster_config 5))\<^sup>*\<^sup>* (upd ''node2'' (d_node d) (start_cluster (cluster_config 5))) c \<and>
     State (nodes c ''node2'') = Leader \<and> State (nodes c ''node4'') = Leader \<and>
     CurrentTerm (nodes c ''node2'') = CurrentTerm (nodes c ''node4'') \<and>
     CommitIndex (nodes c ''node2'') = 0 \<and> CommitIndex (nodes c ''node4'') = 0 \<and>
     Log (nodes c ''node2'') ! 0 \<noteq> Log (nodes c ''node4'') ! 0 \<and>
     answers c = [(set_req, Inr (0, 1)), (other_req, Inr (0, 1))])"
proof
  show "main_command addr nodesFlag watch [''spawn'', ''node2''] = CtlSpawn 2 3"
  proof -
    have "ToUpper ''spawn'' = ''SPAWN''" "spawn_number [''spawn'', ''node2''] = 2" by code_simp+
    then show ?thesis by (simp add: main_command_def del: ToUpper.simps)
  qed
next
  obtain d where d: "orrisd_main sample_dec (sample_env (\<lambda>_. [])) (node_args 2 3) = Running d" "d_node d = spawned_node"
    using spawned_daemon by blast
  have "(cstep cluster5)\<^sup>*\<^sup>* mixed_cluster split_cluster"
    using split_runs by (intro exec_steps [of cluster5 split_run]) (auto simp: split_cluster_def)
  moreover have "req_entry set_req 0 1 \<noteq> req_entry other_req 0 1" by code_simp
  ultimately show "\<exists>d c. orrisd_main sample_dec (sample_env (\<lambda>_. [])) (node_args 2 3) = Running d \<and>
     (cstep (cluster_config 5))\<^sup>*\<^sup>* (upd ''node2'' (d_node d) (start_cluster (cluster_config 5))) c \<and>
     State (nodes c ''node2'') = Leader \<and> State (nodes c ''node4'') = Leader \<and>
     CurrentTerm (nodes c ''node2'') = CurrentTerm (nodes c ''node4'') \<and>
     CommitIndex (nodes c ''node2'') = 0 \<and> CommitIndex (nodes c ''node4'') = 0 \<and>
     Log (nodes c ''node2'') ! 0 \<noteq> Log (nodes c ''node4'') ! 0 \<and>
     answers c = [(set_req, Inr (0, 1)), (other_req, Inr (0, 1))]"
    using d by (intro exI [of _ d] exI [of _ split_cluster])
      (simp add: split_nodes cluster5 mixed_cluster_def)
qed

end
