(* ===== verification/Orrisctl_Process.thy ===== *)
theory Orrisctl_Process
  imports Orrisctl_Main
begin

text \<open>
  The control tool's process control: starting daemons with their pid files, stopping them and
  killing one. The machine is a state of its own: the pid files in the working directory and the
  processes that run. What the operating system decides is an argument: \<open>start cmd\<close> is the process
  that the command creates, if any, \<open>exe i\<close> the executable found for the start of node \<open>i\<close>,
  \<open>found pid\<close> whether \<^verbatim>\<open>os.FindProcess\<close> succeeds. A pid file holds the number the tool wrote; a number
  that names no process kills nothing. Writing and removing pid files succeeds.
\<close>

record host =
  pid_files :: "(string, string) go_map"
  procs :: "int list"

definition pid_file :: "string \<Rightarrow> string" where
  "pid_file node = node @ ''.pid''"

definition os_kill :: "int \<Rightarrow> host \<Rightarrow> host" where
  "os_kill pid h = h\<lparr>procs := removeAll pid (procs h)\<rparr>"

definition os_remove :: "string \<Rightarrow> host \<Rightarrow> host" where
  "os_remove f h = h\<lparr>pid_files := AList.delete f (pid_files h)\<rparr>"

definition read_pid :: "(int \<Rightarrow> bool) \<Rightarrow> string \<Rightarrow> int option" where
  "read_pid found content =
     (case Atoi (TrimSpace content) of (pid, ok) \<Rightarrow> if ok \<and> found pid then Some pid else None)"

subsection \<open>Stopping\<close>

definition stop_node :: "(int \<Rightarrow> bool) \<Rightarrow> int \<Rightarrow> host \<Rightarrow> host \<times> int option" where
  "stop_node found i h =
     (let pidFile = pid_file (node_id i)
      in case map_of (pid_files h) pidFile of
           None \<Rightarrow> (h, None)
         | Some content \<Rightarrow>
             (case read_pid found content of
                None \<Rightarrow> (os_remove pidFile h, None)
              | Some pid \<Rightarrow> (os_remove pidFile (os_kill pid h), Some pid)))"

definition clusterStopSilent :: "(int \<Rightarrow> bool) \<Rightarrow> host \<Rightarrow> host" where
  "clusterStopSilent found h = fold (\<lambda>i h. fst (stop_node found i h)) [1..20] h"

text \<open>The nodes that were stopped are what is printed.\<close>

fun stop_nodes :: "(int \<Rightarrow> bool) \<Rightarrow> int list \<Rightarrow> host \<Rightarrow> host \<times> (int \<times> int) list" where
  "stop_nodes found [] h = (h, [])"
| "stop_nodes found (i # is) h =
     (let (h1, res) = stop_node found i h; (h2, out) = stop_nodes found is h1
      in (h2, (case res of None \<Rightarrow> out | Some pid \<Rightarrow> (i, pid) # out)))"

definition clusterStop :: "(int \<Rightarrow> bool) \<Rightarrow> host \<Rightarrow> host \<times> (int \<times> int) list" where
  "clusterStop found h = stop_nodes found [1..20] h"

subsection \<open>Killing one node\<close>

definition kill_node :: "(int \<Rightarrow> bool) \<Rightarrow> string \<Rightarrow> host \<Rightarrow> (host \<times> int) option" where
  "kill_node found node h =
     (case map_of (pid_files h) (pid_file node) of
        None \<Rightarrow> None
      | Some content \<Rightarrow>
          (case read_pid found content of
             None \<Rightarrow> None
           | Some pid \<Rightarrow> Some (os_remove (pid_file node) (os_kill pid h), pid)))"

text \<open>What is reported: the node and its process, or that there is none.\<close>

datatype kill_report =
    KilledLeader NodeInfo int
  | NoLeader
  | KilledNode string int
  | NoProcess string

text \<open>The first reachable leader whose process can be killed.\<close>

fun clusterKillLeader :: "(int \<Rightarrow> bool) \<Rightarrow> NodeInfo list \<Rightarrow> host \<Rightarrow> host \<times> kill_report" where
  "clusterKillLeader found [] h = (h, NoLeader)"
| "clusterKillLeader found (n # ns) h =
     (if ni_Online n \<and> ni_Role n = ''LEADER''
      then case kill_node found (ni_ID n) h of
             Some (h1, pid) \<Rightarrow> (h1, KilledLeader n pid)
           | None \<Rightarrow> clusterKillLeader found ns h
      else clusterKillLeader found ns h)"

definition target_node :: "string \<Rightarrow> string" where
  "target_node target = (if HasPrefix target ''node'' then target else ''node'' @ target)"

definition clusterKillTarget ::
    "(int \<Rightarrow> bool) \<Rightarrow> NodeInfo list \<Rightarrow> string \<Rightarrow> host \<Rightarrow> host \<times> kill_report" where
  "clusterKillTarget found infos text h =
     (let target = ToLower (TrimSpace text)
      in if target = ''leader'' then clusterKillLeader found infos h
         else case kill_node found (target_node target) h of
                Some (h1, pid) \<Rightarrow> (h1, KilledNode (target_node target) pid)
              | None \<Rightarrow> (h, NoProcess (target_node target)))"

subsection \<open>Starting\<close>

text \<open>
  The daemon's executable is there, or is built; otherwise nothing is started. \<open>goos\<close> is
  \<^verbatim>\<open>runtime.GOOS\<close>, \<open>missing\<close> whether \<^verbatim>\<open>os.Stat\<close> says that there is no such file, \<open>builds\<close> whether
  the build succeeds.
\<close>

definition exePath :: "string \<Rightarrow> string" where
  "exePath goos = (if goos = ''windows'' then ''bin'' @ [CHR 0x5C] @ ''orrisd.exe'' else ''bin/orrisd'')"

definition getOrrisdExe :: "string \<Rightarrow> bool \<Rightarrow> bool \<Rightarrow> string" where
  "getOrrisdExe goos missing builds = (if missing \<and> \<not> builds then '''' else exePath goos)"

definition clusterStartSingleNode :: "string \<Rightarrow> (string list \<Rightarrow> int option) \<Rightarrow> int \<Rightarrow> int \<Rightarrow> host \<Rightarrow> host" where
  "clusterStartSingleNode exe start i totalCount h =
     (if exe = '''' then h
      else case start (exe # node_args i totalCount) of
             None \<Rightarrow> h
           | Some pid \<Rightarrow>
               h\<lparr>pid_files := AList.update (pid_file (node_id i)) (Itoa pid) (pid_files h),
                 procs := pid # procs h\<rparr>)"

text \<open>\<open>infos\<close> is what the query after the start returns; the second component is the leader it finds.\<close>

definition clusterStart ::
    "(int \<Rightarrow> bool) \<Rightarrow> (int \<Rightarrow> string) \<Rightarrow> (string list \<Rightarrow> int option) \<Rightarrow> NodeInfo list \<Rightarrow> int \<Rightarrow> host \<Rightarrow>
     host \<times> NodeInfo option" where
  "clusterStart found exe start infos count h =
     (let n = (if count < 1 then 3 else count);
          h1 = fold (\<lambda>i. clusterStartSingleNode (exe i) start i n) [1..n] (clusterStopSilent found h)
      in (h1, find (\<lambda>n. ni_Online n \<and> ni_Role n = ''LEADER'') infos))"

text \<open>The addresses the query after the start asks.\<close>

definition clusterStart_addrs :: "int \<Rightarrow> string list" where
  "clusterStart_addrs count = map client_addr [1..(if count < 1 then 3 else count)]"

text \<open>The nodes on the dashboard of \<^verbatim>\<open>runREPL\<close>, from the ten it asks.\<close>

definition repl_addrs :: "string list" where
  "repl_addrs = map client_addr [1..10]"

definition displayedNodes :: "NodeInfo list \<Rightarrow> NodeInfo list" where
  "displayedNodes infos = map snd (filter (\<lambda>(i, n). ni_Online n \<or> i < 3) (enumerate 0 infos))"

subsection \<open>What starting and stopping do to the machine\<close>

lemma pid_file_inject [simp]: "pid_file (node_id i) = pid_file (node_id j) \<longleftrightarrow> i = j"
  by (simp add: pid_file_def)

definition node_pid :: "(int \<Rightarrow> bool) \<Rightarrow> host \<Rightarrow> int \<Rightarrow> int option" where
  "node_pid found h i = Option.bind (map_of (pid_files h) (pid_file (node_id i))) (read_pid found)"

lemma stop_node_result:
  "snd (stop_node found i h) = node_pid found h i"
  "map_of (pid_files (fst (stop_node found i h))) f =
     (if f = pid_file (node_id i) then None else map_of (pid_files h) f)"
  "procs (fst (stop_node found i h)) = filter (\<lambda>p. node_pid found h i \<noteq> Some p) (procs h)"
  by (auto simp: stop_node_def node_pid_def os_kill_def os_remove_def delete_conv' removeAll_filter_not_eq Let_def
      intro!: filter_cong split: option.splits)

lemma node_pid_stop: "j \<noteq> i \<Longrightarrow> node_pid found (fst (stop_node found i h)) j = node_pid found h j"
  by (simp add: node_pid_def stop_node_result)

lemma stop_nodes_result:
  assumes "distinct is" and "stop_nodes found is h = (h', out)"
  shows "(\<forall>f. map_of (pid_files h') f = (if f \<in> (pid_file \<circ> node_id) ` set is then None else map_of (pid_files h) f)) \<and>
    procs h' = filter (\<lambda>p. Some p \<notin> node_pid found h ` set is) (procs h) \<and>
    out = concat (map (\<lambda>i. case node_pid found h i of None \<Rightarrow> [] | Some p \<Rightarrow> [(i, p)]) is)"
  using assms
proof (induction "is" arbitrary: h h' out)
  case (Cons i "is")
  let ?h1 = "fst (stop_node found i h)"
  obtain h2 rest where r: "stop_nodes found is ?h1 = (h2, rest)" by fastforce
  have h': "h' = h2" "out = (case node_pid found h i of None \<Rightarrow> rest | Some pid \<Rightarrow> (i, pid) # rest)"
    using Cons.prems(2) r stop_node_result(1) [of found i h] by (auto simp: Let_def split: prod.splits)
  have d: "distinct is" using Cons.prems(1) by simp
  have same: "node_pid found ?h1 j = node_pid found h j" if "j \<in> set is" for j
    using that Cons.prems(1) by (intro node_pid_stop) auto
  then have img: "node_pid found ?h1 ` set is = node_pid found h ` set is" by (intro image_cong) auto
  have "rest = concat (map (\<lambda>i. case node_pid found h i of None \<Rightarrow> [] | Some p \<Rightarrow> [(i, p)]) is)"
    using Cons.IH [OF d r] same by (auto intro!: arg_cong [where f = concat] map_cong)
  then show ?case
    using Cons.IH [OF d r] h' img by (auto simp: stop_node_result intro!: filter_cong split: option.splits)
qed simp

lemma stop_silent: "clusterStopSilent found h = fst (clusterStop found h)"
proof -
  have "fold (\<lambda>i h. fst (stop_node found i h)) is h = fst (stop_nodes found is h)" for "is" h
    by (induction "is" arbitrary: h) (auto simp: Let_def split: prod.splits)
  then show ?thesis by (simp add: clusterStopSilent_def clusterStop_def)
qed

lemma start_nodes_result:
  assumes "\<forall>i \<in> set ks. exe i \<noteq> [] \<and> start (exe i # node_args i n) = Some (pid i)" and "distinct ks"
  shows "map_of (pid_files (fold (\<lambda>i. clusterStartSingleNode (exe i) start i n) ks h)) (pid_file (node_id j)) =
      (if j \<in> set ks then Some (Itoa (pid j)) else map_of (pid_files h) (pid_file (node_id j)))"
    and "procs (fold (\<lambda>i. clusterStartSingleNode (exe i) start i n) ks h) = rev (map pid ks) @ procs h"
  using assms
  by (induction ks arbitrary: h) (auto simp: clusterStartSingleNode_def update_conv')

lemma read_pid_Itoa: "wire_int p \<Longrightarrow> found p \<Longrightarrow> read_pid found (Itoa p) = Some p"
proof -
  assume p: "wire_int p" "found p"
  have v: "list_all visible (Itoa p)" "Itoa p \<noteq> []" using visible_Itoa by blast+
  then have "TrimSpace (Itoa p) = Itoa p" by (intro TrimSpace_visible) (simp_all add: list_all_iff)
  then show ?thesis using p by (simp add: read_pid_def Atoi_Itoa wire_int_def)
qed

lemma concat_singles: "concat (map (\<lambda>i. [f i]) xs) = map f xs"
  by (induction xs) simp_all

lemma concat_empties: "concat (map (\<lambda>i. []) xs) = []"
  by (induction xs) simp_all

text \<open>The machine after a start: the pid files of exactly the started nodes, among the first twenty.\<close>

lemma clusterStart_pids:
  assumes "1 \<le> count" and "\<forall>i \<in> {1..count}. exe i \<noteq> [] \<and> start (exe i # node_args i count) = Some (pid i) \<and> wire_int (pid i) \<and> found' (pid i)"
    and "1 \<le> j" and "j \<le> 20"
  shows "node_pid found' (fst (clusterStart found exe start infos count h)) j = (if j \<le> count then Some (pid j) else None)"
proof -
  let ?h0 = "clusterStopSilent found h"
  obtain h0 out where s: "stop_nodes found [1..20] h = (h0, out)" by fastforce
  have "map_of (pid_files ?h0) (pid_file (node_id j)) = None"
    using stop_nodes_result [OF _ s] assms(3,4) by (simp add: stop_silent clusterStop_def s)
  moreover have "fst (clusterStart found exe start infos count h) =
      fold (\<lambda>i. clusterStartSingleNode (exe i) start i count) [1..count] ?h0"
    using assms(1) by (simp add: clusterStart_def Let_def)
  ultimately show ?thesis
    using start_nodes_result(1) [where ks = "[1..count]" and exe = exe and start = start and n = count and pid = pid and j = j and h = ?h0]
      assms read_pid_Itoa [of "pid j" found']
    by (simp add: node_pid_def)
qed

text \<open>
  When \<^verbatim>\<open>start n\<close> has started its nodes as different processes, \<^verbatim>\<open>stop\<close> reports and kills exactly the first
  twenty of them and leaves none of their pid files; the processes of all further nodes keep running.
\<close>

lemma start_stop:
  assumes "1 \<le> count" and "\<forall>i \<in> {1..count}. exe i \<noteq> [] \<and> start (exe i # node_args i count) = Some (pid i) \<and> wire_int (pid i) \<and> found' (pid i)"
    and "inj_on pid {1..count}"
    and "clusterStop found' (fst (clusterStart found exe start infos count h)) = (h', out)"
  shows "out = map (\<lambda>i. (i, pid i)) [1..min count 20] \<and>
    (\<forall>i \<in> {1..count}. pid i \<in> set (procs h') \<longleftrightarrow> 20 < i) \<and>
    (\<forall>i \<in> {1..20}. map_of (pid_files h') (pid_file (node_id i)) = None)"
proof -
  let ?h1 = "fst (clusterStart found exe start infos count h)"
  have st: "stop_nodes found' [1..20] ?h1 = (h', out)" using assms(4) by (simp add: clusterStop_def)
  have r: "\<And>f. map_of (pid_files h') f = (if f \<in> (pid_file \<circ> node_id) ` {1..20} then None else map_of (pid_files ?h1) f)"
    "procs h' = filter (\<lambda>p. Some p \<notin> node_pid found' ?h1 ` {1..20}) (procs ?h1)"
    "out = concat (map (\<lambda>i. case node_pid found' ?h1 i of None \<Rightarrow> [] | Some p \<Rightarrow> [(i, p)]) [1..20])"
    using stop_nodes_result [OF _ st] by auto
  note pids = clusterStart_pids [OF assms(1,2), of _ found infos h]
  have split: "[1..20] = [1..min count 20] @ [min count 20 + 1..20]"
    using assms(1) upto_split1 [of 1 "min count 20 + 1" 20] by (cases "count < 20") (simp_all add: min_def)
  have "map (\<lambda>i. case node_pid found' ?h1 i of None \<Rightarrow> [] | Some p \<Rightarrow> [(i, p)]) [1..min count 20] =
      map (\<lambda>i. [(i, pid i)]) [1..min count 20]"
    and "map (\<lambda>i. case node_pid found' ?h1 i of None \<Rightarrow> [] | Some p \<Rightarrow> [(i, p)]) [min count 20 + 1..20] =
      map (\<lambda>i. []) [min count 20 + 1..20]"
    using pids assms(1) by (auto intro!: map_cong)
  then have out: "out = map (\<lambda>i. (i, pid i)) [1..min count 20]"
    unfolding r(3) split map_append concat_append by (simp only: concat_singles concat_empties append_Nil2)
  have killed: "Some p \<in> node_pid found' ?h1 ` {1..20} \<longleftrightarrow> p \<in> pid ` {1..min count 20}" for p
    using pids by (force simp: image_iff split: if_splits)
  have "pid i \<in> set (procs ?h1)" if "i \<in> {1..count}" for i
    using that assms(1,2) start_nodes_result(2) [of "[1..count]" exe start count pid] by (simp add: clusterStart_def Let_def)
  then have alive: "pid i \<in> set (procs h') \<longleftrightarrow> pid i \<notin> pid ` {1..min count 20}" if "i \<in> {1..count}" for i
    using that unfolding r(2) by (simp add: killed)
  have "pid i \<notin> pid ` {1..min count 20} \<longleftrightarrow> 20 < i" if "i \<in> {1..count}" for i
    using that inj_on_image_mem_iff [OF assms(3) that, of "{1..min count 20}"] by auto
  then show ?thesis using out alive r(1) by auto
qed

end
