(* ===== verification/Orrisctl_Display.thy ===== *)
theory Orrisctl_Display
  imports Orrisctl_Process Daemon "HOL-Library.Char_ord" "HOL-Library.List_Lexorder"
begin

text \<open>
  What the control tool prints: the tables of \<^verbatim>\<open>ping\<close>, \<^verbatim>\<open>leader\<close>, \<^verbatim>\<open>status\<close>, \<^verbatim>\<open>keys\<close>, \<^verbatim>\<open>logs\<close> and \<^verbatim>\<open>wal\<close>,
  byte by byte, from what the queries returned and from the log files. A printed latency is an
  argument, \<open>lat j\<close> for the \<open>j\<close>-th node, and so are the texts of errors of the operating system.
  Strings are ordered as \<^verbatim>\<open>slices.Sort\<close> orders them, by their bytes. The name of a node is taken to be ASCII
  where its case is changed.

  The lemmas say what the tables show: every key of every reachable node with all its values, every
  entry of the longest log, every record of a file.
\<close>

subsection \<open>Formatting\<close>

definition ansi :: "string \<Rightarrow> string" where
  "ansi code = CHR 0x1B # ''['' @ code"

definition colorReset :: string where
  "colorReset = ansi ''0m''"

definition colorBold :: string where
  "colorBold = ansi ''1m''"

definition colorDim :: string where
  "colorDim = ansi ''2m''"

definition colorRed :: string where
  "colorRed = ansi ''31m''"

definition colorGreen :: string where
  "colorGreen = ansi ''32m''"

definition colorYellow :: string where
  "colorYellow = ansi ''33m''"

definition colorBlue :: string where
  "colorBlue = ansi ''34m''"

definition colorPurple :: string where
  "colorPurple = ansi ''35m''"

definition colorCyan :: string where
  "colorCyan = ansi ''36m''"

definition colorWhite :: string where
  "colorWhite = ansi ''37m''"

definition bgGreen :: string where
  "bgGreen = ansi ''42m'' @ ansi ''30m''"

definition bgBlue :: string where
  "bgBlue = ansi ''44m'' @ ansi ''37m''"

definition bgYellow :: string where
  "bgYellow = ansi ''43m'' @ ansi ''30m''"

definition bgRed :: string where
  "bgRed = ansi ''41m'' @ ansi ''37m''"

definition clearScreen :: string where
  "clearScreen = ansi ''H'' @ ansi ''2J''"

text \<open>The length of the rune a string starts with; a byte that starts no rune counts for itself.\<close>

definition in_range :: "nat \<Rightarrow> nat \<Rightarrow> string \<Rightarrow> nat \<Rightarrow> bool" where
  "in_range lo hi s k \<longleftrightarrow> k < length s \<and> lo \<le> of_char (s ! k) \<and> of_char (s ! k) \<le> hi"

definition rune_len :: "string \<Rightarrow> nat" where
  "rune_len s =
     (let more = in_range 0x80 0xBF s; first = (\<lambda>lo hi. in_range lo hi s 0)
      in if first 0xC2 0xDF \<and> more 1 then 2
         else if first 0xE0 0xE0 \<and> in_range 0xA0 0xBF s 1 \<and> more 2 then 3
         else if (first 0xE1 0xEC \<or> first 0xEE 0xEF) \<and> more 1 \<and> more 2 then 3
         else if first 0xED 0xED \<and> in_range 0x80 0x9F s 1 \<and> more 2 then 3
         else if first 0xF0 0xF0 \<and> in_range 0x90 0xBF s 1 \<and> more 2 \<and> more 3 then 4
         else if first 0xF1 0xF3 \<and> more 1 \<and> more 2 \<and> more 3 then 4
         else if first 0xF4 0xF4 \<and> in_range 0x80 0x8F s 1 \<and> more 2 \<and> more 3 then 4
         else 1)"

function rune_count :: "string \<Rightarrow> nat" where
  "rune_count s = (if s = [] then 0 else Suc (rune_count (drop (rune_len s) s)))"
  by pat_completeness auto
termination
  by (relation "measure length") (auto simp: rune_len_def Let_def)

declare rune_count.simps [simp del]

text \<open>\<^verbatim>\<open>%-8s\<close> and the like.\<close>

definition pad :: "nat \<Rightarrow> string \<Rightarrow> string" where
  "pad w s = s @ replicate (w - rune_count s) CHR '' ''"

text \<open>The cells of a table row.\<close>

definition cells :: "string list \<Rightarrow> string" where
  "cells cs = ''   '' @ Join cs '' | '' @ newline"

definition rule :: "nat \<Rightarrow> string" where
  "rule n = ''   '' @ replicate n CHR ''-'' @ newline"

definition title :: "string \<Rightarrow> string" where
  "title s = newline @ colorBold @ colorCyan @ ''=== '' @ s @ '' ==='' @ colorReset @ newline"

text \<open>A text that is too long for its cell.\<close>

definition clip :: "nat \<Rightarrow> nat \<Rightarrow> string \<Rightarrow> string" where
  "clip limit keep s = (if length s > limit then take keep s @ ''...'' else s)"

subsection \<open>Nodes\<close>

definition ping_row :: "(nat \<Rightarrow> string) \<Rightarrow> nat \<times> NodeInfo \<Rightarrow> string" where
  "ping_row lat p =
     (case p of (j, n) \<Rightarrow>
        if ni_Online n
        then '' '' @ colorGreen @ ''* Node '' @ ni_ID n @ colorReset @ '' ('' @ ni_Addr n @ '') -> '' @ colorBold @
             colorGreen @ ''PONG'' @ colorReset @ '' in '' @ colorYellow @ lat j @ colorReset @ newline
        else '' '' @ colorRed @ ''* Node on '' @ ni_Addr n @ colorReset @ '' -> '' @ colorRed @ ''[OFFLINE]'' @
             colorReset @ newline)"

definition displayPing :: "(nat \<Rightarrow> string) \<Rightarrow> NodeInfo list \<Rightarrow> string" where
  "displayPing lat infos =
     title ''CLUSTER PING & LATENCY'' @ concat (map (ping_row lat) (enumerate 0 infos)) @ newline"

definition displayLeader :: "NodeInfo list \<Rightarrow> string" where
  "displayLeader infos =
     (case find (\<lambda>n. ni_Online n \<and> ni_Role n = ''LEADER'') infos of
        Some n \<Rightarrow>
          colorBold @ colorGreen @ ''[LEADER]'' @ colorReset @ '' Node '' @ ni_ID n @ '' on '' @ ni_Addr n @
          '' (Term: '' @ Itoa (ni_Term n) @ '', CommitIndex: '' @ Itoa (ni_CommitIndex n) @ '')'' @ newline
      | None \<Rightarrow> colorYellow @ ''No active leader detected.'' @ colorReset @ newline)"

definition status_row :: "(nat \<Rightarrow> string) \<Rightarrow> nat \<times> NodeInfo \<Rightarrow> string" where
  "status_row lat p =
     (case p of (j, n) \<Rightarrow>
        if ni_Online n
        then let badgeColor = (if ni_Role n = ''LEADER'' then colorGreen
                               else if ni_Role n = ''CANDIDATE'' then colorYellow else colorBlue)
             in cells [pad 8 (ni_ID n), pad 16 (ni_Addr n), badgeColor @ pad 10 (ni_Role n) @ colorReset,
                  pad 6 (Itoa (ni_Term n)), pad 12 (Itoa (ni_CommitIndex n)), pad 12 (Itoa (ni_LastApplied n)),
                  pad 8 (lat j)]
        else cells [pad 8 ''-'', pad 16 (ni_Addr n), colorRed @ pad 10 ''OFFLINE'' @ colorReset, pad 6 ''-'',
               pad 12 ''-'', pad 12 ''-'', pad 8 ''-''])"

definition displayStatus :: "(nat \<Rightarrow> string) \<Rightarrow> NodeInfo list \<Rightarrow> string" where
  "displayStatus lat infos =
     title ''CLUSTER STATUS MATRIX'' @
     cells [pad 8 ''NODE'', pad 16 ''CLIENT ADDR'', pad 10 ''ROLE'', pad 6 ''TERM'', pad 12 ''COMMIT IDX'',
       pad 12 ''LAST APPLIED'', pad 8 ''LATENCY''] @
     rule 82 @ concat (map (status_row lat) (enumerate 0 infos)) @ newline"

subsection \<open>Keys\<close>

definition add_node_key :: "string \<Rightarrow> string \<times> string \<Rightarrow> (string, (string, string) go_map) go_map \<Rightarrow>
    (string, (string, string) go_map) go_map" where
  "add_node_key i p m = AList.update (fst p) (AList.update i (snd p) (go_get m (fst p) [])) m"

definition add_node_keys :: "NodeInfo \<Rightarrow> (string, (string, string) go_map) go_map \<Rightarrow>
    (string, (string, string) go_map) go_map" where
  "add_node_keys n m = (if ni_Online n then fold (add_node_key (ni_ID n)) (ni_Keys n) m else m)"

definition all_keys :: "NodeInfo list \<Rightarrow> (string, (string, string) go_map) go_map" where
  "all_keys infos = fold add_node_keys infos []"

definition key_parts :: "(string, (string, string) go_map) go_map \<Rightarrow> NodeInfo list \<Rightarrow> string \<Rightarrow> string list" where
  "key_parts m infos k =
     concat (map (\<lambda>n. if ni_Online n
                      then case map_of (go_get m k []) (ni_ID n) of
                             Some v \<Rightarrow> [ni_ID n @ '':'' @ v] | None \<Rightarrow> []
                      else []) infos)"

definition bullet :: string where
  "bullet = [CHR 0xE2, CHR 0x80, CHR 0xA2]"

definition key_row :: "string \<Rightarrow> string list \<Rightarrow> string" where
  "key_row k parts =
     ''   '' @ bullet @ '' '' @ colorBold @ pad 16 k @ colorReset @ '' -> '' @ Join parts '' | '' @ newline"

definition displayKeys :: "NodeInfo list \<Rightarrow> string" where
  "displayKeys infos =
     (let m = all_keys infos
      in if m = [] then ''No keys stored in cluster.'' @ newline
         else title ''ALL KEYS MATRIX'' @ concat (map (\<lambda>k. key_row k (key_parts m infos k)) (sort (map fst m))) @ newline)"

subsection \<open>Log entries\<close>

text \<open>The highest commit index and the first of the longest logs, of the reachable nodes.\<close>

definition log_choice :: "NodeInfo list \<Rightarrow> int \<times> string list" where
  "log_choice infos =
     fold (\<lambda>n (highestCommit, primaryLogs).
             if ni_Online n
             then (if ni_CommitIndex n > highestCommit then ni_CommitIndex n else highestCommit,
                   if length (ni_Logs n) > length primaryLogs then ni_Logs n else primaryLogs)
             else (highestCommit, primaryLogs)) infos (-1, [])"

definition is_delete :: "string \<Rightarrow> bool" where
  "is_delete op \<longleftrightarrow> op = ''DELETE'' \<or> op = ''DEL''"

definition item_payload :: "LogItem \<Rightarrow> string" where
  "item_payload item =
     clip 32 29 (if is_delete (li_Op item) then li_Key item else li_Key item @ '' = '' @ li_Val item)"

definition item_status :: "int \<Rightarrow> LogItem \<Rightarrow> string" where
  "item_status highestCommit item =
     (if li_Index item > highestCommit then colorYellow @ ''[UNCOMMITTED]'' @ colorReset
      else colorGreen @ ''[COMMITTED]'' @ colorReset)"

definition item_row :: "int \<Rightarrow> LogItem \<Rightarrow> string" where
  "item_row highestCommit item =
     cells [pad 8 (''#'' @ Itoa (li_Index item)), pad 8 (''Term '' @ Itoa (li_Term item)), pad 8 (li_Op item),
       pad 32 (item_payload item), pad 12 (item_status highestCommit item)]"

definition log_rows :: "int \<Rightarrow> string list \<Rightarrow> string" where
  "log_rows highestCommit raws =
     concat (map (\<lambda>raw. case parseLogItem raw of (item, ok) \<Rightarrow> if ok then item_row highestCommit item else '''') raws)"

definition displayLogs :: "NodeInfo list \<Rightarrow> string" where
  "displayLogs infos =
     (case log_choice infos of (highestCommit, primaryLogs) \<Rightarrow>
        if primaryLogs = [] then ''Log is empty.'' @ newline
        else title (''FULL REPLICATED LOG TIMELINE ('' @ Itoa (len primaryLogs) @ '' Entries)'') @
          cells [pad 8 ''INDEX'', pad 8 ''TERM'', pad 8 ''OP'', pad 32 ''KEY / VALUE'', pad 12 ''STATUS''] @
          rule 76 @ log_rows highestCommit primaryLogs @ newline)"

subsection \<open>Log files\<close>

text \<open>The columns of a record: its colour, what was voted or committed, and the payload.\<close>

definition record_columns :: "WALRecord \<Rightarrow> string \<times> string \<times> string" where
  "record_columns r =
     (if rec_Type r = RecordState then
        (colorBlue, ''Voted:'' @ rec_VotedFor r, ''Term state set to '' @ Itoa (rec_Term r))
      else if rec_Type r = RecordCommit then
        (colorGreen, ''CommitIdx:'' @ Itoa (rec_CommitIndex r), ''Advanced CommitIndex to '' @ Itoa (rec_CommitIndex r))
      else if rec_Type r = RecordTruncate then
        (colorRed, ''TruncTo:'' @ Itoa (rec_CommitIndex r), ''Log truncated after index '' @ Itoa (rec_CommitIndex r))
      else if rec_Type r = RecordEntry then
        (case rec_Entry r of
           Some e \<Rightarrow>
             (colorYellow, ''Idx:'' @ Itoa (Index e) @ '' T'' @ Itoa (Term e),
              Operation e @ '' '' @ Key e @ '' = '' @ Value e)
         | None \<Rightarrow> (colorYellow, ''-'', ''-''))
      else (colorWhite, ''-'', ''-''))"

definition record_row :: "nat \<times> WALRecord \<Rightarrow> string" where
  "record_row p =
     (case p of (i, r) \<Rightarrow>
        case record_columns r of (typeColor, votedCommit, payload) \<Rightarrow>
          cells [pad 6 (Itoa (int i + 1)), typeColor @ pad 10 (rec_Type r) @ colorReset, pad 8 (Itoa (rec_Term r)),
            pad 12 votedCommit, pad 32 payload])"

definition wal_table :: "string \<Rightarrow> string \<Rightarrow> int \<Rightarrow> WALRecord list \<Rightarrow> string" where
  "wal_table nodeTarget walPath bytes recs =
     title (''ON-DISK WAL INSPECTION: '' @ ToUpper nodeTarget @ '' ('' @ walPath @ '', '' @ Itoa bytes @ '' bytes)'') @
     cells [pad 6 ''#'', pad 10 ''REC TYPE'', pad 8 ''TERM'', pad 12 ''VOTED / COMMIT'', pad 32 ''PAYLOAD / LOG ENTRY''] @
     rule 80 @ concat (map record_row (enumerate 0 recs)) @
     newline @ ''   '' @ colorGreen @ ''Total on-disk records: '' @ Itoa (len recs) @
     '' (All CRC32 checksums verified)'' @ colorReset @ newline @ newline"

text \<open>\<open>stat path\<close> is the text of the error of \<^verbatim>\<open>os.Stat\<close>, if any; \<open>err_text\<close> that of an error of the log.\<close>

definition displayNodeWAL ::
    "gob_dec \<Rightarrow> daemon_env \<Rightarrow> (string \<Rightarrow> string option) \<Rightarrow> (wal_error \<Rightarrow> string) \<Rightarrow> string \<Rightarrow> string" where
  "displayNodeWAL dec env stat err_text text =
     (let nodeTarget = target_node (ToLower (TrimSpace text)); walPath = path_Join [''data'', nodeTarget, ''wal.log'']
      in case stat walPath of
           Some err \<Rightarrow> colorRed @ ''[ERR] WAL file not found at '' @ walPath @ '': '' @ err @ colorReset @ newline
         | None \<Rightarrow>
             (case OpenWAL (env_open env walPath) (env_seek env walPath) (env_file env walPath) of
                Inl err \<Rightarrow> colorRed @ ''[ERR] Failed to open WAL at '' @ walPath @ '': '' @ err_text err @ colorReset @ newline
              | Inr w \<Rightarrow>
                  (case fst (WAL_ReadAll dec (env_rewind env walPath) (env_bad env walPath) w) of
                     (recs, Some err) \<Rightarrow>
                       colorRed @ ''[ERR] Failed to read WAL records: '' @ err_text err @ colorReset @ newline
                   | (recs, None) \<Rightarrow>
                       wal_table nodeTarget walPath (len (env_file env walPath)) recs)))"

text \<open>The last term and the number of entry records.\<close>

definition wal_summary :: "WALRecord list \<Rightarrow> int \<times> int" where
  "wal_summary recs =
     fold (\<lambda>r (lastTerm, entriesCount).
             (if rec_Term r > lastTerm then rec_Term r else lastTerm,
              if rec_Type r = RecordEntry then entriesCount + 1 else entriesCount)) recs (0, 0)"

definition wal_line :: "gob_dec \<Rightarrow> daemon_env \<Rightarrow> (string \<Rightarrow> string option) \<Rightarrow> int \<Rightarrow> string" where
  "wal_line dec env stat i =
     (let nodeID = node_id i; walPath = path_Join [''data'', nodeID, ''wal.log'']
      in if stat walPath \<noteq> None then ''''
         else case OpenWAL (env_open env walPath) (env_seek env walPath) (env_file env walPath) of
                Inl err \<Rightarrow> ''''
              | Inr w \<Rightarrow>
                  (let recs = fst (fst (WAL_ReadAll dec (env_rewind env walPath) (env_bad env walPath) w));
                       (lastTerm, entriesCount) = wal_summary recs
                   in cells [pad 10 nodeID, pad 12 (Itoa (len (env_file env walPath)) @ '' B''), pad 10 (Itoa (len recs)),
                        pad 12 (Itoa lastTerm), pad 16 (Itoa entriesCount)]))"

definition displayAllWALs :: "gob_dec \<Rightarrow> daemon_env \<Rightarrow> (string \<Rightarrow> string option) \<Rightarrow> string" where
  "displayAllWALs dec env stat =
     title ''ALL NODE WRITE-AHEAD LOG (WAL) COMPARISON'' @
     cells [pad 10 ''NODE'', pad 12 ''DISK SIZE'', pad 10 ''RECORDS'', pad 12 ''LAST TERM'', pad 16 ''LOG ENTRIES''] @
     rule 72 @ concat (map (wal_line dec env stat) [1..10]) @
     newline @ ''   '' @ colorDim @ ''(Type '' @ [CHR 0x27] @ ''wal <node>'' @ [CHR 0x27] @ '' e.g. '' @ [CHR 0x27] @
     ''wal node1'' @ [CHR 0x27] @ '' to inspect raw ledger records)'' @ colorReset @ newline @ newline"

subsection \<open>What the table of keys shows\<close>

lemma add_node_key_get:
  "map_of (go_get (add_node_key i p m) k []) j =
     (if k = fst p \<and> j = i then Some (snd p) else map_of (go_get m k []) j)"
  by (simp add: add_node_key_def go_get_def update_conv' split: option.split)

lemma add_node_keys_get:
  assumes "distinct (map fst ps)"
  shows "map_of (go_get (fold (add_node_key i) ps m) k []) j =
    (if j = i \<and> k \<in> fst ` set ps then map_of ps k else map_of (go_get m k []) j)"
  using assms
proof (induction ps arbitrary: m)
  case (Cons p ps)
  show ?case
  proof (cases "k = fst p")
    case True
    then have "k \<notin> fst ` set ps" using Cons.prems by auto
    then show ?thesis using Cons True by (cases p) (auto simp: add_node_key_get)
  next
    case False
    then show ?thesis using Cons by (cases p) (auto simp: add_node_key_get)
  qed
qed simp

lemma all_keys_get:
  assumes "\<And>n. n \<in> set infos \<Longrightarrow> distinct (map fst (ni_Keys n))" and "distinct (map ni_ID (filter ni_Online infos))"
    and "n \<in> set infos" and "ni_Online n"
  shows "map_of (go_get (all_keys infos) k []) (ni_ID n) = map_of (ni_Keys n) k"
proof -
  have step: "map_of (go_get (add_node_keys x m) k []) j =
      (if ni_Online x \<and> j = ni_ID x \<and> k \<in> fst ` set (ni_Keys x) then map_of (ni_Keys x) k else map_of (go_get m k []) j)"
    if "x \<in> set infos" for x m j
    using that assms(1) by (simp add: add_node_keys_def add_node_keys_get)
  have other: "map_of (go_get (fold add_node_keys xs m) k []) j = map_of (go_get m k []) j"
    if "set xs \<subseteq> set infos" "j \<notin> ni_ID ` set (filter ni_Online xs)" for xs m j
    using that by (induction xs arbitrary: m) (auto simp: step split: if_splits)
  obtain xs ys where split: "infos = xs @ n # ys" using assms(3) by (meson split_list)
  have fresh: "ni_ID n \<notin> ni_ID ` set (filter ni_Online xs)" "ni_ID n \<notin> ni_ID ` set (filter ni_Online ys)"
    using assms(2,4) by (auto simp: split)
  have sub: "set xs \<subseteq> set infos" "set ys \<subseteq> set infos" by (auto simp: split)
  have "map_of (go_get (fold add_node_keys xs []) k []) (ni_ID n) = None"
    using other [OF sub(1) fresh(1), of "[]"] by (simp add: go_get_def)
  moreover have "k \<notin> fst ` set (ni_Keys n) \<longleftrightarrow> map_of (ni_Keys n) k = None" by (simp add: map_of_eq_None_iff)
  ultimately show ?thesis
    using other [OF sub(2) fresh(2)] step [OF assms(3)] assms(4) by (auto simp: all_keys_def split)
qed

lemma all_keys_dom: "fst ` set (all_keys infos) = (\<Union>n \<in> set (filter ni_Online infos). fst ` set (ni_Keys n))"
proof -
  have "fst ` set (add_node_key i p m) = insert (fst p) (fst ` set m)" for i p m
    by (simp add: add_node_key_def dom_update)
  then have "fst ` set (fold (add_node_key i) ps m) = fst ` set ps \<union> fst ` set m" for i ps m
    by (induction ps arbitrary: m) auto
  then have "fst ` set (fold add_node_keys xs m) =
      (\<Union>n \<in> set (filter ni_Online xs). fst ` set (ni_Keys n)) \<union> fst ` set m" for xs m
    by (induction xs arbitrary: m) (auto simp: add_node_keys_def)
  then show ?thesis by (simp add: all_keys_def)
qed

lemma all_keys_distinct: "distinct (map fst (all_keys infos))"
proof -
  have "distinct (map fst (fold (add_node_key i) ps m))" if "distinct (map fst m)" for i ps m
    using that by (induction ps arbitrary: m) (simp_all add: add_node_key_def distinct_update)
  then have "distinct (map fst (fold add_node_keys xs m))" if "distinct (map fst m)" for xs m
    using that by (induction xs arbitrary: m) (simp_all add: add_node_keys_def)
  then show ?thesis by (simp add: all_keys_def)
qed

text \<open>The reachable nodes that have a key, each with its own value.\<close>

definition holders :: "NodeInfo list \<Rightarrow> string \<Rightarrow> (string \<times> string) list" where
  "holders infos k =
     concat (map (\<lambda>n. case map_of (ni_Keys n) k of Some v \<Rightarrow> [(ni_ID n, v)] | None \<Rightarrow> []) (filter ni_Online infos))"

lemma key_parts_holders:
  assumes "\<And>n. n \<in> set infos \<Longrightarrow> distinct (map fst (ni_Keys n))" and "distinct (map ni_ID (filter ni_Online infos))"
  shows "key_parts (all_keys infos) infos k = map (\<lambda>(i, v). i @ '':'' @ v) (holders infos k)"
proof -
  have "key_parts m xs k = map (\<lambda>(i, v). i @ '':'' @ v) (holders xs k)"
    if "\<And>n. n \<in> set xs \<Longrightarrow> ni_Online n \<Longrightarrow> map_of (go_get m k []) (ni_ID n) = map_of (ni_Keys n) k" for m xs
    using that by (induction xs) (auto simp: key_parts_def holders_def split: option.splits)
  then show ?thesis using all_keys_get [OF assms] by blast
qed

subsection \<open>What the table of log entries shows\<close>

lemma log_choice_result:
  assumes "log_choice infos = (H, logs)"
  shows "H = Max (insert (-1) (ni_CommitIndex ` set (filter ni_Online infos)))"
    and "\<And>n. n \<in> set infos \<Longrightarrow> ni_Online n \<Longrightarrow> length (ni_Logs n) \<le> length logs"
    and "logs = [] \<or> (\<exists>n \<in> set infos. ni_Online n \<and> ni_Logs n = logs)"
proof -
  let ?step = "\<lambda>n (highestCommit, primaryLogs).
     if ni_Online n
     then (if ni_CommitIndex n > highestCommit then ni_CommitIndex n else highestCommit,
           if length (ni_Logs n) > length primaryLogs then ni_Logs n else primaryLogs)
     else (highestCommit, primaryLogs)"
  have "(H' = Max (insert h (ni_CommitIndex ` set (filter ni_Online xs))) \<and>
      (\<forall>n \<in> set xs. ni_Online n \<longrightarrow> length (ni_Logs n) \<le> length logs') \<and> length l \<le> length logs' \<and>
      (logs' = l \<or> (\<exists>n \<in> set xs. ni_Online n \<and> ni_Logs n = logs')))"
    if "fold ?step xs (h, l) = (H', logs')" for xs h l H' logs'
    using that
  proof (induction xs arbitrary: h l)
    case (Cons x xs)
    obtain h1 l1 where s: "?step x (h, l) = (h1, l1)" by fastforce
    have "fold ?step xs (h1, l1) = (H', logs')" using Cons.prems s by simp
    note ih = Cons.IH [OF this]
    have "Max (insert h1 (ni_CommitIndex ` set (filter ni_Online xs))) =
        Max (insert h (ni_CommitIndex ` set (filter ni_Online (x # xs))))"
    proof (cases "ni_Online x")
      case True
      then have h1: "h1 = max h (ni_CommitIndex x)" using s by (simp add: max_def split: if_splits)
      let ?A = "ni_CommitIndex ` set (filter ni_Online xs)"
      have fin: "finite ?A" by simp
      have "Max (insert h1 ?A) = Max (insert h (insert (ni_CommitIndex x) ?A))"
        by (cases "?A = {}") (simp_all add: h1 fin max.assoc)
      then show ?thesis using True by simp
    qed (use s in simp)
    moreover have "length l \<le> length l1" "ni_Online x \<Longrightarrow> length (ni_Logs x) \<le> length l1"
      "l1 = l \<or> ni_Online x \<and> ni_Logs x = l1"
      using s by (auto split: if_splits)
    ultimately show ?case using ih by (auto intro: order_trans)
  qed simp
  from this [OF assms [unfolded log_choice_def]]
  show "H = Max (insert (-1) (ni_CommitIndex ` set (filter ni_Online infos)))"
    "\<And>n. n \<in> set infos \<Longrightarrow> ni_Online n \<Longrightarrow> length (ni_Logs n) \<le> length logs"
    "logs = [] \<or> (\<exists>n \<in> set infos. ni_Online n \<and> ni_Logs n = logs)" by auto
qed

lemma log_rows_entries: "list_all readable es \<Longrightarrow> log_rows H (map format_entry es) = concat (map (item_row H \<circ> item_of) es)"
  by (induction es) (simp_all add: log_rows_def parseLogItem_format_entry)

subsection \<open>What the inspection of a file shows\<close>

definition lower_ascii :: "char \<Rightarrow> bool" where
  "lower_ascii c \<longleftrightarrow> (of_char c :: nat) < 128 \<and> lower_char c = c"

lemma ToLower_step: "(of_char c :: nat) < 128 \<Longrightarrow> ToLower (c # cs) = lower_char c # ToLower cs"
proof -
  assume c: "(of_char c :: nat) < 128"
  have "c \<noteq> CHR 0xC4" "c \<noteq> CHR 0xE2" using c by auto
  then show ?thesis by (subst ToLower.simps(2)) (auto simp del: ToLower.simps(2) split: list.split)
qed

lemma ToLower_id: "list_all lower_ascii s \<Longrightarrow> ToLower s = s"
  by (induction s) (simp_all add: ToLower_step lower_ascii_def del: ToLower.simps(2))

lemma lower_ascii_digit: "is_digit c \<Longrightarrow> lower_ascii c"
  by (simp add: lower_ascii_def is_digit_def lower_char_def)

lemma target_node_number: "target_node (ToLower (TrimSpace (Itoa i))) = node_id i"
  "target_node (ToLower (TrimSpace (node_id i))) = node_id i"
proof -
  have low: "list_all lower_ascii ''-''" "list_all lower_ascii ''node''" by code_simp+
  then have "list_all lower_ascii (Itoa i)"
    using nat_string_digits lower_ascii_digit by (auto simp: Itoa_def list_all_iff)
  then have "ToLower (Itoa i) = Itoa i" "ToLower (node_id i) = node_id i"
    using low(2) by (simp_all add: ToLower_id node_id_def del: ToLower.simps)
  moreover have "TrimSpace (Itoa i) = Itoa i"
    using visible_Itoa [of i] by (intro TrimSpace_visible) (auto simp: list_all_iff)
  moreover have "TrimSpace (node_id i) = node_id i"
    using visible_Itoa [of i] by (intro TrimSpace_visible) (auto simp: list_all_iff node_id_def visible_def)
  moreover have "\<not> HasPrefix (Itoa i) ''node''"
    using digit_not_in_Itoa [of "CHR ''n''" i] by (auto simp: HasPrefix_def is_digit_def prefix_def)
  ultimately show "target_node (ToLower (TrimSpace (Itoa i))) = node_id i"
    "target_node (ToLower (TrimSpace (node_id i))) = node_id i"
    by (simp_all add: target_node_def) (simp_all add: node_id_def HasPrefix_def)
qed

lemma ToUpper_step:
  assumes "(of_char c :: nat) < 97"
  shows "ToUpper (c # cs) = c # ToUpper cs"
proof -
  have "c \<noteq> CHR 0xC5" "c \<noteq> CHR 0xC4" using assms by auto
  then show ?thesis using assms by (subst ToUpper.simps(2)) (auto simp del: ToUpper.simps(2) split: list.split)
qed

lemma ToUpper_node: "ToUpper (node_id i) = ''NODE'' @ Itoa i"
proof -
  have "ToUpper s = s" if "\<forall>c \<in> set s. (of_char c :: nat) < 97" for s
    using that by (induction s) (simp_all add: ToUpper_step del: ToUpper.simps(2))
  moreover have "(of_char c :: nat) < 97" if "c \<in> set (Itoa i)" for c
    using that nat_string_digits [of "nat \<bar>i\<bar>"] by (auto simp: Itoa_def list_all_iff is_digit_def split: if_splits)
  ultimately have "ToUpper (Itoa i) = Itoa i" by blast
  moreover have "char_of (78 :: nat) = CHR ''N''" "char_of (79 :: nat) = CHR ''O''" "char_of (68 :: nat) = CHR ''D''"
      "char_of (69 :: nat) = CHR ''E''" by code_simp+
  ultimately show ?thesis by (cases "Itoa i") (simp_all add: node_id_def)
qed

text \<open>
  The table with its texts written out; a row for each kind of record that the program writes.
\<close>

lemma wal_table_head:
  "cells [pad 6 ''#'', pad 10 ''REC TYPE'', pad 8 ''TERM'', pad 12 ''VOTED / COMMIT'', pad 32 ''PAYLOAD / LOG ENTRY''] =
     ''   #      | REC TYPE   | TERM     | VOTED / COMMIT | PAYLOAD / LOG ENTRY             '' @ newline"
  by code_simp

lemma record_row_kinds:
  "record_row (k, state_record t v) =
     ''   '' @ pad 6 (Itoa (int k + 1)) @ '' | '' @ colorBlue @ pad 10 ''STATE'' @ colorReset @ '' | '' @ pad 8 (Itoa t) @ '' | '' @
     pad 12 (''Voted:'' @ v) @ '' | '' @ pad 32 (''Term state set to '' @ Itoa t) @ newline"
  "record_row (k, commit_record n) =
     ''   '' @ pad 6 (Itoa (int k + 1)) @ '' | '' @ colorGreen @ pad 10 ''COMMIT'' @ colorReset @ '' | '' @ pad 8 (Itoa 0) @ '' | '' @
     pad 12 (''CommitIdx:'' @ Itoa n) @ '' | '' @ pad 32 (''Advanced CommitIndex to '' @ Itoa n) @ newline"
  "record_row (k, truncate_record n) =
     ''   '' @ pad 6 (Itoa (int k + 1)) @ '' | '' @ colorRed @ pad 10 ''TRUNCATE'' @ colorReset @ '' | '' @ pad 8 (Itoa 0) @ '' | '' @
     pad 12 (''TruncTo:'' @ Itoa n) @ '' | '' @ pad 32 (''Log truncated after index '' @ Itoa n) @ newline"
  "record_row (k, entry_record e) =
     ''   '' @ pad 6 (Itoa (int k + 1)) @ '' | '' @ colorYellow @ pad 10 ''ENTRY'' @ colorReset @ '' | '' @ pad 8 (Itoa 0) @ '' | '' @
     pad 12 (''Idx:'' @ Itoa (Index e) @ '' T'' @ Itoa (Term e)) @ '' | '' @
     pad 32 (Operation e @ '' '' @ Key e @ '' = '' @ Value e) @ newline"
  by (simp_all add: record_row_def record_columns_def cells_def state_record_def commit_record_def truncate_record_def entry_record_def
      RecordState_def RecordCommit_def RecordTruncate_def RecordEntry_def)

subsection \<open>Properties\<close>

text \<open>
  C40: the table of keys is complete and attributes every value to its node. For reachable nodes with
  different names, \<^verbatim>\<open>keys\<close> prints one row for each key that some reachable node has, in the order of the
  bytes, and in that row exactly the reachable nodes that have the key, each with its own value, in
  the order of the nodes; with no key it prints that there is none.
\<close>

theorem displayKeys_complete:
  assumes "list_all (\<lambda>n. distinct (map fst (ni_Keys n))) infos" and "distinct (map ni_ID (filter ni_Online infos))"
  shows "displayKeys infos =
    (let ks = sorted_list_of_set (\<Union>n \<in> set (filter ni_Online infos). fst ` set (ni_Keys n))
     in if ks = [] then ''No keys stored in cluster.'' @ newline
        else newline @ colorBold @ colorCyan @ ''=== ALL KEYS MATRIX ==='' @ colorReset @ newline @
          concat (map (\<lambda>k. ''   '' @ bullet @ '' '' @ colorBold @ pad 16 k @ colorReset @ '' -> '' @
              Join (map (\<lambda>(i, v). i @ '':'' @ v) (holders infos k)) '' | '' @ newline) ks) @ newline)"
proof -
  let ?ks = "sorted_list_of_set (\<Union>n \<in> set (filter ni_Online infos). fst ` set (ni_Keys n))"
  have ks: "sort (map fst (all_keys infos)) = ?ks"
    using sorted_list_of_set_sort_remdups [of "map fst (all_keys infos)"] all_keys_distinct [of infos]
    by (simp add: distinct_remdups_id all_keys_dom)
  then have none: "all_keys infos = [] \<longleftrightarrow> ?ks = []"
    by (metis length_0_conv length_map length_sort)
  have parts: "key_parts (all_keys infos) infos k = map (\<lambda>(i, v). i @ '':'' @ v) (holders infos k)" for k
    by (rule key_parts_holders) (use assms in \<open>auto simp: list_all_iff\<close>)
  show ?thesis unfolding displayKeys_def Let_def ks none parts by (simp add: key_row_def title_def)
qed

definition sample_info :: "string \<Rightarrow> int \<Rightarrow> (string, string) go_map \<Rightarrow> string list \<Rightarrow> NodeInfo" where
  "sample_info i ci ks logs =
     (blank_info ''h'')\<lparr>ni_ID := i, ni_Online := True, ni_CommitIndex := ci, ni_Keys := ks, ni_Logs := logs\<rparr>"

theorem displayKeys_complete_witness:
  "displayKeys [sample_info ''n1'' 0 [(''b'', ''2''), (''a'', ''1'')] [], sample_info ''n2'' 0 [(''b'', ''3'')] []] =
     newline @ colorBold @ colorCyan @ ''=== ALL KEYS MATRIX ==='' @ colorReset @ newline @
     ''   '' @ bullet @ '' '' @ colorBold @ ''a               '' @ colorReset @ '' -> n1:1'' @ newline @
     ''   '' @ bullet @ '' '' @ colorBold @ ''b               '' @ colorReset @ '' -> n1:2 | n2:3'' @ newline @ newline"
proof -
  have "sorted_list_of_set {''b'', ''a''} = [''a'', ''b'']"
    using sorted_list_of_set_sort_remdups [of "[''b'', ''a'']"] by simp
  moreover have "pad 16 ''a'' = ''a               ''" "pad 16 ''b'' = ''b               ''" by code_simp+
  ultimately show ?thesis
    using displayKeys_complete [of "[sample_info ''n1'' 0 [(''b'', ''2''), (''a'', ''1'')] [], sample_info ''n2'' 0 [(''b'', ''3'')] []]"]
    by (simp add: sample_info_def blank_info_def holders_def Let_def insert_commute)
qed

text \<open>
  The table of log entries is the longest log: when the reachable nodes sent their log entries,
  \<^verbatim>\<open>logs\<close> prints every entry of one of the reachable nodes whose log is longest, in order, each with its
  index, term, operation, key and value, and marks as committed exactly those whose index is at most
  the highest commit index of any reachable node.
\<close>

lemma displayLogs_longest:
  assumes "\<And>n. n \<in> set infos \<Longrightarrow> ni_Online n \<Longrightarrow> ni_Logs n = map format_entry (L n) \<and> list_all readable (L n)"
    and "\<exists>n \<in> set infos. ni_Online n \<and> L n \<noteq> []"
  shows "\<exists>n \<in> set infos. ni_Online n \<and>
    list_all (\<lambda>n'. length (L n') \<le> length (L n)) (filter ni_Online infos) \<and>
    displayLogs infos =
      title (''FULL REPLICATED LOG TIMELINE ('' @ Itoa (len (L n)) @ '' Entries)'') @
      cells [pad 8 ''INDEX'', pad 8 ''TERM'', pad 8 ''OP'', pad 32 ''KEY / VALUE'', pad 12 ''STATUS''] @ rule 76 @
      concat (map (item_row (Max (insert (-1) (ni_CommitIndex ` set (filter ni_Online infos)))) \<circ> item_of) (L n)) @ newline"
proof -
  obtain H logs where c: "log_choice infos = (H, logs)" by fastforce
  note r = log_choice_result [OF c]
  obtain m where m: "m \<in> set infos" "ni_Online m" "L m \<noteq> []" using assms(2) by blast
  then have "logs \<noteq> []" using r(2) [OF m(1,2)] assms(1) [OF m(1,2)] by auto
  then obtain n where n: "n \<in> set infos" "ni_Online n" "ni_Logs n = logs" using r(3) by blast
  have logs: "logs = map format_entry (L n)" "list_all readable (L n)" using assms(1) [OF n(1,2)] n(3) by auto
  have "length (L n') \<le> length (L n)" if "n' \<in> set infos" "ni_Online n'" for n'
    using r(2) [OF that] assms(1) [OF that] by (simp add: logs)
  moreover have "displayLogs infos =
      title (''FULL REPLICATED LOG TIMELINE ('' @ Itoa (len (L n)) @ '' Entries)'') @
      cells [pad 8 ''INDEX'', pad 8 ''TERM'', pad 8 ''OP'', pad 32 ''KEY / VALUE'', pad 12 ''STATUS''] @ rule 76 @
      concat (map (item_row H \<circ> item_of) (L n)) @ newline"
    using \<open>logs \<noteq> []\<close> log_rows_entries [OF logs(2), of H] by (simp add: displayLogs_def c logs(1))
  ultimately show ?thesis using n(1,2) unfolding r(1) [symmetric] by (auto simp: list_all_iff)
qed

text \<open>
  C39: the inspection of a log file shows what the daemon would read, and calls it verified. For node
  \<open>i\<close>, given by its number or its name, \<^verbatim>\<open>wal\<close> reads the file of that node's daemon and prints its name, path and
  size, exactly one row for each record that was appended, in order, numbered from 1, and the number of
  these records. The row of a record has its kind and term and what was voted for, committed, truncated
  or entered. A record that fails its checksum ends the table: it and all records behind it have no row
  and are not counted, and the line below the table still says that all checksums are verified.
\<close>

theorem displayNodeWAL_rows:
  assumes "env_fine env" and "gob_codec enc dec" and "list_all (fits enc) rs" and "text \<in> {Itoa i, node_id i}"
    and "stat (wal_path i) = None" and "env_file env (wal_path i) = frames enc rs @ tail"
    and "tail = [] \<or> (\<exists>bs bad rest. tail = wal_header bs @ bad @ rest \<and> length bs < 2 ^ 32 \<and> length bad = length bs \<and>
      ChecksumIEEE bad \<noteq> ChecksumIEEE bs)"
  shows "\<exists>rows. displayNodeWAL dec env stat err_text text =
      newline @ colorBold @ colorCyan @ ''=== ON-DISK WAL INSPECTION: NODE'' @ Itoa i @ '' (data/node'' @ Itoa i @ ''/wal.log, '' @
      Itoa (len (frames enc rs @ tail)) @ '' bytes) ==='' @ colorReset @ newline @
      ''   #      | REC TYPE   | TERM     | VOTED / COMMIT | PAYLOAD / LOG ENTRY             '' @ newline @
      ''   '' @ replicate 80 CHR ''-'' @ newline @
      concat rows @
      newline @ ''   '' @ colorGreen @ ''Total on-disk records: '' @ Itoa (len rs) @ '' (All CRC32 checksums verified)'' @
      colorReset @ newline @ newline \<and>
    length rows = length rs \<and>
    (\<forall>k < length rs. \<forall>t v n e.
       let row = (\<lambda>colour kind trm what payload.
         ''   '' @ pad 6 (Itoa (int k + 1)) @ '' | '' @ colour @ pad 10 kind @ colorReset @ '' | '' @ pad 8 (Itoa trm) @ '' | '' @
         pad 12 what @ '' | '' @ pad 32 payload @ newline)
       in (rs ! k = state_record t v \<longrightarrow>
             rows ! k = row colorBlue ''STATE'' t (''Voted:'' @ v) (''Term state set to '' @ Itoa t)) \<and>
          (rs ! k = commit_record n \<longrightarrow>
             rows ! k = row colorGreen ''COMMIT'' 0 (''CommitIdx:'' @ Itoa n) (''Advanced CommitIndex to '' @ Itoa n)) \<and>
          (rs ! k = truncate_record n \<longrightarrow>
             rows ! k = row colorRed ''TRUNCATE'' 0 (''TruncTo:'' @ Itoa n) (''Log truncated after index '' @ Itoa n)) \<and>
          (rs ! k = entry_record e \<longrightarrow>
             rows ! k = row colorYellow ''ENTRY'' 0 (''Idx:'' @ Itoa (Index e) @ '' T'' @ Itoa (Term e))
               (Operation e @ '' '' @ Key e @ '' = '' @ Value e)))"
proof -
  let ?rows = "map record_row (enumerate 0 rs)"
  have "target_node (ToLower (TrimSpace text)) = node_id i" using assms(4) target_node_number by auto
  moreover have "read_loop dec None (frames enc rs @ tail) 0 [] = (rs, None)"
    using assms(7) read_all_clean [OF assms(2,3)] read_all_corrupt [OF assms(2,3)] by auto
  ultimately have "displayNodeWAL dec env stat err_text text = wal_table (node_id i) (wal_path i) (len (frames enc rs @ tail)) rs"
    using assms(1,5,6)
    by (simp add: displayNodeWAL_def Let_def node_wal_path env_fine_def OpenWAL_def WAL_ReadAll_def del: ToLower.simps)
  moreover have "?rows ! k = record_row (k, rs ! k)" if "k < length rs" for k using that by (simp add: nth_enumerate_eq)
  ultimately show ?thesis
    unfolding wal_table_def title_def rule_def wal_table_head ToUpper_node wal_path_def
    by (intro exI [of _ ?rows]) (simp add: Let_def record_row_kinds)
qed

theorem displayNodeWAL_rows_witness:
  "displayNodeWAL sample_dec
      (sample_env (\<lambda>_. frames sample_enc [state_record 1 ''n1''] @ wal_header [1] @ [2] @ frames sample_enc [state_record 1 ''n2'']))
      (\<lambda>_. None) (\<lambda>_. '''') ''1'' =
    newline @ colorBold @ colorCyan @ ''=== ON-DISK WAL INSPECTION: NODE1 (data/node1/wal.log, '' @
    Itoa (len (frames sample_enc [state_record 1 ''n1''] @ wal_header [1] @ [2] @ frames sample_enc [state_record 1 ''n2''])) @
    '' bytes) ==='' @ colorReset @ newline @
    ''   #      | REC TYPE   | TERM     | VOTED / COMMIT | PAYLOAD / LOG ENTRY             '' @ newline @
    ''   '' @ replicate 80 CHR ''-'' @ newline @
    ''   1      | '' @ colorBlue @ ''STATE     '' @ colorReset @ '' | 1        | Voted:n1     | Term state set to 1             '' @ newline @
    newline @ ''   '' @ colorGreen @ ''Total on-disk records: 1 (All CRC32 checksums verified)'' @ colorReset @ newline @ newline"
proof -
  have damaged: "ChecksumIEEE [2] \<noteq> ChecksumIEEE [1]" using checksum_single_byte [of "[]" 2 "[]" 1] by auto
  have arg: "''1'' \<in> {Itoa 1, node_id 1}" by code_simp
  let ?later = "frames sample_enc [state_record 1 ''n2'']" and ?rs = "[state_record 1 ''n1'']"
  let ?tail = "wal_header [1] @ [2] @ ?later"
  have tail: "?tail = [] \<or> (\<exists>bs bad rest. ?tail = wal_header bs @ bad @ rest \<and>
      length bs < 2 ^ 32 \<and> length bad = length bs \<and> ChecksumIEEE bad \<noteq> ChecksumIEEE bs)"
    using damaged by (intro disjI2 exI [of _ "[1]"] exI [of _ "[2]"] exI [of _ ?later]) simp
  have row: "''   '' @ pad 6 (Itoa 1) @ '' | '' @ colorBlue @ pad 10 ''STATE'' @ colorReset @ '' | '' @ pad 8 (Itoa 1) @ '' | '' @
      pad 12 ''Voted:n1'' @ '' | '' @ pad 32 (''Term state set to '' @ Itoa 1) @ newline =
    ''   1      | '' @ colorBlue @ ''STATE     '' @ colorReset @ '' | 1        | Voted:n1     | Term state set to 1             '' @ newline"
    and one: "Itoa 1 = ''1''" by code_simp+
  have disk: "env_file (sample_env (\<lambda>_. frames sample_enc ?rs @ ?tail)) (wal_path 1) = frames sample_enc ?rs @ ?tail"
    by (simp add: sample_env_def)
  have fit: "list_all (fits sample_enc) ?rs" using sample_fits(1) by simp
  from displayNodeWAL_rows [OF sample_env_fine(1) sample_codec fit arg _ disk tail, of "\<lambda>_. None" "\<lambda>_. ''''", OF refl]
  show ?thesis
  proof (elim exE conjE, goal_cases)
    case (1 rows)
    obtain r where r: "rows = [r]" using 1(2) by (auto simp: length_Suc_conv)
    have "r = ''   '' @ pad 6 (Itoa 1) @ '' | '' @ colorBlue @ pad 10 ''STATE'' @ colorReset @ '' | '' @ pad 8 (Itoa 1) @ '' | '' @
        pad 12 ''Voted:n1'' @ '' | '' @ pad 32 (''Term state set to '' @ Itoa 1) @ newline"
      using 1(3) [rule_format, of 0 1 "''n1''"] by (simp add: r Let_def)
    then show ?case using 1(1) unfolding row r by (simp add: one)
  qed
qed

end
