(* ===== verification/Orrisctl_Report.thy ===== *)
theory Orrisctl_Report
  imports Orrisctl_Display
begin

text \<open>
  The commands of the control tool that start, stop and kill nodes, with the lines they print. What
  the operating system and the network do during one command is one record, \<open>ctl_env\<close>: which
  processes exist, whether the executable is there and can be built, what starting a process gives,
  the answers over the network, printed times, the log files, the end of a benchmark. Each command is
  a function of this record and of the machine to the machine afterwards and the text it printed.
\<close>

record ctl_env =
  ce_found :: "int \<Rightarrow> bool"
  ce_goos :: string
  ce_missing :: "int \<Rightarrow> bool"
  ce_build :: "int \<Rightarrow> string option"
  ce_start :: "string list \<Rightarrow> string + int"
  ce_tcp :: "nat \<Rightarrow> network"
  ce_lat :: "nat \<Rightarrow> string"
  ce_now :: string
  ce_dec :: gob_dec
  ce_files :: daemon_env
  ce_stat :: "string \<Rightarrow> string option"
  ce_err :: "wal_error \<Rightarrow> string"
  ce_dial :: string

definition em_dash :: string where
  "em_dash = [CHR 0xE2, CHR 0x80, CHR 0x94]"

text \<open>The executable for the start of node \<open>i\<close>, and what is printed when it has to be built.\<close>

definition ctl_exe :: "ctl_env \<Rightarrow> int \<Rightarrow> string" where
  "ctl_exe env i = getOrrisdExe (ce_goos env) (ce_missing env i) (ce_build env i = None)"

definition print_exe :: "ctl_env \<Rightarrow> int \<Rightarrow> string" where
  "print_exe env i =
     (if ce_missing env i
      then colorDim @ ''[Building orrisd binary...]'' @ colorReset @ newline @
           (case ce_build env i of
              None \<Rightarrow> ''''
            | Some err \<Rightarrow> colorRed @ ''Failed to build orrisd: '' @ err @ colorReset @ newline)
      else '''')"

definition ctl_start :: "ctl_env \<Rightarrow> string list \<Rightarrow> int option" where
  "ctl_start env args = (case ce_start env args of Inl err \<Rightarrow> None | Inr pid \<Rightarrow> Some pid)"

definition print_node_start :: "ctl_env \<Rightarrow> int \<Rightarrow> int \<Rightarrow> string" where
  "print_node_start env i totalCount =
     print_exe env i @
     (if ctl_exe env i = '''' then ''''
      else case ce_start env (ctl_exe env i # node_args i totalCount) of
             Inl err \<Rightarrow> colorRed @ ''Failed to start '' @ node_id i @ '': '' @ err @ colorReset @ newline
           | Inr pid \<Rightarrow>
               '' '' @ colorGreen @ ''[OK]'' @ colorReset @ '' Started '' @ node_id i @ '' (Consensus: '' @ node_addr i @
               '', Client: '' @ client_addr i @ '', PID: '' @ Itoa pid @ '')'' @ newline)"

definition print_cluster_start :: "ctl_env \<Rightarrow> int \<Rightarrow> NodeInfo option \<Rightarrow> string" where
  "print_cluster_start env count leader =
     (let n = (if count < 1 then 3 else count)
      in colorBold @ colorCyan @ ''>>> Starting '' @ Itoa n @ ''-Node Raft Cluster (Cross-Platform)...'' @ colorReset @
         newline @ concat (map (\<lambda>i. print_node_start env i n) [1..n]) @
         colorDim @ ''Waiting for leader election...'' @ colorReset @ newline @
         (case leader of
            Some l \<Rightarrow>
              colorBold @ colorGreen @ ''[OK] Cluster Ready! Active Leader: '' @ ni_ID l @ '' on '' @ ni_Addr l @
              '' (Term: '' @ Itoa (ni_Term l) @ '')'' @ colorReset @ newline
          | None \<Rightarrow> colorYellow @ ''Cluster initialized.'' @ colorReset @ newline))"

text \<open>\<^verbatim>\<open>clusterStart\<close>: \<open>k\<close> is the network of its query.\<close>

definition run_start :: "ctl_env \<Rightarrow> nat \<Rightarrow> int \<Rightarrow> host \<Rightarrow> host \<times> string" where
  "run_start env k count h =
     (case clusterStart (ce_found env) (ctl_exe env) (ctl_start env)
             (queryCluster (ce_tcp env k) 0 (clusterStart_addrs count)) count h of
        (h', leader) \<Rightarrow> (h', print_cluster_start env count leader))"

definition run_spawn :: "ctl_env \<Rightarrow> int \<Rightarrow> int \<Rightarrow> host \<Rightarrow> host \<times> string" where
  "run_spawn env i totalCount h =
     (clusterStartSingleNode (ctl_exe env i) (ctl_start env) i totalCount h, print_node_start env i totalCount)"

definition print_stop :: "(int \<times> int) list \<Rightarrow> string" where
  "print_stop out =
     colorBold @ colorYellow @ ''>>> Stopping all cluster nodes...'' @ colorReset @ newline @
     concat (map (\<lambda>(i, pid). '' '' @ colorGreen @ ''[OK]'' @ colorReset @ '' Stopped node'' @ Itoa i @ '' (PID: '' @
       Itoa pid @ '')'' @ newline) out) @
     (if len out = 0 then colorDim @ ''No running nodes found.'' @ colorReset @ newline
      else colorBold @ colorGreen @ ''[OK] All '' @ Itoa (len out) @ '' nodes stopped.'' @ colorReset @ newline)"

definition run_stop :: "ctl_env \<Rightarrow> host \<Rightarrow> host \<times> string" where
  "run_stop env h = (case clusterStop (ce_found env) h of (h', out) \<Rightarrow> (h', print_stop out))"

fun print_kill :: "kill_report \<Rightarrow> string" where
  "print_kill (KilledLeader n pid) =
     colorBold @ colorRed @ ''[CHAOS] Killed active leader '' @ ni_ID n @ '' ('' @ ni_Addr n @ '', PID: '' @ Itoa pid @
     '')'' @ colorReset @ newline"
| "print_kill NoLeader = colorYellow @ ''No active leader found to kill.'' @ colorReset @ newline"
| "print_kill (KilledNode node pid) =
     colorBold @ colorRed @ ''[CHAOS] Killed target node '' @ node @ '' (PID: '' @ Itoa pid @ '')'' @ colorReset @ newline"
| "print_kill (NoProcess node) =
     colorYellow @ ''Could not find running process for '' @ node @ colorReset @ newline"

definition run_kill_leader :: "ctl_env \<Rightarrow> nat \<Rightarrow> string list \<Rightarrow> host \<Rightarrow> host \<times> string" where
  "run_kill_leader env k nodeAddrs h =
     (case clusterKillLeader (ce_found env) (queryCluster (ce_tcp env k) 0 nodeAddrs) h of
        (h', r) \<Rightarrow> (h', print_kill r))"

text \<open>The nodes are asked only when the target is the leader, which is the only use of the answers.\<close>

definition run_kill :: "ctl_env \<Rightarrow> nat \<Rightarrow> string list \<Rightarrow> string \<Rightarrow> host \<Rightarrow> host \<times> string" where
  "run_kill env k nodeAddrs target h =
     (case clusterKillTarget (ce_found env) (queryCluster (ce_tcp env k) 0 nodeAddrs) target h of
        (h', r) \<Rightarrow> (h', print_kill r))"

definition ensureClusterRunning :: "ctl_env \<Rightarrow> nat \<Rightarrow> string list \<Rightarrow> host \<Rightarrow> host \<times> string" where
  "ensureClusterRunning env k nodeAddrs h =
     (if list_all (\<lambda>n. \<not> ni_Online n) (queryCluster (ce_tcp env k) 0 nodeAddrs)
      then case run_start env (k + 1) 3 h of
             (h', out) \<Rightarrow>
               (h', colorCyan @ ''[No active cluster detected '' @ em_dash @
                    '' auto-starting 3-node Raft cluster in background...]'' @ colorReset @ newline @ out)
      else (h, ''''))"

end
