(* ===== verification/Orrisctl_Dashboard.thy ===== *)
theory Orrisctl_Dashboard
  imports Orrisctl_Report Scenario "HOL-Library.Multiset"
begin

text \<open>
  The dashboard of the control tool, what the prompt prints for reads and writes, the demonstration
  run and the write benchmark. The time of day and latencies are arguments. The benchmark is a step
  relation: its workers take jobs from a common channel, in any interleaving, and count the replies.
\<close>

subsection \<open>The dashboard\<close>

definition section_title :: "string \<Rightarrow> nat \<Rightarrow> string" where
  "section_title s n =
     colorBold @ colorWhite @ ''--- [ '' @ s @ '' ] '' @ replicate n CHR ''-'' @ colorReset @ newline"

text \<open>The frame around the first line is drawn with characters of three bytes.\<close>

definition box :: "nat \<Rightarrow> string" where
  "box n = [CHR 0xE2, CHR 0x95, char_of n]"

definition dashboard_head :: "string \<Rightarrow> string" where
  "dashboard_head now =
     clearScreen @
     colorBold @ colorCyan @ box 0x94 @ concat (replicate 86 (box 0x90)) @ box 0x97 @ colorReset @ newline @
     colorBold @ colorCyan @ box 0x91 @ ''  ORRIS CLUSTER VISUALIZER  [Zero-Dependency Raft Consensus]          '' @
     colorYellow @ ''TIME: '' @ now @ ''  '' @ box 0x91 @ colorReset @ newline @
     colorBold @ colorCyan @ box 0x9A @ concat (replicate 86 (box 0x90)) @ box 0x9D @ colorReset @ newline @ newline"

definition role_badge :: "string \<Rightarrow> string" where
  "role_badge role =
     (if role = ''LEADER'' then bgGreen @ '' [LEADER] '' @ colorReset
      else if role = ''CANDIDATE'' then bgYellow @ '' [CANDIDATE] '' @ colorReset
      else bgBlue @ '' [FOLLOWER] '' @ colorReset)"

definition bold_number :: "int \<Rightarrow> string" where
  "bold_number i = colorBold @ Itoa i @ colorReset"

definition dashboard_node :: "(nat \<Rightarrow> string) \<Rightarrow> nat \<times> NodeInfo \<Rightarrow> string" where
  "dashboard_node lat p =
     (case p of (i, n) \<Rightarrow>
        if \<not> ni_Online n
        then let name = (if ni_ID n = '''' then ''Node '' @ Itoa (int i + 1) else ni_ID n)
             in '' '' @ colorRed @ ''* '' @ name @ colorReset @ '' ('' @ ni_Addr n @ '')'' @ newline @
                ''   Status: '' @ bgRed @ ''[OFFLINE / STOPPED]'' @ colorReset @ ''  (Run '' @ [CHR 0x27] @ ''spawn '' @
                Itoa (int i + 1) @ [CHR 0x27] @ '' to restart)'' @ newline @ newline
        else '' '' @ colorGreen @ ''* Node '' @ ni_ID n @ colorReset @ '' on '' @ colorCyan @ ni_Addr n @ colorReset @
             '' (ping: '' @ colorDim @ lat i @ colorReset @ '')'' @ newline @
             ''   Role: '' @ role_badge (ni_Role n) @ ''   Term: '' @ bold_number (ni_Term n) @ ''   CommitIndex: '' @
             bold_number (ni_CommitIndex n) @ ''   Applied: '' @ bold_number (ni_LastApplied n) @ ''   LogEntries: '' @
             bold_number (ni_LogLen n) @ newline @ newline)"

definition dashboard_cell :: "string \<Rightarrow> NodeInfo \<Rightarrow> string" where
  "dashboard_cell k n =
     '' | '' @
     (if \<not> ni_Online n then colorRed @ pad 16 ''OFFLINE'' @ colorReset
      else case map_of (ni_Keys n) k of
             Some v \<Rightarrow> colorGreen @ pad 16 (clip 16 13 v) @ colorReset
           | None \<Rightarrow> colorDim @ pad 16 ''<nil>'' @ colorReset)"

definition dashboard_keys :: "NodeInfo list \<Rightarrow> string" where
  "dashboard_keys infos =
     section_title ''REPLICATED STATE MACHINE (KV STORE)'' 43 @
     (let ks = remdups (concat (map (map fst \<circ> ni_Keys) (filter ni_Online infos)))
      in if ks = []
         then ''   '' @ colorDim @ ''(No keys stored yet '' @ em_dash @ '' use '' @ [CHR 0x27] @ ''set <key> <value>'' @
              [CHR 0x27] @ '' to write data)'' @ colorReset @ newline @ newline
         else let header = ''   '' @ pad 16 ''KEY'' @
                    concat (map (\<lambda>n. '' | '' @ pad 16 (if ni_ID n = '''' then ni_Addr n else ni_ID n)) infos)
              in header @ newline @ rule (length header - 3) @
                 concat (map (\<lambda>k. ''   '' @ pad 16 k @ concat (map (dashboard_cell k) infos) @ newline) (sort ks)) @
                 newline)"

definition dashboard_item :: "int \<Rightarrow> LogItem \<Rightarrow> string" where
  "dashboard_item highestCommit item =
     cells [pad 8 (''#'' @ Itoa (li_Index item)), pad 8 (''Term '' @ Itoa (li_Term item)),
       pad 16 ((if is_delete (li_Op item) then colorRed else colorGreen) @ pad 6 (li_Op item) @ colorReset),
       pad 32 (item_payload item), pad 12 (item_status highestCommit item)]"

definition dashboard_logs :: "NodeInfo list \<Rightarrow> string" where
  "dashboard_logs infos =
     (case log_choice infos of (highestCommit, primaryLogs) \<Rightarrow>
        if primaryLogs = []
        then section_title ''RAFT WAL & LOG ENTRIES'' 56 @ ''   '' @ colorDim @ ''(Log is empty)'' @ colorReset @
             newline @ newline
        else let total = length primaryLogs; startIdx = (if total > 6 then total - 6 else 0);
                 recentLogs = drop startIdx primaryLogs
             in section_title (''RAFT WAL & LOG ENTRIES (Recent '' @ Itoa (len recentLogs) @ '' of '' @ Itoa (int total) @
                  '' Entries)'') 32 @
                cells [pad 8 ''INDEX'', pad 8 ''TERM'', pad 8 ''OP'', pad 32 ''KEY / VALUE'', pad 12 ''COMMIT STATE''] @
                rule 76 @
                concat (map (\<lambda>raw. case parseLogItem raw of
                    (item, ok) \<Rightarrow> if ok then dashboard_item highestCommit item else '''') recentLogs) @
                ''   '' @ colorDim @ ''(All active nodes synchronized '' @ bullet @ '' Type '' @ [CHR 0x27] @ ''wals'' @
                [CHR 0x27] @ '' to view all '' @ Itoa (int total) @ '' node WAL records)'' @ colorReset @ newline @ newline)"

definition renderDashboard :: "string \<Rightarrow> (nat \<Rightarrow> string) \<Rightarrow> NodeInfo list \<Rightarrow> string" where
  "renderDashboard now lat infos =
     dashboard_head now @
     section_title ''CLUSTER NODES & RAFT STATE'' 51 @ concat (map (dashboard_node lat) (enumerate 0 infos)) @
     dashboard_keys infos @ dashboard_logs infos"

subsection \<open>The command line\<close>

definition orrisctl_flags :: "(string \<times> bool) list" where
  "orrisctl_flags = [(''addr'', False), (''nodes'', False), (''watch'', True)]"

text \<open>The flags of the control tool: the addresses it works with and the command it runs.\<close>

definition orrisctl_command :: "string list \<Rightarrow> flag_exit + string list \<times> ctl_command" where
  "orrisctl_command args =
     (case flag_parse orrisctl_flags args [] of
        Inl e \<Rightarrow> Inl e
      | Inr (m, rest) \<Rightarrow>
          (let nodesFlag = go_get m ''nodes'' ''127.0.0.1:9001,127.0.0.1:9002,127.0.0.1:9003''
           in Inr (Split nodesFlag '','',
                main_command (go_get m ''addr'' '''') nodesFlag (go_get m ''watch'' ''false'' = ''true'') rest)))"

text \<open>One turn of the loop of \<^verbatim>\<open>runDashboard\<close>.\<close>

definition dashboard_turn :: "network \<Rightarrow> string \<Rightarrow> (nat \<Rightarrow> string) \<Rightarrow> string list \<Rightarrow> string" where
  "dashboard_turn tcp now lat nodeAddrs =
     renderDashboard now lat (queryCluster tcp 0 nodeAddrs) @
     colorDim @ ''[Auto-refreshing every 1s '' @ em_dash @ '' Press Ctrl+C to exit]'' @ colorReset @ newline"

text \<open>What \<^verbatim>\<open>runREPL\<close> shows before it reads a line.\<close>

definition repl_screen :: "network \<Rightarrow> string \<Rightarrow> (nat \<Rightarrow> string) \<Rightarrow> string" where
  "repl_screen tcp now lat =
     renderDashboard now lat (displayedNodes (queryCluster tcp 0 repl_addrs)) @
     colorBold @ colorPurple @ ''COMMANDS:'' @ colorReset @
     '' set <k> <v> | get <k> | del <k> | keys | wals | wal <node> | kill <node|leader> | spawn <node> | ping | leader | bench [n] [c] | help | exit'' @
     newline @ colorBold @ ''orris> '' @ colorReset"

subsection \<open>The prompt\<close>

definition quoted :: "string \<Rightarrow> string" where
  "quoted s = [CHR 0x27] @ s @ [CHR 0x27]"

text \<open>What \<^verbatim>\<open>set\<close>, \<^verbatim>\<open>del\<close> and \<^verbatim>\<open>get\<close> print; \<open>r\<close> is what \<open>executeRouted\<close> and \<open>repl_get\<close> returned.\<close>

definition print_set :: "string \<Rightarrow> string \<Rightarrow> string \<Rightarrow> string \<times> string \<Rightarrow> string" where
  "print_set lat key val r =
     (case r of (res, leaderAddr) \<Rightarrow>
        if HasPrefix res ''OK''
        then colorGreen @ ''[COMMITTED]'' @ colorReset @ '' Set '' @ quoted key @ '' = '' @ quoted val @ '' via '' @
             leaderAddr @ '' (latency: '' @ lat @ '')'' @ newline
        else colorRed @ ''[FAILED]'' @ colorReset @ '' '' @ res @ newline)"

definition print_del :: "string \<Rightarrow> string \<Rightarrow> string \<times> string \<Rightarrow> string" where
  "print_del lat key r =
     (case r of (res, leaderAddr) \<Rightarrow>
        if HasPrefix res ''OK''
        then colorGreen @ ''[COMMITTED]'' @ colorReset @ '' Deleted '' @ quoted key @ '' via '' @ leaderAddr @
             '' (latency: '' @ lat @ '')'' @ newline
        else colorRed @ ''[FAILED]'' @ colorReset @ '' '' @ res @ newline)"

definition print_get :: "string \<Rightarrow> string \<Rightarrow> (string \<times> string) option \<Rightarrow> string" where
  "print_get lat key r =
     (case r of
        Some (val, addr) \<Rightarrow>
          colorGreen @ ''[FOUND]'' @ colorReset @ '' Key '' @ quoted key @ '' = '' @ quoted (colorBold @ val @ colorReset) @
          '' (from '' @ addr @ '' in '' @ lat @ '')'' @ newline
      | None \<Rightarrow> colorYellow @ ''[NOT FOUND]'' @ colorReset @ '' Key '' @ quoted key @ '' not present'' @ newline)"

subsection \<open>The demonstration\<close>

definition demo_title :: "string \<Rightarrow> string" where
  "demo_title s = newline @ colorBold @ colorWhite @ ''>>> '' @ s @ colorReset @ newline"

definition demo_write :: "nat \<Rightarrow> string \<Rightarrow> string \<Rightarrow> string \<Rightarrow> string \<times> string \<Rightarrow> string" where
  "demo_write k key val lat r =
     '' Write '' @ Itoa (int k) @ '': '' @ quoted key @ ''='' @ quoted val @ '' -> '' @ fst r @ '' (via '' @ snd r @ '' in '' @
     lat @ '')'' @ newline"

definition demo_read :: "string \<Rightarrow> string option \<Rightarrow> string \<Rightarrow> string" where
  "demo_read lat reply addr =
     (case reply of
        Some val \<Rightarrow> '' Node on '' @ pad 14 addr @ '' -> '' @ colorGreen @ val @ colorReset @ '' (in '' @ lat @ '')'' @ newline
      | None \<Rightarrow> '''')"

definition demo_node :: "NodeInfo \<Rightarrow> string" where
  "demo_node n =
     (if ni_Online n
      then let badge = (if ni_Role n = ''LEADER'' then colorGreen @ ''[LEADER]'' @ colorReset
                        else colorBlue @ ni_Role n @ colorReset)
           in '' Node '' @ ni_ID n @ '' on '' @ pad 14 (ni_Addr n) @ '' -> Role: '' @ badge @ '' | Term: '' @ Itoa (ni_Term n) @
              '' | Val(project): '' @ colorGreen @ go_get (ni_Keys n) ''project'' '''' @ colorReset @ newline
      else '' Node on '' @ pad 19 (ni_Addr n) @ '' -> '' @ colorRed @ ''[OFFLINE / KILLED]'' @ colorReset @ newline)"

text \<open>
  The demonstration on a machine: it starts three nodes, writes two keys, reads one back from every
  node, kills the leader, looks again and stops the nodes.
\<close>

definition runFullDemo :: "ctl_env \<Rightarrow> string list \<Rightarrow> host \<Rightarrow> host \<times> string" where
  "runFullDemo env nodeAddrs h =
     (let (h1, started) = run_start env 0 3 h;
          r1 = executeRouted (ce_tcp env 1) nodeAddrs ''SET project orris-zero-dep'';
          r2 = executeRouted (ce_tcp env 2) nodeAddrs ''SET system distributed-raft'';
          reads = map (\<lambda>(j, addr). demo_read (ce_lat env (j + 2)) (sendRawCommand (ce_tcp env 3 j) addr ''GET project'') addr)
                    (enumerate 0 nodeAddrs);
          (h2, killed) = run_kill_leader env 4 nodeAddrs h1;
          infos = queryCluster (ce_tcp env 5) 0 nodeAddrs;
          (h3, stop) = run_stop env h2
      in (h3,
          newline @ colorBold @ colorCyan @ replicate 72 CHR ''='' @ colorReset @ newline @
          colorBold @ colorCyan @ ''               ORRIS END-TO-END DEMO & VALIDATION                       '' @ colorReset @
          newline @ colorBold @ colorCyan @ replicate 72 CHR ''='' @ colorReset @ newline @ newline @ started @
          demo_title ''[1/4] Writing Data via Consensus Leader...'' @
          demo_write 1 ''project'' ''orris-zero-dep'' (ce_lat env 0) r1 @
          demo_write 2 ''system'' ''distributed-raft'' (ce_lat env 1) r2 @
          demo_title ''[2/4] Verifying Replicated State Across All Follower Nodes...'' @ concat reads @
          demo_title ''[3/4] Triggering Leader Failover (Killing Leader)...'' @ killed @
          colorDim @ ''Waiting 2 seconds for quorum re-election...'' @ colorReset @ newline @
          demo_title ''[4/4] Verifying State & New Leader After Failover...'' @ concat (map demo_node infos) @
          newline @ colorBold @ colorGreen @ ''[OK] DEMO COMPLETE: Consensus, Replication, WAL & Failover Verified!'' @
          colorReset @ newline @ newline @ stop))"

subsection \<open>The benchmark\<close>

datatype worker = Idle | Working int | Finished

record bench =
  b_jobs :: "int list"
  b_workers :: "worker list"
  successCount :: int
  failCount :: int
  b_replies :: "(int \<times> string) list"

definition bench_line :: "int \<Rightarrow> string" where
  "bench_line idx = ''SET k_'' @ Itoa idx @ '' val_'' @ Itoa idx"

definition bench_start :: "int \<Rightarrow> int \<Rightarrow> bench" where
  "bench_start n concurrency =
     \<lparr>b_jobs = [0..n - 1], b_workers = replicate (nat concurrency) Idle, successCount = 0, failCount = 0,
      b_replies = []\<rparr>"

definition bench_take :: "nat \<Rightarrow> bench \<Rightarrow> bench" where
  "bench_take w b = b\<lparr>b_jobs := tl (b_jobs b), b_workers := (b_workers b)[w := Working (hd (b_jobs b))]\<rparr>"

definition bench_reply :: "nat \<Rightarrow> int \<Rightarrow> string \<Rightarrow> bench \<Rightarrow> bench" where
  "bench_reply w idx res b =
     (let b1 = b\<lparr>b_workers := (b_workers b)[w := Idle], b_replies := b_replies b @ [(idx, res)]\<rparr>
      in if HasPrefix res ''OK'' then b1\<lparr>successCount := successCount b + 1\<rparr>
         else b1\<lparr>failCount := failCount b + 1\<rparr>)"

definition bench_exit :: "nat \<Rightarrow> bench \<Rightarrow> bench" where
  "bench_exit w b = b\<lparr>b_workers := (b_workers b)[w := Finished]\<rparr>"

text \<open>
  The channel of jobs is filled and closed before the workers start. A worker takes the next job,
  routes its command over whatever network there is then, or ends when the channel is empty.
\<close>

inductive bench_step :: "string list \<Rightarrow> bench \<Rightarrow> bench \<Rightarrow> bool" for addrs where
  step_take:
    "w < length (b_workers b) \<Longrightarrow> b_workers b ! w = Idle \<Longrightarrow> b_jobs b \<noteq> [] \<Longrightarrow> bench_step addrs b (bench_take w b)"
| step_reply:
    "w < length (b_workers b) \<Longrightarrow> b_workers b ! w = Working idx \<Longrightarrow>
     res = fst (executeRouted tcp addrs (bench_line idx)) \<Longrightarrow> bench_step addrs b (bench_reply w idx res b)"
| step_exit:
    "w < length (b_workers b) \<Longrightarrow> b_workers b ! w = Idle \<Longrightarrow> b_jobs b = [] \<Longrightarrow> bench_step addrs b (bench_exit w b)"

text \<open>All workers have ended: \<^verbatim>\<open>wg.Wait\<close> returns.\<close>

definition bench_done :: "bench \<Rightarrow> bool" where
  "bench_done b \<longleftrightarrow> list_all (\<lambda>w. w = Finished) (b_workers b)"

text \<open>The last line; the elapsed time and the rate are arguments.\<close>

definition bench_report :: "string \<Rightarrow> string \<Rightarrow> int \<Rightarrow> bench \<Rightarrow> string" where
  "bench_report elapsed rate n b =
     colorBold @ colorGreen @ ''[OK] Benchmark Finished:'' @ colorReset @ '' '' @ Itoa (successCount b) @ ''/'' @ Itoa n @
     '' committed in '' @ elapsed @ '' (~'' @ rate @ '' ops/sec, '' @ Itoa (failCount b) @ '' failed)'' @ newline"

subsection \<open>Jobs are neither lost nor repeated\<close>

lemma sum_list_exchange:
  "i < length xs \<Longrightarrow> sum_list (map g (xs[i := x])) + g (xs ! i) = sum_list (map g xs) + (g x :: 'a :: comm_monoid_add)"
proof (induction xs arbitrary: i)
  case (Cons y ys)
  show ?case
  proof (cases i)
    case (Suc j)
    then have "sum_list (map g (ys[j := x])) + g (ys ! j) = sum_list (map g ys) + g x" using Cons by simp
    then show ?thesis by (simp add: Suc add.assoc)
  qed (simp add: ac_simps)
qed simp

lemma sum_list_zeros: "list_all (\<lambda>x. g x = (0 :: 'a :: monoid_add)) xs \<Longrightarrow> sum_list (map g xs) = 0"
  by (induction xs) simp_all

definition in_work :: "worker \<Rightarrow> int multiset" where
  "in_work w = (case w of Working idx \<Rightarrow> {#idx#} | _ \<Rightarrow> {#})"

definition bench_inv :: "int \<Rightarrow> bench \<Rightarrow> bool" where
  "bench_inv n b \<longleftrightarrow>
     mset (b_jobs b) + sum_list (map in_work (b_workers b)) + mset (map fst (b_replies b)) = mset [0..n - 1] \<and>
     successCount b = len (filter (\<lambda>(idx, res). HasPrefix res ''OK'') (b_replies b)) \<and>
     failCount b = len (filter (\<lambda>(idx, res). \<not> HasPrefix res ''OK'') (b_replies b)) \<and>
     (Finished \<in> set (b_workers b) \<longrightarrow> b_jobs b = [])"

lemma bench_inv_start: "bench_inv n (bench_start n c)"
  using sum_list_zeros [of in_work "replicate (nat c) Idle"]
  by (simp add: bench_inv_def bench_start_def in_work_def list_all_iff)

lemma bench_inv_step:
  assumes "bench_step addrs b b'" and "bench_inv n b"
  shows "bench_inv n b'"
  using assms(1)
proof cases
  case (step_take w)
  then obtain j js where j: "b_jobs b = j # js" by (cases "b_jobs b") auto
  have "Finished \<notin> set ((b_workers b)[w := Working j])"
    using assms(2) j set_update_subset_insert [of "b_workers b" w "Working j"] by (auto simp: bench_inv_def)
  then show ?thesis
    using step_take assms(2) j sum_list_exchange [OF step_take(2), of in_work "Working j"]
    by (simp add: bench_inv_def bench_take_def in_work_def)
next
  case (step_reply w idx res tcp)
  have x: "sum_list (map in_work ((b_workers b)[w := Idle])) + {#idx#} = sum_list (map in_work (b_workers b))"
    using sum_list_exchange [OF step_reply(2), of in_work Idle] step_reply(3) by (simp add: in_work_def)
  have "Finished \<in> set ((b_workers b)[w := Idle]) \<Longrightarrow> b_jobs b = []"
    using assms(2) set_update_subset_insert [of "b_workers b" w Idle] by (auto simp: bench_inv_def)
  then show ?thesis
    using step_reply(1) assms(2) unfolding bench_inv_def x [symmetric] by (simp add: bench_reply_def Let_def)
next
  case (step_exit w)
  then show ?thesis
    using assms(2) sum_list_exchange [OF step_exit(2), of in_work Finished]
    by (simp add: bench_inv_def bench_exit_def in_work_def)
qed

lemma bench_inv_run: "(bench_step addrs)\<^sup>*\<^sup>* b b' \<Longrightarrow> bench_inv n b \<Longrightarrow> bench_inv n b'"
  by (induction rule: rtranclp_induct) (auto intro: bench_inv_step)

definition worker_load :: "worker \<Rightarrow> nat" where
  "worker_load w = (case w of Idle \<Rightarrow> 1 | Working idx \<Rightarrow> 2 | Finished \<Rightarrow> 0)"

definition bench_load :: "bench \<Rightarrow> nat" where
  "bench_load b = 2 * length (b_jobs b) + sum_list (map worker_load (b_workers b))"

lemma bench_load_step: "bench_step addrs b b' \<Longrightarrow> bench_load b' < bench_load b"
proof (induction rule: bench_step.induct)
  case (step_take w b)
  then show ?case
    using sum_list_exchange [of w "b_workers b" worker_load "Working (hd (b_jobs b))"]
    by (cases "b_jobs b") (simp_all add: bench_load_def bench_take_def worker_load_def)
next
  case (step_reply w b idx res tcp)
  then show ?case
    using sum_list_exchange [of w "b_workers b" worker_load Idle]
    by (simp add: bench_load_def bench_reply_def worker_load_def Let_def)
next
  case (step_exit w b)
  then show ?case
    using sum_list_exchange [of w "b_workers b" worker_load Finished]
    by (simp add: bench_load_def bench_exit_def worker_load_def)
qed

lemma bench_load_steps: "(bench_step addrs ^^ m) b b' \<Longrightarrow> m + bench_load b' \<le> bench_load b"
proof (induction m arbitrary: b')
  case (Suc m)
  then obtain b1 where "(bench_step addrs ^^ m) b b1" "bench_step addrs b1 b'" by auto
  then show ?case using Suc.IH [of b1] bench_load_step [of addrs b1 b'] by simp
qed simp

lemma bench_not_stuck: "\<not> bench_done b \<Longrightarrow> \<exists>b'. bench_step addrs b b'"
proof -
  assume "\<not> bench_done b"
  then obtain w where w: "w < length (b_workers b)" "b_workers b ! w \<noteq> Finished"
    by (auto simp: bench_done_def list_all_length)
  show ?thesis
  proof (cases "b_workers b ! w")
    case Idle
    then show ?thesis using w step_take [of w b] step_exit [of w b] by blast
  next
    case (Working idx)
    then show ?thesis using w step_reply [OF w(1) Working refl] by blast
  qed (use w in simp)
qed

subsection \<open>Properties\<close>

text \<open>
  C37: the benchmark ends and its counts are right. However the workers interleave, a run has at most
  two steps for each job and one for each worker, a run that has not ended can go on, and when all
  workers have ended every one of the \<open>n\<close> commands was routed exactly once, the successes are the
  replies that start with \<^verbatim>\<open>OK\<close>, and successes and failures add up to \<open>n\<close>.
\<close>

theorem benchmark_counts:
  assumes "0 \<le> n" and "1 \<le> c" and "(bench_step addrs ^^ m) (bench_start n c) b"
  shows "int m \<le> 2 * n + c \<and> (bench_done b \<or> (\<exists>b'. bench_step addrs b b')) \<and>
    (bench_done b \<longrightarrow> mset (map fst (b_replies b)) = mset [0..n - 1] \<and>
      successCount b = len (filter (\<lambda>(idx, res). HasPrefix res ''OK'') (b_replies b)) \<and> successCount b + failCount b = n)"
proof -
  have "m \<le> bench_load (bench_start n c)" using bench_load_steps [OF assms(3)] by simp
  then have m: "int m \<le> 2 * n + c"
    using assms(1,2) by (simp add: bench_load_def bench_start_def worker_load_def sum_list_replicate)
  have run: "(bench_step addrs)\<^sup>*\<^sup>* (bench_start n c) b" by (rule relpowp_imp_rtranclp [OF assms(3)])
  then have inv: "bench_inv n b" using bench_inv_start by (rule bench_inv_run)
  have "length (b_workers b) = nat c"
    using run by (induction rule: rtranclp_induct)
      (auto simp: bench_start_def bench_take_def bench_reply_def bench_exit_def Let_def elim!: bench_step.cases)
  then have some: "b_workers b \<noteq> []" using assms(2) by auto
  have "mset (map fst (b_replies b)) = mset [0..n - 1]" if d: "bench_done b"
  proof -
    have "sum_list (map in_work (b_workers b)) = {#}"
      using d by (intro sum_list_zeros) (auto simp: bench_done_def list_all_iff in_work_def)
    moreover have "b_jobs b = []"
      using inv d some by (cases "b_workers b") (auto simp: bench_inv_def bench_done_def)
    ultimately show ?thesis using inv by (simp add: bench_inv_def)
  qed
  moreover have "length (b_replies b) = nat n" if "mset (map fst (b_replies b)) = mset [0..n - 1]"
    using arg_cong [OF that, of size] by simp
  moreover have "successCount b + failCount b = len (b_replies b)"
    using inv sum_length_filter_compl [of "\<lambda>(idx, res). HasPrefix res ''OK''" "b_replies b"]
    by (auto simp: bench_inv_def case_prod_unfold)
  ultimately show ?thesis using m bench_not_stuck inv assms(1) by (auto simp: bench_inv_def)
qed

theorem benchmark_counts_witness:
  "let b = bench_exit 0 (bench_reply 0 0 ''ERR NO_LEADER_FOUND'' (bench_take 0 (bench_start 1 1)))
   in bench_done b \<and> successCount b + failCount b = 1"
proof -
  let ?b1 = "bench_take 0 (bench_start 1 1)" and ?r = "''ERR NO_LEADER_FOUND''"
  let ?b = "bench_exit 0 (bench_reply 0 0 ?r ?b1)"
  have s: "b_jobs (bench_start 1 1) = [0]" "b_workers (bench_start 1 1) = [Idle]" by code_simp+
  have w: "b_workers ?b1 = [Working 0]" "b_jobs ?b1 = []" by code_simp+
  have e: "b_workers (bench_reply 0 0 ?r ?b1) = [Idle]" "b_jobs (bench_reply 0 0 ?r ?b1) = []" by code_simp+
  have res: "?r = fst (executeRouted (\<lambda>_ _ _. None) [] (bench_line 0))"
    by (simp add: executeRouted_def queryCluster_def)
  have "bench_step [] (bench_start 1 1) ?b1" by (rule step_take) (simp_all add: s)
  moreover have "bench_step [] ?b1 (bench_reply 0 0 ?r ?b1)" by (rule step_reply [OF _ _ res]) (simp_all add: w)
  moreover have "bench_step [] (bench_reply 0 0 ?r ?b1) ?b" by (rule step_exit) (simp_all add: e)
  ultimately have "(bench_step [] ^^ 3) (bench_start 1 1) ?b" by (auto simp: numeral_3_eq_3)
  moreover have "bench_done ?b" by code_simp
  ultimately show ?thesis using benchmark_counts [of 1 1 3 "[]" ?b] by (simp add: Let_def)
qed




end
