(* ===== verification/Orrisctl_Session.thy ===== *)
theory Orrisctl_Session
  imports Orrisctl_Dashboard
begin

text \<open>
  A whole run of the control tool: a command of its command line, or a session at its prompt, line by
  line, on a machine and with what it prints. What the surroundings do is one \<open>session\<close> for each turn
  of the prompt. The prompt reads its input with a scanner, so its lines are \<open>scan_lines\<close> of the input.
  Standard output only; what the flag package prints on standard error is left out.
\<close>

record session =
  s_env :: ctl_env
  s_bench :: "int \<Rightarrow> int \<Rightarrow> bench"
  s_elapsed :: string
  s_rate :: string

text \<open>
  The first \<open>n\<close> turns of the loop of \<^verbatim>\<open>runDashboard\<close> from turn \<open>t\<close>: what they print, and whether the loop
  has ended. Every call of the tool asks for the refreshing loop, which only an interrupt ends.
\<close>

fun dashboard_loop :: "(nat \<Rightarrow> ctl_env) \<Rightarrow> nat \<Rightarrow> string list \<Rightarrow> bool \<Rightarrow> nat \<Rightarrow> string \<times> bool" where
  "dashboard_loop envs t addrs loop 0 = ('''', False)"
| "dashboard_loop envs t addrs loop (Suc n) =
     (let env = envs t
      in if loop
         then (case dashboard_loop envs (t + 1) addrs loop n of
                 (out, over) \<Rightarrow> (dashboard_turn (ce_tcp env 0) (ce_now env) (ce_lat env) addrs @ out, over))
         else (renderDashboard (ce_now env) (ce_lat env) (queryCluster (ce_tcp env 0) 0 addrs), True))"

definition runDashboard :: "(nat \<Rightarrow> ctl_env) \<Rightarrow> string list \<Rightarrow> bool \<Rightarrow> nat \<Rightarrow> host \<Rightarrow> host \<times> string \<times> bool" where
  "runDashboard envs addrs loop n h =
     (case ensureClusterRunning (envs 0) 0 addrs h of
        (h', out) \<Rightarrow> (case dashboard_loop envs 1 addrs loop n of (shown, over) \<Rightarrow> (h', out @ shown, over)))"

lemma dashboard_loop_turns:
  "dashboard_loop envs t addrs True n =
    (concat (map (\<lambda>i. dashboard_turn (ce_tcp (envs i) 0) (ce_now (envs i)) (ce_lat (envs i)) addrs) [t..<t + n]), False)"
proof (induction n arbitrary: t)
  case (Suc n)
  have "[t..<t + Suc n] = t # [t + 1..<t + 1 + n]" by (simp add: upt_conv_Cons del: upt_Suc)
  then show ?case using Suc.IH [of "t + 1"] by (simp add: Let_def del: upt_Suc)
qed simp

text \<open>
  How the tool ends: with an exit status, or refreshing the dashboard until it is interrupted; the output
  of a run that ends so is what comes before the turns of \<open>dashboard_loop\<close>.
\<close>

datatype ctl_exit = CtlExit int | Refreshing

definition bench_begin :: "int \<Rightarrow> int \<Rightarrow> string" where
  "bench_begin n c =
     colorCyan @ ''Running concurrent benchmark: '' @ Itoa n @ '' writes with concurrency '' @ Itoa c @ ''...'' @
     colorReset @ newline"

definition print_routed :: "string \<Rightarrow> string \<times> string \<Rightarrow> string" where
  "print_routed lat r = fst r @ '' (via '' @ snd r @ '' in '' @ lat @ '')'' @ newline"

definition cluster_usage :: string where
  "cluster_usage = ''Usage: orrisctl cluster [start [N]|stop|kill-leader]'' @ newline"

definition ended :: "host \<times> string \<Rightarrow> host \<times> string \<times> ctl_exit" where
  "ended r = (fst r, snd r, CtlExit 0)"

text \<open>Every command but the prompt itself; \<open>k\<close> numbers its first use of the network.\<close>

fun run_command :: "session \<Rightarrow> nat \<Rightarrow> string list \<Rightarrow> ctl_command \<Rightarrow> host \<Rightarrow> host \<times> string \<times> ctl_exit" where
  "run_command s k addrs (CtlStart n) h = ended (run_start (s_env s) k n h)"
| "run_command s k addrs CtlStop h = ended (run_stop (s_env s) h)"
| "run_command s k addrs CtlKillLeader h = ended (run_kill_leader (s_env s) k addrs h)"
| "run_command s k addrs (CtlKill target) h = ended (run_kill (s_env s) k addrs target h)"
| "run_command s k addrs (CtlSpawn i n) h = ended (run_spawn (s_env s) i n h)"
| "run_command s k addrs (CtlNodeWAL node) h =
     ended (h, displayNodeWAL (ce_dec (s_env s)) (ce_files (s_env s)) (ce_stat (s_env s)) (ce_err (s_env s)) node)"
| "run_command s k addrs CtlAllWALs h =
     ended (h, displayAllWALs (ce_dec (s_env s)) (ce_files (s_env s)) (ce_stat (s_env s)))"
| "run_command s k addrs (CtlBench n c) h =
     ended (h, bench_begin n c @ bench_report (s_elapsed s) (s_rate s) n (s_bench s n c))"
| "run_command s k addrs CtlPing h =
     ended (h, displayPing (ce_lat (s_env s)) (queryCluster (ce_tcp (s_env s) k) 0 addrs))"
| "run_command s k addrs CtlLeader h = ended (h, displayLeader (queryCluster (ce_tcp (s_env s) k) 0 addrs))"
| "run_command s k addrs CtlStatus h =
     ended (h, displayStatus (ce_lat (s_env s)) (queryCluster (ce_tcp (s_env s) k) 0 addrs))"
| "run_command s k addrs CtlKeys h = ended (h, displayKeys (queryCluster (ce_tcp (s_env s) k) 0 addrs))"
| "run_command s k addrs CtlLogs h = ended (h, displayLogs (queryCluster (ce_tcp (s_env s) k) 0 addrs))"
| "run_command s k addrs CtlDemo h = ended (runFullDemo (s_env s) addrs h)"
| "run_command s k addrs CtlUsage h = ended (h, cluster_usage)"
| "run_command s k addrs CtlDashboard h =
     (case ensureClusterRunning (s_env s) k addrs h of (h', out) \<Rightarrow> (h', out, Refreshing))"
| "run_command s k addrs CtlREPL h = ended (h, '''')"
| "run_command s k addrs (CtlRouted cmd args) h =
     ended (h, print_routed (ce_lat (s_env s) 0) (handleRoutedCommand (ce_tcp (s_env s) k) addrs cmd args))"
| "run_command s k addrs (CtlSingle target cmd args) h =
     (case handleSingleCommand (ce_tcp (s_env s) k) target cmd args of
        None \<Rightarrow> (h, ''Failed to connect: '' @ ce_dial (s_env s) @ newline, CtlExit 1)
      | Some res \<Rightarrow> (h, res @ newline, CtlExit 0))"

subsection \<open>The prompt\<close>

definition help_lines :: "string list" where
  "help_lines =
     ['''', ''Available commands:'',
      ''  [Cluster Management]'',
      ''    start [N]         - Start an N-node cluster (default: 3)'',
      ''    stop              - Stop all cluster nodes'',
      ''    kill <node|leader>- Crash/kill a specific node (e.g. '' @ quoted ''kill node2'' @ '', '' @ quoted ''kill 1'' @
        '', '' @ quoted ''kill leader'' @ '')'',
      ''    spawn <node>      - Restart a crashed node (e.g. '' @ quoted ''spawn node2'' @ '', '' @ quoted ''spawn 2'' @ '')'',
      ''    status / info     - Print live status matrix for all nodes'',
      ''    ping              - Ping all cluster nodes and display latencies'',
      ''    leader            - Query active consensus leader'',
      '''',
      ''  [KV State Machine]'',
      ''    set <k> <v>       - Replicate and commit a key-value pair to leader'',
      ''    get <k>           - Read a value from any active node'',
      ''    del <k>           - Delete a key across the cluster'',
      ''    keys / dump       - List all keys stored across all nodes'',
      '''',
      ''  [WAL & Replicated Log Diagnostics]'',
      ''    logs              - Print full replicated log timeline across the cluster'',
      ''    wals              - Compare physical on-disk WAL records across all nodes'',
      ''    wal <node>        - Inspect raw on-disk WAL ledger records for a specific node (e.g. '' @ quoted ''wal node1'' @ '')'',
      '''',
      ''  [Benchmark & Tools]'',
      ''    bench [n] [c]     - Run concurrent write benchmark with n entries and c workers (e.g. '' @
        quoted ''bench 100 10'' @ '')'',
      ''    watch / top       - Enter live 1-second auto-refreshing dashboard'',
      ''    clear / cls       - Refresh dashboard screen'',
      ''    exit / q          - Quit'']"

text \<open>
  What an action does that is followed by a wait for Enter. \<open>infos\<close> is what the dashboard was drawn
  from; the actions that end the turn otherwise are in \<open>repl_loop\<close>.
\<close>

fun repl_act :: "session \<Rightarrow> string list \<Rightarrow> NodeInfo list \<Rightarrow> repl_action \<Rightarrow> host \<Rightarrow> host \<times> string" where
  "repl_act s addrs infos (ReplRun cmd) h = (case run_command s 1 addrs cmd h of (h', out, e) \<Rightarrow> (h', out))"
| "repl_act s addrs infos (ReplUsage u) h = (h, colorRed @ ''[ERR] Usage: '' @ u @ colorReset @ newline)"
| "repl_act s addrs infos (ReplSet key val) h =
     (h, print_set (ce_lat (s_env s) 0) key val (executeRouted (ce_tcp (s_env s) 1) addrs (set_line key val)))"
| "repl_act s addrs infos (ReplGet key) h =
     (h, print_get (ce_lat (s_env s) 0) key (repl_get (ce_tcp (s_env s) 1) 0 infos (''GET '' @ key)))"
| "repl_act s addrs infos (ReplDel key) h =
     (h, print_del (ce_lat (s_env s) 0) key (executeRouted (ce_tcp (s_env s) 1) addrs (del_line key)))"
| "repl_act s addrs infos ReplHelp h = (h, concat (map (\<lambda>l. l @ newline) help_lines))"
| "repl_act s addrs infos (ReplUnknown cmd) h =
     (h, colorRed @ ''Unknown command '' @ quoted cmd @ ''. Type '' @ quoted ''help'' @ '' for options.'' @ colorReset @ newline)"
| "repl_act s addrs infos ReplAgain h = (h, '''')"
| "repl_act s addrs infos ReplQuit h = (h, '''')"
| "repl_act s addrs infos ReplWatch h = (h, '''')"

definition repl_wait :: string where
  "repl_wait = newline @ colorDim @ ''[Press Enter to refresh dashboard]'' @ colorReset"

type_synonym ctl_outcome = "(host \<times> string \<times> ctl_exit) go"

definition printed :: "string \<Rightarrow> ctl_outcome \<Rightarrow> ctl_outcome" where
  "printed out r = (case r of Inl p \<Rightarrow> Inl p | Inr (h, rest, e) \<Rightarrow> Inr (h, out @ rest, e))"

text \<open>
  The loop of the prompt from turn \<open>t\<close>, on the lines that are left. Each turn draws the dashboard and
  reads one line; a command that has run waits for one more. The end of the input ends the loop.
\<close>

function repl_loop :: "(nat \<Rightarrow> session) \<Rightarrow> nat \<Rightarrow> string list \<Rightarrow> string list \<Rightarrow> host \<Rightarrow> ctl_outcome" where
  "repl_loop s t addrs lines h =
     (let env = s_env (s t); infos = queryCluster (ce_tcp env 0) 0 repl_addrs;
          screen = repl_screen (ce_tcp env 0) (ce_now env) (ce_lat env)
      in case lines of
           [] \<Rightarrow> Inr (h, screen, CtlExit 0)
         | line # rest \<Rightarrow>
             (case repl_line (len (displayedNodes infos)) line of
                Inl p \<Rightarrow> Inl p
              | Inr act \<Rightarrow>
                  (if act = ReplAgain then printed screen (repl_loop s (t + 1) addrs rest h)
                   else if act = ReplQuit then Inr (h, screen @ ''Goodbye!'' @ newline, CtlExit 0)
                   else if act = ReplWatch then
                     (case run_command (s t) 1 addrs CtlDashboard h of (h', out, e) \<Rightarrow> Inr (h', screen @ out, e))
                   else
                     (case repl_act (s t) addrs infos act h of
                        (h', out) \<Rightarrow> printed (screen @ out @ repl_wait) (repl_loop s (t + 1) addrs (drop 1 rest) h')))))"
  by pat_completeness auto
termination
  by (relation "measure (\<lambda>(s, t, addrs, lines, h). length lines)") auto

declare repl_loop.simps [simp del]

definition runREPL :: "(nat \<Rightarrow> session) \<Rightarrow> string list \<Rightarrow> string \<Rightarrow> host \<Rightarrow> ctl_outcome" where
  "runREPL s addrs stdin h =
     (case ensureClusterRunning (s_env (s 0)) 0 addrs h of
        (h', out) \<Rightarrow> printed out (repl_loop s 1 addrs (scan_lines stdin) h'))"

text \<open>The tool from its arguments and its input.\<close>

definition orrisctl_main :: "(nat \<Rightarrow> session) \<Rightarrow> string list \<Rightarrow> string \<Rightarrow> host \<Rightarrow> ctl_outcome" where
  "orrisctl_main s args stdin h =
     (case orrisctl_command args of
        Inl e \<Rightarrow> Inr (h, '''', CtlExit (flag_status e))
      | Inr (addrs, cmd) \<Rightarrow>
          if cmd = CtlREPL then runREPL s addrs stdin h else Inr (run_command (s 0) 0 addrs cmd h))"

subsection \<open>Sessions end\<close>

lemma run_command_exit:
  "run_command s k addrs cmd h = (h', out, e) \<Longrightarrow> e \<in> {CtlExit 0, CtlExit 1, Refreshing}"
  by (cases cmd) (auto simp: ended_def split: option.splits prod.splits)

lemma printed_total:
  assumes "\<exists>h' rest e. r = Inr (h', rest, e) \<and> e \<in> E"
  shows "\<exists>h' rest e. printed out r = Inr (h', rest, e) \<and> e \<in> E"
  using assms by (auto simp: printed_def)

lemma repl_loop_total:
  "\<exists>h' out e. repl_loop s t addrs lines h = Inr (h', out, e) \<and> e \<in> {CtlExit 0, CtlExit 1, Refreshing}"
proof (induction s t addrs lines h rule: repl_loop.induct)
  case (1 s t addrs lines h)
  show ?case
  proof (cases lines)
    case Nil
    then show ?thesis by (simp add: repl_loop.simps Let_def)
  next
    case (Cons line rest)
    let ?infos = "queryCluster (ce_tcp (s_env (s t)) 0) 0 repl_addrs"
    obtain act where act: "repl_line (len (displayedNodes ?infos)) line = Inr act" using repl_line_total by blast
    obtain h1 out1 where a: "repl_act (s t) addrs ?infos act h = (h1, out1)" by fastforce
    obtain h2 out2 e2 where d: "run_command (s t) 1 addrs CtlDashboard h = (h2, out2, e2)"
      by (metis prod_cases3)
    show ?thesis
      using 1 [OF refl refl refl Cons act] a d run_command_exit [OF d]
      by (subst repl_loop.simps)
        (auto simp: Let_def Cons act printed_def simp del: run_command.simps)
  qed
qed

text \<open>Whatever the arguments, the input and the surroundings, the tool does not panic.\<close>

lemma orrisctl_main_total:
  "\<exists>h' out e. orrisctl_main s args stdin h = Inr (h', out, e) \<and> e \<in> {CtlExit 0, CtlExit 1, CtlExit 2, Refreshing}"
proof (cases "orrisctl_command args")
  case (Inl e)
  then show ?thesis by (cases e) (simp_all add: orrisctl_main_def flag_status_def)
next
  case (Inr r)
  obtain addrs cmd where r: "r = (addrs, cmd)" by fastforce
  obtain h1 out1 where w: "ensureClusterRunning (s_env (s 0)) 0 addrs h = (h1, out1)" by fastforce
  obtain h2 out2 e2 where c: "run_command (s 0) 0 addrs cmd h = (h2, out2, e2)" by (metis prod_cases3)
  show ?thesis
    using printed_total [OF repl_loop_total [of s 1 addrs "scan_lines stdin" h1], of out1] run_command_exit [OF c]
    by (auto simp: orrisctl_main_def Inr r runREPL_def w c)
qed

subsection \<open>Starting and stopping from the command line\<close>

definition default_addrs :: "string list" where
  "default_addrs = Split ''127.0.0.1:9001,127.0.0.1:9002,127.0.0.1:9003'' '',''"

text \<open>Arguments that do not begin with a flag.\<close>

lemma orrisctl_command_plain:
  assumes "w \<noteq> []" and "hd w \<noteq> CHR ''-''"
  shows "orrisctl_command (w # args) =
    Inr (default_addrs, main_command '''' ''127.0.0.1:9001,127.0.0.1:9002,127.0.0.1:9003'' False (w # args))"
  using assms by (simp add: orrisctl_command_def flag_parse.simps(2) default_addrs_def go_get_def Let_def)

lemma main_start:
  assumes "1 \<le> n" and "wire_int n"
  shows "orrisctl_main s [''start'', Itoa n] stdin h = Inr (ended (run_start (s_env (s 0)) 0 n h))"
proof -
  have up: "ToUpper ''start'' = ''START''" by code_simp
  have "Atoi (Itoa n) = (n, True)" using assms(2) by (simp add: Atoi_Itoa wire_int_def)
  then have "main_command a b c [''start'', Itoa n] = CtlStart n" for a b c
    using assms(1) by (simp add: main_command_def up number_arg_def Let_def del: ToUpper.simps)
  then show ?thesis by (simp add: orrisctl_main_def orrisctl_command_plain)
qed

lemma main_stop: "orrisctl_main s [''stop''] stdin h = Inr (ended (run_stop (s_env (s 0)) h))"
proof -
  have up: "ToUpper ''stop'' = ''STOP''" by code_simp
  have "main_command a b c [''stop''] = CtlStop" for a b c
    by (simp add: main_command_def up Let_def del: ToUpper.simps)
  then show ?thesis by (simp add: orrisctl_main_def orrisctl_command_plain)
qed

text \<open>
  C36: \<^verbatim>\<open>orrisctl start n\<close> and then \<^verbatim>\<open>orrisctl stop\<close>. When the start created its nodes as different processes,
  the stop prints exactly the first twenty of them as stopped, and that all of these were stopped; it
  kills them and leaves none of their pid files, while the processes of all further nodes keep
  running.
\<close>

theorem ctl_start_stop:
  assumes "1 \<le> n" and "wire_int n"
    and "\<forall>i \<in> {1..n}. ctl_exe (s_env (s 0)) i \<noteq> [] \<and>
      ce_start (s_env (s 0)) (ctl_exe (s_env (s 0)) i # node_args i n) = Inr (pid i) \<and>
      wire_int (pid i) \<and> ce_found (s_env (s' 0)) (pid i)"
    and "inj_on pid {1..n}"
    and "orrisctl_main s [''start'', Itoa n] stdin h = Inr (h1, out1, e1)"
    and "orrisctl_main s' [''stop''] stdin' h1 = Inr (h2, out2, e2)"
  shows "e1 = CtlExit 0 \<and> e2 = CtlExit 0 \<and> out2 = print_stop (map (\<lambda>i. (i, pid i)) [1..min n 20]) \<and>
    (\<forall>i \<in> {1..n}. pid i \<in> set (procs h2) \<longleftrightarrow> 20 < i) \<and>
    (\<forall>i \<in> {1..20}. map_of (pid_files h2) (pid_file (node_id i)) = None)"
proof -
  let ?env = "s_env (s 0)"
  have h1: "h1 = fst (clusterStart (ce_found ?env) (ctl_exe ?env) (ctl_start ?env)
      (queryCluster (ce_tcp ?env 0) 0 (clusterStart_addrs n)) n h)" and "e1 = CtlExit 0"
    using assms(5) by (simp_all add: main_start [OF assms(1,2)] ended_def run_start_def split: prod.splits)
  moreover obtain out where out: "clusterStop (ce_found (s_env (s' 0))) h1 = (h2, out)" and "out2 = print_stop out" "e2 = CtlExit 0"
    using assms(6) by (auto simp: main_stop ended_def run_stop_def split: prod.splits)
  moreover have "\<forall>i \<in> {1..n}. ctl_exe ?env i \<noteq> [] \<and> ctl_start ?env (ctl_exe ?env i # node_args i n) = Some (pid i) \<and>
      wire_int (pid i) \<and> ce_found (s_env (s' 0)) (pid i)"
    using assms(3) by (simp add: ctl_start_def)
  ultimately show ?thesis using start_stop [OF assms(1) _ assms(4) out [unfolded h1]] by simp
qed

text \<open>A machine on which the network is down and starting a node gives a process numbered by its port.\<close>

definition sample_session :: session where
  "sample_session =
     \<lparr>s_env =
        \<lparr>ce_found = (\<lambda>_. True), ce_goos = ''linux'', ce_missing = (\<lambda>_. False), ce_build = (\<lambda>_. None),
         ce_start = (\<lambda>args. if args = ''bin/orrisd'' # node_args 1 2 then Inr 4001
           else if args = ''bin/orrisd'' # node_args 2 2 then Inr 4002 else Inl ''exec error''),
         ce_tcp = (\<lambda>_ _ _ _. None), ce_lat = (\<lambda>_. ''0s''), ce_now = ''12:00:00'', ce_dec = (\<lambda>_. None),
         ce_files = sample_env (\<lambda>_. []), ce_stat = (\<lambda>_. None), ce_err = (\<lambda>_. ''error''), ce_dial = ''connection refused''\<rparr>,
      s_bench = bench_start, s_elapsed = ''1s'', s_rate = ''0.0''\<rparr>"

theorem ctl_start_stop_witness:
  "\<exists>h1 out1 h2.
     orrisctl_main (\<lambda>_. sample_session) [''start'', Itoa 2] '''' \<lparr>pid_files = [], procs = [7]\<rparr> = Inr (h1, out1, CtlExit 0) \<and>
     orrisctl_main (\<lambda>_. sample_session) [''stop''] '''' h1 = Inr (h2, print_stop [(1, 4001), (2, 4002)], CtlExit 0) \<and>
     4001 \<notin> set (procs h2) \<and> 4002 \<notin> set (procs h2)"
proof -
  let ?s = "\<lambda>_ :: nat. sample_session" and ?h = "\<lparr>pid_files = [], procs = [7]\<rparr>"
  obtain h1 out1 e1 where 1: "orrisctl_main ?s [''start'', Itoa 2] '''' ?h = Inr (h1, out1, e1)"
    using orrisctl_main_total by blast
  obtain h2 out2 e2 where 2: "orrisctl_main ?s [''stop''] '''' h1 = Inr (h2, out2, e2)"
    using orrisctl_main_total by blast
  have two: "i = 1 \<or> i = 2" if "i \<in> {1..2}" for i :: int using that by auto
  have neq: "node_args 2 2 \<noteq> node_args 1 2" by (simp add: node_args_def)
  have started: "\<forall>i \<in> {1..2}. ctl_exe (s_env (?s 0)) i \<noteq> [] \<and>
      ce_start (s_env (?s 0)) (ctl_exe (s_env (?s 0)) i # node_args i 2) = Inr (4000 + i) \<and>
      wire_int (4000 + i) \<and> ce_found (s_env (?s 0)) (4000 + i)"
    using neq by (auto dest!: two simp: sample_session_def ctl_exe_def getOrrisdExe_def exePath_def wire_int_def max_int_def)
  have "e1 = CtlExit 0 \<and> e2 = CtlExit 0 \<and> out2 = print_stop (map (\<lambda>i. (i, 4000 + i)) [1..min 2 20]) \<and>
      (\<forall>i \<in> {1..2}. 4000 + i \<in> set (procs h2) \<longleftrightarrow> 20 < i) \<and>
      (\<forall>i \<in> {1..20}. map_of (pid_files h2) (pid_file (node_id i)) = None)"
    by (rule ctl_start_stop [OF _ _ started _ 1 2]) (simp_all add: wire_int_def max_int_def inj_on_def)
  moreover have "[1..2] = [1, 2 :: int]" by (simp add: upto.simps)
  ultimately have "e1 = CtlExit 0" "e2 = CtlExit 0" "out2 = print_stop [(1, 4001), (2, 4002)]"
      "4001 \<notin> set (procs h2)" "4002 \<notin> set (procs h2)"
    by (auto dest: bspec [where x = 1] bspec [where x = 2])
  then show ?thesis using 1 2 by blast
qed

subsection \<open>Larger clusters at the prompt\<close>

lemma refused_by_all:
  assumes "\<forall>n \<in> set infos. \<forall>j. attempt tcp j (ni_Addr n) cmd = None"
  shows "try_nodes tcp k infos cmd = (''ERR NO_LEADER_FOUND'', ''none'')"
  using assms by (induction infos arbitrary: k) simp_all

text \<open>
  The prompt works with the addresses of the command line, three by default, also after \<^verbatim>\<open>start 5\<close>: when the
  leader is none of them, a write fails and \<^verbatim>\<open>kill leader\<close> kills nothing.
\<close>

lemma prompt_misses_leader:
  assumes "\<forall>n \<in> set (queryCluster (ce_tcp (s_env s) 1) 0 addrs). ni_Role n \<noteq> ''LEADER''"
    and "\<forall>a \<in> set addrs. \<forall>k. attempt (ce_tcp (s_env s) 1) k a (set_line key val) = None"
  shows "repl_act s addrs infos (ReplSet key val) h =
      (h, colorRed @ ''[FAILED]'' @ colorReset @ '' ERR NO_LEADER_FOUND'' @ newline)"
    and "repl_act s addrs infos (ReplRun CtlKillLeader) h = (h, print_kill NoLeader)"
proof -
  let ?tcp = "ce_tcp (s_env s) 1" and ?infos = "queryCluster (ce_tcp (s_env s) 1) 0 addrs"
  have none: "find (\<lambda>n. ni_Online n \<and> ni_Role n = ''LEADER'') ?infos = None"
    using assms(1) by (auto simp: find_None_iff)
  have "ni_Addr ` set ?infos = set addrs"
    using queryCluster_addrs [of ?tcp 0 addrs] by (metis set_map)
  then have "executeRouted ?tcp addrs (set_line key val) = (''ERR NO_LEADER_FOUND'', ''none'')"
    using assms(2) none unfolding executeRouted_def Let_def by (auto intro!: refused_by_all)
  then show "repl_act s addrs infos (ReplSet key val) h =
      (h, colorRed @ ''[FAILED]'' @ colorReset @ '' ERR NO_LEADER_FOUND'' @ newline)"
    by (simp add: print_set_def HasPrefix_def)
  have "clusterKillLeader found ns h = (h, NoLeader)" if "\<forall>n \<in> set ns. ni_Role n \<noteq> ''LEADER''" for found ns
    using that by (induction ns) simp_all
  then show "repl_act s addrs infos (ReplRun CtlKillLeader) h = (h, print_kill NoLeader)"
    using assms(1) by (simp add: run_kill_leader_def ended_def)
qed

text \<open>
  \<^verbatim>\<open>spawn\<close> at the prompt takes the number of displayed nodes for the size of the cluster: when node \<open>m\<close> of \<open>n\<close>
  is down, with \<open>3 < m < n\<close>, it is restarted without node \<open>n\<close> among its peers.
\<close>

lemma prompt_spawn_short:
  assumes "map ni_Online infos = map (\<lambda>i. i \<le> n \<and> i \<noteq> m) [1..10]" and "3 < m" and "m < n" and "n \<le> 10"
    and "w \<in> {''spawn'', ''start-node'', ''restart-node'', ''restart''}" and "spawn_number parts = m"
  shows "repl_command (len (displayedNodes infos)) parts w = ReplRun (CtlSpawn m (n - 1))"
    and "node_id n \<notin> fst ` set (parse_peers (node_args m (n - 1) ! 7))"
proof -
  have l: "length infos = 10" using arg_cong [OF assms(1), of length] by simp
  have on: "ni_Online (infos ! j) \<longleftrightarrow> int j + 1 \<le> n \<and> int j + 1 \<noteq> m" if "j < 10" for j
  proof -
    have "ni_Online (infos ! j) = map ni_Online infos ! j" using that l by simp
    also have "\<dots> = (\<lambda>i. i \<le> n \<and> i \<noteq> m) ([1..10] ! j)" unfolding assms(1) using that by (intro nth_map) simp
    also have "[1..10] ! j = int j + 1" using that by (subst nth_upto) simp_all
    finally show ?thesis .
  qed
  have "len (displayedNodes infos) = int (card {j. j < 10 \<and> (ni_Online (infos ! j) \<or> j < 3)})"
    by (simp add: displayedNodes_def length_filter_conv_card l case_prod_unfold nth_enumerate_eq cong: conj_cong)
  also have "{j. j < 10 \<and> (ni_Online (infos ! j) \<or> j < 3)} = {..<nat n} - {nat m - 1}"
    using on assms(2-4) by auto
  also have "int (card ({..<nat n} - {nat m - 1})) = n - 1" using assms(2,3) by auto
  finally have shown: "len (displayedNodes infos) = n - 1" .
  have "repl_command d parts w = ReplRun (CtlSpawn m d)" for d
    using assms(5) by (elim insertE emptyE) (simp_all add: repl_command_def assms(6))
  then show "repl_command (len (displayedNodes infos)) parts w = ReplRun (CtlSpawn m (n - 1))"
    by (simp only: shown)
  show "node_id n \<notin> fst ` set (parse_peers (node_args m (n - 1) ! 7))"
    using assms(2-4) by (auto simp: node_args_def parse_peers_arg peers_of_cluster)
qed

end
