(* ===== verification/Reads.thy ===== *)
theory Reads
  imports Safety Scenario Client_Server
begin

text \<open>
  What a client reads: the text protocol on top of the cluster. A write that was answered with OK is
  what \<^verbatim>\<open>GET\<close> returns at every member that has applied it, until a later write of the same key; a member
  that has not applied it yet, even one that takes itself for the leader, returns an older value.
\<close>

subsection \<open>The last write of a key\<close>

lemma fold_entry_spec_other: "\<forall>e \<in> set es. Key e \<noteq> k \<Longrightarrow> fold entry_spec es m k = m k"
  by (induction es arbitrary: m) (auto simp: entry_spec_def)

text \<open>What an entry leaves at its own key.\<close>

definition left_at_key :: "LogEntry \<Rightarrow> string option" where
  "left_at_key e = (if Operation e = OpSet then Some (Value e) else None)"

lemma last_write_of_key:
  assumes "i < m" and "m \<le> length es" and "Operation (es ! i) \<in> {OpSet, OpDelete}"
    and "\<And>j. i < j \<Longrightarrow> j < m \<Longrightarrow> Key (es ! j) \<noteq> Key (es ! i)"
  shows "fold entry_spec (take m es) s (Key (es ! i)) = left_at_key (es ! i)"
proof -
  define later where "later = drop (Suc i) (take m es)"
  have "take m es = take i es @ es ! i # later"
    using id_take_nth_drop [of i "take m es"] assms(1,2) by (simp add: min_def later_def)
  moreover have "\<forall>e \<in> set later. Key e \<noteq> Key (es ! i)"
    using assms(2,4) by (auto simp: in_set_conv_nth later_def)
  ultimately have "fold entry_spec (take m es) s (Key (es ! i)) = entry_spec (es ! i) (fold entry_spec (take i es) s) (Key (es ! i))"
    by (simp add: fold_entry_spec_other)
  then show ?thesis using assms(3) by (auto simp: entry_spec_def left_at_key_def)
qed

lemma get_line_reply:
  assumes "k \<noteq> []" and "list_all visible k"
  shows "handleClient_line order ch reads (''GET '' @ k) = Reply (get_reply k (reads 0))"
proof -
  have c: "list_all visible ''GET''" "ToUpper ''GET'' = ''GET''" by code_simp+
  have "TrimSpace (''GET'' @ '' '' @ k) = ''GET'' @ '' '' @ k" "SplitN (''GET'' @ '' '' @ k) '' '' 3 = [''GET'', k]"
    using line_two [OF _ c(1) assms(2,1)] by simp_all
  then show ?thesis using c by (simp add: handleClient_line_def Let_def del: ToUpper.simps)
qed

subsection \<open>Properties\<close>

text \<open>
  C6: acknowledged writes are read. When a \<^verbatim>\<open>SET\<close> or \<^verbatim>\<open>DELETE\<close> of a key was answered with OK at index \<open>idx\<close>, then
  at every member that has applied that far, with no later write of the key among the entries it
  applied, \<^verbatim>\<open>GET\<close> of the key returns the value that was set, or that there is none.
\<close>

theorem acknowledged_write_read:
  assumes "good_config cfg" and "reachable cfg c" and "(req, Inr (idx, t)) \<in> set (answers c)"
    and "req_Op req \<in> {OpSet, OpDelete}" and "req_Key req \<noteq> []" and "list_all visible (req_Key req)"
    and "j \<in> set (members cfg)" and "idx \<le> LastApplied (nodes c j)"
    and "\<And>k. idx < k \<Longrightarrow> k \<le> LastApplied (nodes c j) \<Longrightarrow> Key (Log (nodes c j) ! nat k) \<noteq> req_Key req"
  shows "handleClient_line order ch (\<lambda>_. nodes c j) (''GET '' @ req_Key req) =
    Reply (if req_Op req = OpSet then ''VALUE '' @ req_Value req @ newline else ''ERR NOT_FOUND'' @ newline)"
proof -
  let ?n = "nodes c j" and ?e = "req_entry req idx t"
  obtain a where a: "cluster_rel cfg c a" by (rule reachable_related [OF assms(1,2)])
  have ap: "KVStore ?n = run_log (Log ?n) (LastApplied ?n)" "LastApplied ?n \<le> CommitIndex ?n" "LastApplied ?n < len (Log ?n)"
    using cluster_relD(3) [OF a assms(7)] by (simp_all add: node_ok_def applied_ok_def)
  have "0 \<le> idx" using cluster_relD(9) [OF a assms(3)] by (simp add: answer_ok_def)
  moreover have e: "nat idx < length (Log ?n)" "Log ?n ! nat idx = ?e"
    using answer_in_log [OF assms(1-3,7)] assms(8) ap(2) by auto
  moreover have "Key (Log ?n ! k) \<noteq> req_Key req" if "nat idx < k" "k < nat (LastApplied ?n + 1)" for k
    using assms(9) [of "int k"] that by (simp add: nat_less_iff zless_nat_eq_int_zless)
  ultimately have "fold entry_spec (take (nat (LastApplied ?n + 1)) (Log ?n)) Map.empty (Key (Log ?n ! nat idx)) = left_at_key ?e"
    using assms(4,8) ap(3) last_write_of_key [of "nat idx" "nat (LastApplied ?n + 1)" "Log ?n" Map.empty]
    by (simp add: req_entry_def)
  then have "store_abs (KVStore ?n) (req_Key req) = left_at_key ?e"
    unfolding ap(1) run_log_spec e(2) by (simp add: req_entry_def)
  then show ?thesis
    using get_line_reply [OF assms(5,6)]
    by (simp add: get_reply_def GetState_def Store_Get_abs left_at_key_def req_entry_def)
qed

theorem acknowledged_write_read_witness:
  "handleClient_line id 0 (\<lambda>_. nodes run12 ''n2'') ''GET a'' = Reply (''VALUE 1'' @ newline)"
  using acknowledged_write_read [OF good_cfg3 run12_reachable run12_state(4), of "''n2''" id 0]
  by (simp add: members_cfg3 run12_nodes set_req_def visible_def)

text \<open>
  A leader that was replaced: \<open>n1\<close> is elected, commits \<open>a = 1\<close> with \<open>n2\<close>, answers and applies it. Then \<open>n2\<close> is
  elected by \<open>n3\<close>, commits \<open>a = 2\<close> with it and answers; \<open>n1\<close> hears nothing of it.
\<close>

definition replaced :: "act list" where
  "replaced =
     [Timeout ''n1'', Serve 0, Serve 2, Count ''n1'' 1 ''n2'', Propose_at ''n1'' set_req, Take_up ''n1'', Heartbeat ''n1'',
      Replicate 0, Serve 3, Serve 4, Poll ''n1'' False, Apply ''n1'',
      Timeout ''n2'', Serve 6, Serve 7, Count ''n2'' 2 ''n3'', Propose_at ''n2'' other_req, Take_up ''n2'', Heartbeat ''n2'',
      Replicate 3, Serve 8, Serve 9, Heartbeat ''n2'', Replicate 5, Serve 10, Serve 11, Poll ''n2'' False]"

definition after_replaced :: cluster where
  "after_replaced = the (exec cfg3 replaced (start_cluster cfg3))"

lemma after_replaced_runs: "exec cfg3 replaced (start_cluster cfg3) \<noteq> None"
  by code_simp

lemma after_replaced_reachable: "reachable cfg3 after_replaced"
  using after_replaced_runs by (intro exec_reachable [of cfg3 replaced]) (auto simp: after_replaced_def)

lemma after_replaced_facts:
  "answers after_replaced = [(set_req, Inr (0, 1)), (other_req, Inr (1, 2))]" "State (nodes after_replaced ''n1'') = Leader"
  "get_reply ''a'' (nodes after_replaced ''n1'') = ''VALUE 1'' @ newline"
  by code_simp+

text \<open>
  C28: reads are not linearizable. There is a reachable cluster in which a client was answered OK for
  \<open>a = 1\<close> and then another one for \<open>a = 2\<close>, while \<open>n1\<close>, which still is in the role of the leader, answers \<^verbatim>\<open>GET a\<close> with \<open>1\<close>.
\<close>

theorem stale_read:
  "\<exists>c. reachable cfg3 c \<and> answers c = [(set_req, Inr (0, 1)), (other_req, Inr (1, 2))] \<and>
     State (nodes c ''n1'') = Leader \<and>
     handleClient_line order ch (\<lambda>_. nodes c ''n1'') ''GET a'' = Reply (''VALUE 1'' @ newline)"
proof -
  have "handleClient_line order ch (\<lambda>_. nodes after_replaced ''n1'') (''GET '' @ ''a'') = Reply (''VALUE 1'' @ newline)"
    unfolding after_replaced_facts(3) [symmetric] by (rule get_line_reply) (simp_all add: visible_def)
  then show ?thesis
    using after_replaced_reachable after_replaced_facts(1,2) by (intro exI [of _ after_replaced]) simp
qed

end
