(* ===== verification/Shutdown.thy ===== *)
theory Shutdown
  imports Safety Scenario
begin

text \<open>
  Graceful shutdown in a cluster. \<^verbatim>\<open>Stop\<close> closes the write-ahead log; the process ends soon after, but calls
  it accepted before are served until then. The steps of \<open>Cluster\<close> have no such moment: there a process
  ends at once. Here \<open>gstep\<close> adds it, as a step of its own.
\<close>

definition do_stop :: "string \<Rightarrow> cluster \<Rightarrow> cluster" where
  "do_stop i c = upd i (Stop (nodes c i)) c"

inductive gstep :: "config \<Rightarrow> cluster \<Rightarrow> cluster \<Rightarrow> bool" for cfg where
  g_step: "cstep cfg c c' \<Longrightarrow> gstep cfg c c'"
| g_stop: "i \<in> set (members cfg) \<Longrightarrow> gstep cfg c (do_stop i c)"

lemma gstep_run: "(cstep cfg)\<^sup>*\<^sup>* c c' \<Longrightarrow> (gstep cfg)\<^sup>*\<^sup>* c c'"
  by (induction rule: rtranclp_induct) (auto intro: rtranclp.rtrancl_into_rtrancl g_step)

text \<open>
  A shutdown during which no call is served is a crash: the new process finds the same journal. So all
  that holds of the steps of \<open>Cluster\<close> holds of clusters whose members shut down quietly.
\<close>

lemma restart_Stop: "restart (Stop n) = restart n"
  by (simp add: restart_def Stop_def wal_close_def)

lemma quiet_stop_is_crash: "do_crash i (do_stop i c) = do_crash i c"
  by (simp add: do_crash_def do_stop_def upd_def restart_Stop cong: if_cong)

subsection \<open>A vote that is forgotten\<close>

text \<open>
  \<open>n1\<close> and \<open>n3\<close> campaign in term 1. \<open>n2\<close> is shutting down when it votes for \<open>n1\<close>, starts again and votes for \<open>n3\<close>.
  Each of the two leaders then commits an entry of its own with \<open>n2\<close> and answers its client.
\<close>

definition campaigns :: "act list" where
  "campaigns = [Timeout ''n1'', Timeout ''n3'']"

definition double_vote :: "act list" where
  "double_vote =
     [Serve 0, Serve 4, Count ''n1'' 1 ''n2'', Crash ''n2'', Serve 3, Serve 5, Count ''n3'' 1 ''n2'',
      Propose_at ''n1'' set_req, Take_up ''n1'', Heartbeat ''n1'', Replicate 0, Serve 6, Serve 7, Poll ''n1'' False,
      Propose_at ''n3'' other_req, Take_up ''n3'', Heartbeat ''n3'', Replicate 3, Serve 8, Serve 9, Poll ''n3'' False]"

definition stopped_n2 :: cluster where
  "stopped_n2 = do_stop ''n2'' (the (exec cfg3 campaigns (start_cluster cfg3)))"

definition two_leaders :: cluster where
  "two_leaders = the (exec cfg3 double_vote stopped_n2)"

lemma two_leaders_runs: "exec cfg3 campaigns (start_cluster cfg3) \<noteq> None" "exec cfg3 double_vote stopped_n2 \<noteq> None"
  by code_simp+

lemma two_leaders_reachable: "(gstep cfg3)\<^sup>*\<^sup>* (start_cluster cfg3) two_leaders"
proof -
  let ?c = "the (exec cfg3 campaigns (start_cluster cfg3))"
  have "(gstep cfg3)\<^sup>*\<^sup>* (start_cluster cfg3) ?c"
    using two_leaders_runs(1) by (intro gstep_run exec_steps [of _ campaigns]) auto
  moreover have "gstep cfg3 ?c stopped_n2"
    unfolding stopped_n2_def by (rule g_stop) (simp add: members_cfg3)
  moreover have "(gstep cfg3)\<^sup>*\<^sup>* stopped_n2 two_leaders"
    using two_leaders_runs(2) by (intro gstep_run exec_steps [of _ double_vote]) (auto simp: two_leaders_def)
  ultimately show ?thesis by (meson rtranclp.rtrancl_into_rtrancl rtranclp_trans)
qed

text \<open>
  C27: a shutdown can break the consensus. With shutdowns as steps of their own there is a run to a
  cluster with two leaders of the same term that have committed different entries at the same index
  and have both answered OK to their clients.
\<close>

theorem shutdown_splits_cluster:
  "\<exists>c. (gstep cfg3)\<^sup>*\<^sup>* (start_cluster cfg3) c \<and>
     State (nodes c ''n1'') = Leader \<and> State (nodes c ''n3'') = Leader \<and>
     CurrentTerm (nodes c ''n1'') = CurrentTerm (nodes c ''n3'') \<and>
     CommitIndex (nodes c ''n1'') = 0 \<and> CommitIndex (nodes c ''n3'') = 0 \<and>
     Log (nodes c ''n1'') ! 0 \<noteq> Log (nodes c ''n3'') ! 0 \<and>
     answers c = [(set_req, Inr (0, 1)), (other_req, Inr (0, 1))]"
proof -
  have "State (nodes two_leaders ''n1'') = Leader" "State (nodes two_leaders ''n3'') = Leader"
      "CurrentTerm (nodes two_leaders ''n1'') = CurrentTerm (nodes two_leaders ''n3'')"
      "CommitIndex (nodes two_leaders ''n1'') = 0" "CommitIndex (nodes two_leaders ''n3'') = 0"
      "Log (nodes two_leaders ''n1'') ! 0 \<noteq> Log (nodes two_leaders ''n3'') ! 0"
      "answers two_leaders = [(set_req, Inr (0, 1)), (other_req, Inr (0, 1))]"
    by code_simp+
  then show ?thesis using two_leaders_reachable by blast
qed

end
