(* ===== verification/Availability.thy ===== *)
theory Availability
  imports Progress
begin

text \<open>
  A cluster of at least two members is never stuck: from every reachable cluster some continuation
  answers a new client request. The continuation restarts the member with the most recent log, lets it
  campaign in a new term, delivers the votes, submits the request and replicates it. Each lemma is one
  part of this run; the rounds of replication are those of \<open>Progress\<close>.
\<close>

subsection \<open>A member with the most recent log\<close>

definition log_le :: "LogEntry list \<Rightarrow> LogEntry list \<Rightarrow> bool" where
  "log_le L M \<longleftrightarrow> lastLogTerm L < lastLogTerm M \<or> lastLogTerm L = lastLogTerm M \<and> lastLogIndex L \<le> lastLogIndex M"

lemma most_recent:
  assumes "xs \<noteq> []"
  shows "\<exists>i \<in> set xs. \<forall>j \<in> set xs. log_le (L j) (L i)"
  using assms
proof (induction xs rule: list_nonempty_induct)
  case (cons x xs)
  then obtain i where i: "i \<in> set xs" "\<forall>j \<in> set xs. log_le (L j) (L i)" by blast
  show ?case
  proof (cases "log_le (L x) (L i)")
    case True
    then show ?thesis using i by auto
  next
    case False
    then have "log_le (L j) (L x)" if "j \<in> set (x # xs)" for j
      using that i(2) by (fastforce simp: log_le_def)
    then show ?thesis by auto
  qed
qed (simp add: log_le_def)

subsection \<open>What the run leaves alone\<close>

definition undisturbed :: "string \<Rightarrow> cluster \<Rightarrow> cluster \<Rightarrow> bool" where
  "undisturbed i c c' \<longleftrightarrow> (\<forall>j. Log (nodes c' j) = Log (nodes c j)) \<and> clientCh (nodes c' i) = clientCh (nodes c i) \<and>
     handling c' = handling c \<and> answers c' = answers c"

lemma undisturbed_refl [simp]: "undisturbed i c c"
  by (simp add: undisturbed_def)

lemma undisturbed_trans: "undisturbed i c c' \<Longrightarrow> undisturbed i c' c'' \<Longrightarrow> undisturbed i c c''"
  by (simp add: undisturbed_def)

lemma reachable_run: "reachable cfg c \<Longrightarrow> (cstep cfg)\<^sup>*\<^sup>* c c' \<Longrightarrow> reachable cfg c'"
  by (simp add: reachable_def)

lemma reachable_node:
  assumes "good_config cfg" and "reachable cfg c" and "i \<in> set (members cfg)"
  shows "ID (nodes c i) = i" and "Peers (nodes c i) = peers_of cfg i" and "0 \<le> CurrentTerm (nodes c i)"
    and "durable (nodes c i)"
proof -
  obtain a where a: "cluster_rel cfg c a" by (rule reachable_related [OF assms(1,2)])
  show "ID (nodes c i) = i" "Peers (nodes c i) = peers_of cfg i" "durable (nodes c i)"
    using cluster_relD(3) [OF a assms(3)] by (simp_all add: node_ok_def)
  show "0 \<le> CurrentTerm (nodes c i)"
    using core_nodesD(1) [OF raft_inv_core [OF cluster_relD(1) [OF a]] assms(3)] cluster_relD(2) [OF a assms(3)] by simp
qed

subsection \<open>Restart and campaign\<close>

lemma crash_idle:
  assumes "good_config cfg" and "reachable cfg c" and "i \<in> set (members cfg)"
  shows "State (nodes (do_crash i c) i) = Follower" and "clientCh (nodes (do_crash i c) i) = []"
    and "handling (do_crash i c) i = None" and "answers (do_crash i c) = answers c"
    and "CurrentTerm (nodes (do_crash i c) j) = CurrentTerm (nodes c j)" and "Log (nodes (do_crash i c) j) = Log (nodes c j)"
  using reachable_node(4) [OF assms]
  by (simp_all add: do_crash_def upd_def restart_eq initial_node_def durable_def)

text \<open>
  The candidate \<open>i\<close> in term \<open>T\<close> still waits for the peers \<open>ps\<close>, whose requests are in the network, has the
  votes of all others and needs more.
\<close>

definition campaign :: "config \<Rightarrow> string \<Rightarrow> int \<Rightarrow> string list \<Rightarrow> cluster \<Rightarrow> bool" where
  "campaign cfg i T ps c \<longleftrightarrow> State (nodes c i) = Candidate \<and> CurrentTerm (nodes c i) = T \<and>
     (\<exists>el. elections c (i, T) = Some \<lparr>run_el = el, run_waiting = ps, run_counting = []\<rparr> \<and>
        el_term el = T \<and> el_lastLogIndex el = lastLogIndex (Log (nodes c i)) \<and> el_lastLogTerm el = lastLogTerm (Log (nodes c i)) \<and>
        el_peersCount el = len (members cfg) \<and> el_votes el + len ps = len (members cfg) \<and>
        el_votes el \<le> len (members cfg) div 2 \<and> (\<forall>p \<in> set ps. RVReqM p (vote_request i el) \<in> set (net c)))"

lemma timeout_campaign:
  assumes "good_config cfg" and "2 \<le> length (members cfg)" and "reachable cfg c" and "i \<in> set (members cfg)"
    and "State (nodes c i) \<noteq> Leader" and "CurrentTerm (nodes c i) < max_int"
  shows "campaign cfg i (CurrentTerm (nodes c i) + 1) (map fst (peers_of cfg i)) (do_timeout i c) \<and>
    undisturbed i c (do_timeout i c) \<and> (\<forall>j. j \<noteq> i \<longrightarrow> nodes (do_timeout i c) j = nodes c j)"
proof -
  note n = reachable_node [OF assms(1,3,4)]
  have t: "int64 (CurrentTerm (nodes c i) + 1) = CurrentTerm (nodes c i) + 1"
    using n(3) assms(6) by (simp add: int64_succ)
  have "len (peers_of cfg i) + 1 = len (members cfg)" by (rule peers_of_members(3) [OF assms(1,4)])
  moreover have "1 \<le> len (members cfg) div 2" using assms(2) by simp
  ultimately show ?thesis
    using assms(5) n t
    by (auto simp: campaign_def undisturbed_def do_timeout_def startElection_begin_def Let_def node_simps
        set_election_def send_def upd_def)
qed

lemma campaign_in_term:
  assumes "good_config cfg" and "2 \<le> length (members cfg)" and "i \<in> set (members cfg)" and "T \<le> max_int"
    and "reachable cfg c" and "State (nodes c i) \<noteq> Leader" and "CurrentTerm (nodes c i) < T"
  shows "\<exists>c'. (cstep cfg)\<^sup>*\<^sup>* c c' \<and> campaign cfg i T (map fst (peers_of cfg i)) c' \<and> undisturbed i c c' \<and>
    (\<forall>j. j \<noteq> i \<longrightarrow> nodes c' j = nodes c j)"
  using assms(5-7)
proof (induction "nat (T - CurrentTerm (nodes c i))" arbitrary: c)
  case (Suc k)
  let ?c = "do_timeout i c"
  have lt: "CurrentTerm (nodes c i) < max_int" using Suc.prems(3) assms(4) by simp
  have step: "cstep cfg c ?c" using assms(3) lt by (rule cstep.c_timeout)
  have re: "reachable cfg ?c" by (rule reachable_step [OF Suc.prems(1) step])
  note t = timeout_campaign [OF assms(1,2) Suc.prems(1) assms(3) Suc.prems(2) lt]
  show ?case
  proof (cases "T = CurrentTerm (nodes c i) + 1")
    case True
    then show ?thesis using t step by blast
  next
    case False
    have n: "CurrentTerm (nodes ?c i) = CurrentTerm (nodes c i) + 1" "State (nodes ?c i) \<noteq> Leader"
      using t by (simp_all add: campaign_def)
    have "k = nat (T - CurrentTerm (nodes ?c i))" using Suc.hyps(2) n(1) by linarith
    from Suc.hyps(1) [OF this re n(2)] obtain c' where "(cstep cfg)\<^sup>*\<^sup>* ?c c'" "campaign cfg i T (map fst (peers_of cfg i)) c'" "undisturbed i ?c c'"
        "\<forall>j. j \<noteq> i \<longrightarrow> nodes c' j = nodes ?c j"
      using n(1) Suc.prems(3) False by auto
    then show ?thesis
      using t step undisturbed_trans [of i c ?c c'] by (auto intro!: exI [of _ c'] intro: converse_rtranclp_into_rtranclp)
  qed
qed simp

subsection \<open>Votes\<close>

text \<open>A leader that has just been elected in term \<open>T\<close>, with no member in a higher term.\<close>

definition fresh_leader :: "config \<Rightarrow> string \<Rightarrow> int \<Rightarrow> cluster \<Rightarrow> bool" where
  "fresh_leader cfg i T c \<longleftrightarrow> State (nodes c i) = Leader \<and> CurrentTerm (nodes c i) = T \<and>
     (\<forall>p \<in> set (map fst (peers_of cfg i)). go_get (NextIndex (nodes c i)) p 0 = len (Log (nodes c i)))"

lemma becomeLeader_next:
  assumes "State n \<noteq> Leader" and "p \<in> fst ` set (Peers n)"
  shows "go_get (NextIndex (becomeLeader n)) p 0 = len (Log n)"
proof -
  have keep: "go_get (fold (\<lambda>id. AList.update id v) ids m) p d = v" if "go_get m p d = v" for ids m and v d :: int
    using that by (induction ids arbitrary: m) (simp_all add: go_get_update)
  have "go_get (fold (\<lambda>id. AList.update id v) ids m) p d = v" if "p \<in> set ids" for ids m and v d :: int
    using that by (induction ids arbitrary: m) (auto simp: go_get_update keep)
  then show ?thesis using assms by (simp add: becomeLeader_def Let_def node_simps)
qed

text \<open>The handler's answer, its processing and its count are three steps; what they make of the cluster.\<close>

definition vote_run :: "string \<Rightarrow> int \<Rightarrow> election \<Rightarrow> string \<Rightarrow> string list \<Rightarrow> cluster \<Rightarrow> cluster" where
  "vote_run i T el p ps c =
     (let (n', resp) = HandleRequestVote (vote_request i el) (nodes c p); (l, el') = startElection_count el (nodes c i)
      in set_election i T (Some \<lparr>run_el = el', run_waiting = ps, run_counting = []\<rparr>)
           (send [RVRespM p (vote_request i el) resp] (upd i l (upd p n' c))))"

lemma vote_run_steps:
  assumes "i \<in> set (members cfg)" and "p \<in> set (members cfg)" and "p \<noteq> i"
    and "elections c (i, T) = Some \<lparr>run_el = el, run_waiting = p # ps, run_counting = []\<rparr>" and "el_term el = T"
    and "State (nodes c i) = Candidate" and "CurrentTerm (nodes c i) = T"
    and "RVReqM p (vote_request i el) \<in> set (net c)"
    and "HandleRequestVote (vote_request i el) (nodes c p) = (n', resp)" and "rvr_VoteGranted resp" and "rvr_Term resp = T"
  shows "(cstep cfg)\<^sup>*\<^sup>* c (vote_run i T el p ps c)"
proof -
  let ?r = "\<lparr>run_el = el, run_waiting = p # ps, run_counting = []\<rparr>" and ?r2 = "\<lparr>run_el = el, run_waiting = ps, run_counting = [p]\<rparr>"
  define c1 where "c1 = do_handle_rv p (vote_request i el) c"
  define c2 where "c2 = do_vote_reply i T ?r p resp c1"
  define c3 where "c3 = do_vote_count i T ?r2 p c2"
  have c1: "c1 = send [RVRespM p (vote_request i el) resp] (upd p n' c)" by (simp add: c1_def do_handle_rv_def assms(9))
  have "startElection_reply el resp (nodes c1 i) = (nodes c i, True)"
    using assms by (simp add: startElection_reply_def c1 send_def upd_def)
  then have c2: "c2 = set_election i T (Some ?r2) (upd i (nodes c i) c1)" by (simp add: c2_def do_vote_reply_def)
  have n: "nodes c2 = (nodes c)(p := n')" using assms(3) by (auto simp: c2 c1 set_election_def send_def upd_def)
  have c3: "c3 = vote_run i T el p ps c"
    using assms(3,9) by (auto simp: c3_def do_vote_count_def vote_run_def n c2 c1 set_election_def send_def upd_def
        fun_upd_twist split: prod.splits)
  have "cstep cfg c c1" unfolding c1_def by (rule cstep.c_handle_rv [OF assms(2,8)])
  moreover have "cstep cfg c1 c2" unfolding c2_def
    by (rule cstep.c_vote_reply [OF assms(1)]) (simp_all add: c1 send_def upd_def assms(4))
  moreover have "cstep cfg c2 c3" unfolding c3_def
    by (rule cstep.c_vote_count [OF assms(1)]) (simp_all add: c2 set_election_def)
  ultimately show ?thesis unfolding c3 by (meson rtranclp.rtrancl_into_rtrancl rtranclp.rtrancl_refl)
qed

lemma one_vote:
  assumes good: "good_config cfg" and re: "reachable cfg c" and i: "i \<in> set (members cfg)"
    and camp: "campaign cfg i T (p # ps) c" and p: "p \<in> set (members cfg)" "p \<noteq> i"
    and behind: "CurrentTerm (nodes c p) < T" "log_le (Log (nodes c p)) (Log (nodes c i))"
  shows "\<exists>c'. (cstep cfg)\<^sup>*\<^sup>* c c' \<and> undisturbed i c c' \<and> (\<forall>j. j \<notin> {i, p} \<longrightarrow> nodes c' j = nodes c j) \<and>
    CurrentTerm (nodes c' p) = T \<and> CurrentTerm (nodes c' i) = T \<and> (campaign cfg i T ps c' \<or> fresh_leader cfg i T c')"
proof -
  obtain el where st: "State (nodes c i) = Candidate" "CurrentTerm (nodes c i) = T"
    and el: "elections c (i, T) = Some \<lparr>run_el = el, run_waiting = p # ps, run_counting = []\<rparr>" "el_term el = T"
      "el_lastLogIndex el = lastLogIndex (Log (nodes c i))" "el_lastLogTerm el = lastLogTerm (Log (nodes c i))"
      "el_peersCount el = len (members cfg)" "el_votes el + len (p # ps) = len (members cfg)"
    and net: "\<forall>q \<in> set (p # ps). RVReqM q (vote_request i el) \<in> set (net c)"
    using camp unfolding campaign_def by blast
  let ?req = "vote_request i el" and ?l = "fst (startElection_count el (nodes c i))"
  let ?c = "vote_run i T el p ps c"
  obtain n' resp where h: "HandleRequestVote ?req (nodes c p) = (n', resp)" by fastforce
  note fr = HandleRequestVote_frame [OF h]
  have "log_up_to_date ?req (Log (nodes c p))"
    using behind(2) el(3,4) by (auto simp: log_up_to_date_def log_le_def vote_request_def)
  then have grant: "rvr_VoteGranted resp"
    using HandleRequestVote_iff [of ?req "nodes c p"] h behind(1) el(2) by (simp add: vote_request_def)
  have T: "CurrentTerm n' = T" "rvr_Term resp = T" using fr(4,5) behind(1) el(2) by (simp_all add: vote_request_def)
  have run: "(cstep cfg)\<^sup>*\<^sup>* c ?c"
    using net by (intro vote_run_steps [OF i p el(1,2) st _ h grant T(2)]) simp
  have nodes': "nodes ?c = (nodes c)(p := n', i := ?l)"
    by (simp add: vote_run_def h set_election_def send_def upd_def split: prod.splits)
  have same: "Log ?l = Log (nodes c i)" "clientCh ?l = clientCh (nodes c i)" "CurrentTerm ?l = T"
    using st by (simp_all add: startElection_count_def Let_def node_simps)
  then have "undisturbed i c ?c"
    using fr(2) by (auto simp: undisturbed_def nodes') (simp_all add: vote_run_def h set_election_def send_def upd_def split: prod.splits)
  moreover have "campaign cfg i T ps ?c \<or> fresh_leader cfg i T ?c"
  proof (cases "el_votes el + 1 \<le> len (members cfg) div 2")
    case True
    let ?el = "el\<lparr>el_votes := el_votes el + 1\<rparr>"
    have c: "elections ?c (i, T) = Some \<lparr>run_el = ?el, run_waiting = ps, run_counting = []\<rparr>" "set (net c) \<subseteq> set (net ?c)" "?l = nodes c i"
      using True el(5) by (auto simp: vote_run_def h set_election_def send_def upd_def startElection_count_def Let_def)
    have "vote_request i ?el = vote_request i el" by (simp add: vote_request_def)
    then show ?thesis
      using True st el net c unfolding campaign_def by (intro disjI1 conjI exI [of _ ?el]) (auto simp: nodes')
  next
    case False
    then have "?l = becomeLeader (nodes c i)" using st el(2,5) by (simp add: startElection_count_def Let_def)
    moreover have "Peers (nodes c i) = peers_of cfg i" by (rule reachable_node(2) [OF good re i])
    ultimately show ?thesis
      using st becomeLeader_next [of "nodes c i"] by (simp add: fresh_leader_def nodes' node_simps)
  qed
  ultimately show ?thesis using run T(1) same(3) p(2) by (intro exI [of _ ?c]) (simp add: nodes')
qed

text \<open>With the votes of all peers at hand, the candidate wins.\<close>

lemma election_won:
  assumes "good_config cfg" and "i \<in> set (members cfg)" and "reachable cfg c" and "campaign cfg i T ps c"
    and "distinct ps" and "set ps \<subseteq> set (members cfg) - {i}"
    and "\<forall>p \<in> set ps. CurrentTerm (nodes c p) < T \<and> log_le (Log (nodes c p)) (Log (nodes c i))"
    and "\<forall>j \<in> set (members cfg). CurrentTerm (nodes c j) \<le> T"
  shows "\<exists>c'. (cstep cfg)\<^sup>*\<^sup>* c c' \<and> undisturbed i c c' \<and> fresh_leader cfg i T c' \<and>
    (\<forall>j \<in> set (members cfg). CurrentTerm (nodes c' j) \<le> T)"
  using assms(3-8)
proof (induction ps arbitrary: c)
  case Nil
  then obtain v where "v + len ([] :: string list) = len (members cfg)" "v \<le> len (members cfg) div 2"
    unfolding campaign_def by blast
  moreover have "0 < len (members cfg)" using length_pos_if_in_set [OF assms(2)] by simp
  then have "len (members cfg) div 2 < len (members cfg)" by (intro int_div_less_self) simp_all
  ultimately show ?case by simp
next
  case (Cons p ps)
  then have p: "p \<in> set (members cfg)" "p \<noteq> i" by auto
  obtain c1 where run: "(cstep cfg)\<^sup>*\<^sup>* c c1" "undisturbed i c c1" and same: "\<forall>j. j \<notin> {i, p} \<longrightarrow> nodes c1 j = nodes c j"
    and T: "CurrentTerm (nodes c1 p) = T" "CurrentTerm (nodes c1 i) = T"
    and res: "campaign cfg i T ps c1 \<or> fresh_leader cfg i T c1"
    using one_vote [OF assms(1) Cons.prems(1) assms(2) Cons.prems(2) p] Cons.prems(5) by auto
  have terms: "\<forall>j \<in> set (members cfg). CurrentTerm (nodes c1 j) \<le> T"
    using Cons.prems(6) same T by (metis insertE order_refl singletonD)
  show ?case
  proof (cases "fresh_leader cfg i T c1")
    case True
    then show ?thesis using run terms by blast
  next
    case False
    have re: "reachable cfg c1" by (rule reachable_run [OF Cons.prems(1) run(1)])
    have "\<forall>q \<in> set ps. CurrentTerm (nodes c1 q) < T \<and> log_le (Log (nodes c1 q)) (Log (nodes c1 i))"
    proof
      fix q assume q: "q \<in> set ps"
      then have "q \<notin> {i, p}" using Cons.prems(3,4) by auto
      then show "CurrentTerm (nodes c1 q) < T \<and> log_le (Log (nodes c1 q)) (Log (nodes c1 i))"
        using same run(2) q Cons.prems(5) by (simp add: undisturbed_def)
    qed
    then obtain c' where "(cstep cfg)\<^sup>*\<^sup>* c1 c'" "undisturbed i c1 c'" "fresh_leader cfg i T c'"
        "\<forall>j \<in> set (members cfg). CurrentTerm (nodes c' j) \<le> T"
      using Cons.IH [OF re] res False Cons.prems(3,4) terms by auto
    then show ?thesis
      using rtranclp_trans [OF run(1)] undisturbed_trans [OF run(2)] by (intro exI [of _ c']) simp
  qed
qed

subsection \<open>A request and its replication\<close>

lemma submit_taken:
  assumes "i \<in> set (members cfg)" and "State (nodes c i) = Leader" and "clientCh (nodes c i) = []" and "handling c i = None"
  shows "\<exists>c' l. (cstep cfg)\<^sup>*\<^sup>* c c' \<and> nodes c' = (nodes c)(i := l) \<and> State l = Leader \<and> CurrentTerm l = CurrentTerm (nodes c i) \<and>
    Log l = Log (nodes c i) @ [client_entry req (nodes c i)] \<and> NextIndex l = NextIndex (nodes c i) \<and>
    handling c' i = Some (req, len (Log (nodes c i)), CurrentTerm (nodes c i)) \<and> answers c' = answers c"
proof -
  let ?n = "nodes c i" and ?n1 = "(nodes c i)\<lparr>clientCh := [req]\<rparr>"
  define c1 where "c1 = do_submit i req c"
  have c1: "c1 = upd i ?n1 c" using assms(3) by (simp add: c1_def do_submit_def Submit_def)
  have take: "clientHandler_take False ?n1 = Some (?n1\<lparr>clientCh := []\<rparr>, req)" by (simp add: clientHandler_take_def)
  let ?l = "append_entry (client_entry req (?n1\<lparr>clientCh := []\<rparr>)) (?n1\<lparr>clientCh := []\<rparr>)"
  define c2 where "c2 = do_take i c1"
  have c2: "c2 = (upd i ?l c1)\<lparr>handling := (handling c1)(i \<mapsto> (req, len (Log ?n), CurrentTerm ?n))\<rparr>"
    using assms(2) take by (simp add: c2_def do_take_def c1 upd_def handleClientReq_begin_def)
  have "cstep cfg c c1" unfolding c1_def using assms(1) by (rule cstep.c_submit)
  moreover have "cstep cfg c1 c2"
    unfolding c2_def using assms(1,4) by (intro cstep.c_take) (simp_all add: c1 upd_def)
  ultimately have "(cstep cfg)\<^sup>*\<^sup>* c c2" by (meson rtranclp.rtrancl_into_rtrancl rtranclp.rtrancl_refl)
  moreover have "Log ?l = Log ?n @ [client_entry req ?n]"
    by (simp add: append_entry_def node_simps client_entry_def)
  ultimately show ?thesis
    using assms(2) by (intro exI [of _ c2] exI [of _ ?l]) (simp add: c2 c1 upd_def append_entry_def node_simps)
qed

text \<open>A round is four steps of the cluster.\<close>

lemma round_steps:
  assumes "i \<in> set (members cfg)" and "p \<in> set (members cfg)" and "i \<noteq> p" and "ID (nodes c i) = i"
    and can: "can_replicate p (nodes c i) (nodes c p)"
    and round: "replicate_round p (nodes c i) (nodes c p) = Inr (l', f')"
  shows "\<exists>c'. (cstep cfg)\<^sup>*\<^sup>* c c' \<and> nodes c' = (nodes c)(p := f', i := l') \<and> handling c' = handling c \<and> answers c' = answers c"
proof -
  let ?l = "nodes c i"
  have l: "State ?l = Leader" "p \<in> fst ` set (Peers ?l)" using can by (simp_all add: can_replicate_def)
  obtain rc rest where rc: "filter (\<lambda>rc. rc_peer rc = p) (sendHeartbeats ?l) = rc # rest" "rc_peer rc = p"
      "rc_term rc = CurrentTerm ?l"
    using heartbeat_call [OF l] by blast
  have "rc \<in> set (filter (\<lambda>rc. rc_peer rc = p) (sendHeartbeats ?l))" unfolding rc(1) by simp
  then have mem: "rc \<in> set (sendHeartbeats ?l)" by simp
  obtain req where req: "replicateToPeer_request rc ?l = Some req" "ae_LeaderID req = i"
    using l(1) rc(3) assms(4) by (auto simp: replicateToPeer_request_def Let_def)
  obtain resp where h: "HandleAppendEntries req (nodes c p) = Inr (f', resp)" "replicateToPeer_reply rc req resp ?l = Inr l'"
    using round by (auto simp: replicate_round_def rc(1) req(1) go_bind_Inr_iff)
  define c1 where "c1 = do_heartbeat i c"
  define c2 where "c2 = send [AEReqM p rc req] c1"
  define c3 where "c3 = send [AERespM p rc req resp] (upd p f' c2)"
  note defs = c3_def c2_def c1_def send_def upd_def do_heartbeat_def
  have "cstep cfg c c1" unfolding c1_def using assms(1) by (rule cstep.c_heartbeat)
  moreover have "cstep cfg c1 c2"
    unfolding c2_def rc(2) [symmetric]
    by (rule cstep.c_replicate [OF assms(1)]) (use mem req(1) l(1) in \<open>simp_all add: c1_def do_heartbeat_def heartbeatLoop_tick_def\<close>)
  moreover have "cstep cfg c2 c3"
    by (rule cstep.c_handle_ae [OF assms(2), of rc req]) (use h(1) assms(3) in \<open>simp_all add: defs do_handle_ae_def\<close>)
  moreover have "cstep cfg c3 (upd i l' c3)"
    by (rule cstep.c_ae_reply [OF assms(1), of p rc req resp]) (use h(2) req(2) assms(3) in \<open>simp_all add: defs\<close>)
  ultimately have "(cstep cfg)\<^sup>*\<^sup>* c (upd i l' c3)" by (meson rtranclp.rtrancl_into_rtrancl rtranclp.rtrancl_refl)
  then show ?thesis by (intro exI [of _ "upd i l' c3"]) (simp add: defs)
qed

text \<open>A run that visits all members of a list, keeping \<open>I\<close> and reaching \<open>Q\<close> at each without losing it at the others.\<close>

lemma visit_all:
  assumes "\<And>c q. q \<in> set qs \<Longrightarrow> reachable cfg c \<Longrightarrow> I c \<Longrightarrow>
      \<exists>c'. (cstep cfg)\<^sup>*\<^sup>* c c' \<and> I c' \<and> Q q c' \<and> (\<forall>r. r \<noteq> q \<longrightarrow> Q r c \<longrightarrow> Q r c')"
    and "reachable cfg c" and "I c"
  shows "\<exists>c'. (cstep cfg)\<^sup>*\<^sup>* c c' \<and> I c' \<and> (\<forall>q \<in> set qs. Q q c')"
  using assms(1)
proof (induction qs rule: rev_induct)
  case (snoc q qs)
  then obtain c1 where c1: "(cstep cfg)\<^sup>*\<^sup>* c c1" "I c1" "\<forall>r \<in> set qs. Q r c1" by force
  obtain c2 where "(cstep cfg)\<^sup>*\<^sup>* c1 c2" "I c2" "Q q c2" "\<forall>r. r \<noteq> q \<longrightarrow> Q r c1 \<longrightarrow> Q r c2"
    using snoc.prems [of q c1] reachable_run [OF assms(2) c1(1)] c1(2) by auto
  moreover have "Q r c2" if "r \<in> set qs" for r using that c1(3) calculation by (cases "r = q") auto
  ultimately show ?case using rtranclp_trans [OF c1(1)] by (intro exI [of _ c2]) auto
qed (use assms(3) in auto)

lemma peer_matched:
  assumes "good_config cfg" and "i \<in> set (members cfg)" and "p \<in> set (members cfg)" and "i \<noteq> p"
    and "reachable cfg c" and "State (nodes c i) = Leader" and "CurrentTerm (nodes c p) \<le> CurrentTerm (nodes c i)"
    and "go_get (NextIndex (nodes c i)) p 0 < len (Log (nodes c i))"
  shows "\<exists>c'. (cstep cfg)\<^sup>*\<^sup>* c c' \<and> leader_frame p (nodes c i) (nodes c' i) \<and> matched p (nodes c' i) \<and>
    prefix (Log (nodes c i)) (Log (nodes c' p)) \<and>
    (\<forall>j. j \<notin> {i, p} \<longrightarrow> nodes c' j = nodes c j) \<and> CurrentTerm (nodes c' p) = CurrentTerm (nodes c i) \<and>
    handling c' = handling c \<and> answers c' = answers c"
  using assms(5-8)
proof (induction "nat (go_get (NextIndex (nodes c i)) p 0)" arbitrary: c rule: less_induct)
  case less
  have can: "can_replicate p (nodes c i) (nodes c p)"
    by (rule reachable_can_replicate [OF assms(1) less.prems(1) assms(2-4) less.prems(2,3)])
  from replicate_round_outcome [OF can] obtain l' f' where
    r: "replicate_round p (nodes c i) (nodes c p) = Inr (l', f')" "can_replicate p l' f'" "leader_frame p (nodes c i) l'"
      "CurrentTerm f' = CurrentTerm (nodes c i)"
    and out: "prefix (Log (nodes c i)) (Log f') \<and> matched p l' \<or>
      go_get (NextIndex l') p 0 = go_get (NextIndex (nodes c i)) p 0 - 1"
    using less.prems(4) by fastforce
  have ID: "ID (nodes c i) = i" by (rule reachable_node(1) [OF assms(1) less.prems(1) assms(2)])
  from round_steps [OF assms(2-4) ID can r(1)] obtain c1 where c1: "(cstep cfg)\<^sup>*\<^sup>* c c1" "nodes c1 = (nodes c)(p := f', i := l')"
      "handling c1 = handling c" "answers c1 = answers c" by blast
  have n1: "nodes c1 i = l'" "nodes c1 p = f'" using c1(2) assms(4) by simp_all
  show ?case
  proof (cases "prefix (Log (nodes c i)) (Log f') \<and> matched p l'")
    case True
    then show ?thesis using c1 r(3,4) n1 by (intro exI [of _ c1]) simp
  next
    case False
    then have x: "go_get (NextIndex l') p 0 = go_get (NextIndex (nodes c i)) p 0 - 1" using out by blast
    have "0 \<le> go_get (NextIndex l') p 0" using r(2) by (simp add: can_replicate_def)
    then have "nat (go_get (NextIndex (nodes c1 i)) p 0) < nat (go_get (NextIndex (nodes c i)) p 0)" using x n1 by simp
    moreover have "reachable cfg c1" by (rule reachable_run [OF less.prems(1) c1(1)])
    moreover have "State (nodes c1 i) = Leader" "CurrentTerm (nodes c1 p) \<le> CurrentTerm (nodes c1 i)"
        "go_get (NextIndex (nodes c1 i)) p 0 < len (Log (nodes c1 i))"
      using r(3,4) less.prems(2,4) x by (simp_all add: n1 leader_frame_def)
    ultimately obtain c' where c': "(cstep cfg)\<^sup>*\<^sup>* c1 c'" "leader_frame p l' (nodes c' i)" "matched p (nodes c' i)"
        "prefix (Log l') (Log (nodes c' p))"
        "\<forall>j. j \<notin> {i, p} \<longrightarrow> nodes c' j = nodes c1 j" "CurrentTerm (nodes c' p) = CurrentTerm l'"
        "handling c' = handling c1" "answers c' = answers c1"
      using less.hyps [of c1] unfolding n1 by blast
    show ?thesis
      using rtranclp_trans [OF c1(1) c'(1)] leader_frame_trans [OF r(3) c'(2)] c'(3-8) c1(2-4) r(3)
      by (intro exI [of _ c']) (simp add: leader_frame_def)
  qed
qed

text \<open>The leader \<open>i\<close> of the highest term \<open>T\<close>, with its log and with the answers so far.\<close>

definition leads :: "config \<Rightarrow> string \<Rightarrow> int \<Rightarrow> LogEntry list \<Rightarrow> cluster \<Rightarrow> bool" where
  "leads cfg i T L c \<longleftrightarrow> State (nodes c i) = Leader \<and> CurrentTerm (nodes c i) = T \<and> Log (nodes c i) = L \<and>
     (\<forall>j \<in> set (members cfg). CurrentTerm (nodes c j) \<le> T)"

definition holds_log :: "string \<Rightarrow> LogEntry list \<Rightarrow> string \<Rightarrow> cluster \<Rightarrow> bool" where
  "holds_log i L q c \<longleftrightarrow> map_of (MatchIndex (nodes c i)) q = Some (len L - 1) \<and> prefix L (Log (nodes c q)) \<and> scanned (nodes c i)"

lemma one_matched:
  assumes "good_config cfg" and i: "i \<in> set (members cfg)" and p: "p \<in> set (members cfg)" "p \<noteq> i" and re: "reachable cfg d"
    and lead: "leads cfg i T L d" and nx: "go_get (NextIndex (nodes d i)) p 0 < len L"
  shows "\<exists>d'. (cstep cfg)\<^sup>*\<^sup>* d d' \<and> leads cfg i T L d' \<and> handling d' = handling d \<and> answers d' = answers d \<and> holds_log i L p d' \<and>
    (\<forall>r. r \<noteq> p \<longrightarrow> go_get (NextIndex (nodes d' i)) r 0 = go_get (NextIndex (nodes d i)) r 0 \<and> (holds_log i L r d \<longrightarrow> holds_log i L r d'))"
proof -
  have l: "State (nodes d i) = Leader" "CurrentTerm (nodes d p) \<le> CurrentTerm (nodes d i)" "Log (nodes d i) = L"
    using lead p by (auto simp: leads_def)
  obtain d' where d': "(cstep cfg)\<^sup>*\<^sup>* d d'" "leader_frame p (nodes d i) (nodes d' i)" "matched p (nodes d' i)"
      "prefix L (Log (nodes d' p))" "\<forall>j. j \<notin> {i, p} \<longrightarrow> nodes d' j = nodes d j" "CurrentTerm (nodes d' p) = CurrentTerm (nodes d i)"
      "handling d' = handling d" "answers d' = answers d"
    using peer_matched [OF assms(1) i _ _ re l(1,2)] nx p l(3) by auto
  have "leads cfg i T L d'"
    using lead d'(2,5,6) unfolding leads_def leader_frame_def by (metis insertE order_refl singletonD)
  moreover have "holds_log i L p d'" using d'(2-4) l(3) by (simp add: holds_log_def matched_def leader_frame_def)
  moreover have "holds_log i L r d'" if "r \<noteq> p" "holds_log i L r d" for r
    using that d'(2,3,5) by (cases "r = i") (simp_all add: holds_log_def matched_def leader_frame_def)
  moreover have "go_get (NextIndex (nodes d' i)) r 0 = go_get (NextIndex (nodes d i)) r 0" if "r \<noteq> p" for r
    using that d'(2) by (simp add: leader_frame_def go_get_def)
  ultimately show ?thesis using d'(1,7,8) by blast
qed

lemma all_matched:
  assumes "good_config cfg" and i: "i \<in> set (members cfg)" and "reachable cfg c" and "leads cfg i T L c"
    and "\<forall>q \<in> set (members cfg) - {i}. go_get (NextIndex (nodes c i)) q 0 < len L"
  shows "\<exists>c'. (cstep cfg)\<^sup>*\<^sup>* c c' \<and> leads cfg i T L c' \<and> handling c' = handling c \<and> answers c' = answers c \<and>
    (\<forall>q \<in> set (members cfg) - {i}. holds_log i L q c')"
proof -
  define I where "I d \<longleftrightarrow> leads cfg i T L d \<and> handling d = handling c \<and> answers d = answers c \<and>
    (\<forall>q \<in> set (members cfg) - {i}. go_get (NextIndex (nodes d i)) q 0 < len L \<or> holds_log i L q d)" for d
  have "\<exists>c'. (cstep cfg)\<^sup>*\<^sup>* c c' \<and> I c' \<and> (\<forall>q \<in> set (filter (\<lambda>q. q \<noteq> i) (members cfg)). holds_log i L q c')"
  proof (rule visit_all [where I = I, OF _ assms(3)])
    show "I c" using assms(4,5) by (simp add: I_def)
  next
    fix d p
    assume "p \<in> set (filter (\<lambda>q. q \<noteq> i) (members cfg))" and re: "reachable cfg d" and I: "I d"
    then have p: "p \<in> set (members cfg)" "p \<noteq> i" and lead: "leads cfg i T L d" by (simp_all add: I_def)
    show "\<exists>d'. (cstep cfg)\<^sup>*\<^sup>* d d' \<and> I d' \<and> holds_log i L p d' \<and> (\<forall>r. r \<noteq> p \<longrightarrow> holds_log i L r d \<longrightarrow> holds_log i L r d')"
    proof (cases "holds_log i L p d")
      case False
      then have "go_get (NextIndex (nodes d i)) p 0 < len L" using I p by (auto simp: I_def)
      from one_matched [OF assms(1) i p re lead this] obtain d' where d': "(cstep cfg)\<^sup>*\<^sup>* d d'" "leads cfg i T L d'"
          "handling d' = handling d" "answers d' = answers d" "holds_log i L p d'"
          "\<forall>r. r \<noteq> p \<longrightarrow> go_get (NextIndex (nodes d' i)) r 0 = go_get (NextIndex (nodes d i)) r 0 \<and> (holds_log i L r d \<longrightarrow> holds_log i L r d')"
        by blast
      then have "I d'" using I unfolding I_def by metis
      then show ?thesis using d'(1,5,6) by blast
    qed (use I in blast)
  qed
  then show ?thesis by (auto simp: I_def)
qed

lemma scanned_commits:
  assumes "scanned l" and "\<forall>q \<in> set (map fst (Peers l)). map_of (MatchIndex l) q = Some (len (Log l) - 1)"
    and "distinct (map fst (Peers l))" and "Peers l \<noteq> []" and "Log l \<noteq> []" and "Term (last (Log l)) = CurrentTerm l"
  shows "len (Log l) - 1 \<le> CommitIndex l"
proof (rule ccontr)
  assume "\<not> len (Log l) - 1 \<le> CommitIndex l"
  then have no: "\<not> can_commit l (len (Log l) - 1)" using assms(1) by (simp add: scanned_def)
  let ?F = "filter (\<lambda>(i, match). match \<ge> len (Log l) - 1) (MatchIndex l)"
  have "(\<lambda>q. (q, len (Log l) - 1)) ` set (map fst (Peers l)) \<subseteq> set ?F"
    using assms(2) by (auto dest: map_of_SomeD)
  then have "card ((\<lambda>q. (q, len (Log l) - 1)) ` set (map fst (Peers l))) \<le> length ?F"
    using card_mono [OF List.finite_set] card_length [of ?F] order_trans by blast
  moreover have "card ((\<lambda>q. (q, len (Log l) - 1)) ` set (map fst (Peers l))) = length (Peers l)"
    using distinct_card [OF assms(3)] by (subst card_image) (simp_all add: inj_on_def)
  ultimately have "len (Peers l) \<le> len ?F" by simp
  moreover have "0 < len (Peers l)" using assms(4) by simp
  moreover have "nat (len (Log l) - 1) = length (Log l) - 1" by simp
  then have "Term (Log l ! nat (len (Log l) - 1)) = CurrentTerm l" using assms(5,6) by (simp add: last_conv_nth)
  ultimately have "can_commit l (len (Log l) - 1)" unfolding can_commit_def by (intro conjI) linarith+
  with no show False ..
qed

text \<open>Once all members hold the leader's log, whose last entry is of its term, all of it is committed.\<close>

definition replicated_by :: "config \<Rightarrow> string \<Rightarrow> int \<Rightarrow> LogEntry list \<Rightarrow> cluster \<Rightarrow> bool" where
  "replicated_by cfg i T L c \<longleftrightarrow> leads cfg i T L c \<and> (\<forall>q \<in> set (members cfg) - {i}. holds_log i L q c)"

lemma leader_commits:
  assumes "good_config cfg" and "2 \<le> length (members cfg)" and i: "i \<in> set (members cfg)" and re: "reachable cfg c"
    and rep: "replicated_by cfg i T L c" and L: "L \<noteq> []" "Term (last L) = T"
  shows "CommitIndex (nodes c i) = len L - 1"
proof -
  note peers = peers_of_members [OF assms(1) i]
  have P: "Peers (nodes c i) = peers_of cfg i" by (rule reachable_node(2) [OF assms(1) re i])
  have ne: "peers_of cfg i \<noteq> []" using peers(3) assms(2) by auto
  then have "set (members cfg) - {i} \<noteq> {}" unfolding peers(1) [symmetric] by simp
  then have "scanned (nodes c i)" using rep by (auto simp: replicated_by_def holds_log_def)
  then have "len (Log (nodes c i)) - 1 \<le> CommitIndex (nodes c i)"
    using rep ne P peers(1,2) L by (intro scanned_commits) (simp_all add: replicated_by_def holds_log_def leads_def)
  moreover obtain a where a: "cluster_rel cfg c a" by (rule reachable_related [OF assms(1) re])
  have "CommitIndex (nodes c i) < len (Log (nodes c i))" using node_commit_ok [OF a i] by (simp add: commit_ok_def)
  ultimately show ?thesis using rep by (simp add: replicated_by_def leads_def)
qed

lemma answered:
  assumes "i \<in> set (members cfg)" and "handling c i = Some (req, idx, t)" and "State (nodes c i) = Leader"
    and "CurrentTerm (nodes c i) = t" and "idx \<le> CommitIndex (nodes c i)"
  shows "cstep cfg c (do_poll i False req idx t c) \<and> nodes (do_poll i False req idx t c) = nodes c \<and>
    answers (do_poll i False req idx t c) = answers c @ [(req, Inr (idx, t))]"
  using cstep.c_poll [OF assms(1,2)] assms(3-5) by (simp add: do_poll_def handleClientReq_poll_def)

text \<open>From an idle new leader to the answer.\<close>

lemma leader_answers:
  assumes "good_config cfg" and "2 \<le> length (members cfg)" and i: "i \<in> set (members cfg)" and re: "reachable cfg c"
    and lead: "fresh_leader cfg i T c" and terms: "\<forall>j \<in> set (members cfg). CurrentTerm (nodes c j) \<le> T"
    and idle: "clientCh (nodes c i) = []" "handling c i = None"
  shows "\<exists>c' M. (cstep cfg)\<^sup>*\<^sup>* c c' \<and> answers c' = answers c @ [(req, Inr (len M, T))] \<and>
    replicated_by cfg i T (M @ [req_entry req (len M) T]) c'"
proof -
  let ?M = "Log (nodes c i)"
  let ?L = "?M @ [req_entry req (len ?M) T]"
  note peers = peers_of_members [OF assms(1) i]
  have st: "State (nodes c i) = Leader" "CurrentTerm (nodes c i) = T"
    and nx: "\<forall>p \<in> set (members cfg) - {i}. go_get (NextIndex (nodes c i)) p 0 = len ?M"
    using lead unfolding fresh_leader_def peers(1) by simp_all
  have e: "client_entry req (nodes c i) = req_entry req (len ?M) T" using st(2) by (simp add: client_entry_def req_entry_def)
  obtain c1 l where c1: "(cstep cfg)\<^sup>*\<^sup>* c c1" "nodes c1 = (nodes c)(i := l)" "State l = Leader" "CurrentTerm l = T"
      "Log l = ?L" "NextIndex l = NextIndex (nodes c i)" "handling c1 i = Some (req, len ?M, T)" "answers c1 = answers c"
    using submit_taken [OF i st(1) idle, of req] st(2) e by auto
  have re1: "reachable cfg c1" by (rule reachable_run [OF re c1(1)])
  have "leads cfg i T ?L c1" using c1(2-5) terms by (simp add: leads_def)
  moreover have "\<forall>q \<in> set (members cfg) - {i}. go_get (NextIndex (nodes c1 i)) q 0 < len ?L"
    using nx c1(2,6) by simp
  ultimately obtain c2 where c2: "(cstep cfg)\<^sup>*\<^sup>* c1 c2" "replicated_by cfg i T ?L c2" "handling c2 = handling c1" "answers c2 = answers c1"
    using all_matched [OF assms(1) i re1] unfolding replicated_by_def by blast
  have "CommitIndex (nodes c2 i) = len ?L - 1"
    by (rule leader_commits [OF assms(1,2) i reachable_run [OF re1 c2(1)] c2(2)]) (simp_all add: req_entry_def)
  then have "cstep cfg c2 (do_poll i False req (len ?M) T c2) \<and> nodes (do_poll i False req (len ?M) T c2) = nodes c2 \<and>
      answers (do_poll i False req (len ?M) T c2) = answers c2 @ [(req, Inr (len ?M, T))]"
    using c2(2,3) c1(7) by (intro answered [OF i]) (simp_all add: replicated_by_def leads_def)
  then show ?thesis
    using c1(1,8) c2 rtranclp_trans [of "cstep cfg" c c1 c2]
    by (intro exI [of _ "do_poll i False req (len ?M) T c2"] exI [of _ ?M])
       (simp add: replicated_by_def leads_def holds_log_def rtranclp.rtrancl_into_rtrancl)
qed

subsection \<open>Convergence\<close>

text \<open>
  A member that holds the whole log of the leader of the highest term, whose last entry is of that term,
  has nothing beyond it.
\<close>

lemma held_log_equal:
  assumes "good_config cfg" and i: "i \<in> set (members cfg)" and "reachable cfg c" and lead: "leads cfg i T L c"
    and L: "L \<noteq> []" "Term (last L) = T" and q: "q \<in> set (members cfg)" and pre: "prefix L (Log (nodes c q))"
  shows "Log (nodes c q) = L"
proof -
  obtain a where a: "cluster_rel cfg c a" by (rule reachable_related [OF assms(1,3)])
  note core = raft_inv_core [OF cluster_relD(1) [OF a]]
  let ?M = "Log (nodes c q)"
  have M: "log_ok a ?M" "\<And>e. e \<in> set ?M \<Longrightarrow> Term e \<le> T" "?M \<noteq> []"
    using core_nodesD(2,3) [OF core q] cluster_relD(2) [OF a q] lead q pre L(1) by (fastforce simp: leads_def)+
  obtain R where R: "?M = L @ R" using pre by (auto simp: prefix_def)
  have "sorted (map Term ?M)" using M(1) by (simp add: log_ok_def)
  then have "T \<le> Term (last ?M)"
    using L by (cases "R = []") (auto simp: R sorted_append)
  then have "lastLogTerm ?M = T" using M(2) [OF last_in_set [OF M(3)]] M(3) by (simp add: lastLogTerm_last last_conv_nth)
  then have "prefix ?M (allog a T)" using log_ok_last(1) [OF M(1,3)] by simp
  moreover have "allog a T = L" using leader_log(2) [OF a i] lead by (simp add: leads_def)
  ultimately show ?thesis using pre prefix_order.antisym by blast
qed

text \<open>One more round tells a member that everything is committed.\<close>

lemma commit_told:
  assumes "good_config cfg" and "2 \<le> length (members cfg)" and i: "i \<in> set (members cfg)" and re: "reachable cfg c"
    and rep: "replicated_by cfg i T L c" and L: "L \<noteq> []" "Term (last L) = T" and p: "p \<in> set (members cfg)" "p \<noteq> i"
  shows "\<exists>c'. (cstep cfg)\<^sup>*\<^sup>* c c' \<and> replicated_by cfg i T L c' \<and> answers c' = answers c \<and> CommitIndex (nodes c' p) = len L - 1 \<and>
    (\<forall>j. j \<notin> {i, p} \<longrightarrow> nodes c' j = nodes c j)"
proof -
  have ld: "State (nodes c i) = Leader" "CurrentTerm (nodes c p) \<le> CurrentTerm (nodes c i)" "Log (nodes c i) = L"
      "prefix L (Log (nodes c p))"
    using rep p by (simp_all add: replicated_by_def leads_def holds_log_def)
  have can: "can_replicate p (nodes c i) (nodes c p)"
    using reachable_can_replicate [OF assms(1) re i p(1) _ ld(1,2)] p(2) by blast
  from replicate_round_outcome [OF can] ld(3,4) obtain l' f' where
    r: "replicate_round p (nodes c i) (nodes c p) = Inr (l', f')" "leader_frame p (nodes c i) l'" "CurrentTerm f' = CurrentTerm (nodes c i)"
      "prefix L (Log f')" "l' = nodes c i \<or> matched p l'"
      "CommitIndex f' = (if CommitIndex (nodes c p) < CommitIndex (nodes c i) then min (CommitIndex (nodes c i)) (len (Log f') - 1)
         else CommitIndex (nodes c p))" by auto
  have ID: "ID (nodes c i) = i" by (rule reachable_node(1) [OF assms(1) re i])
  from round_steps [OF i p(1) p(2) [symmetric] ID can r(1)] obtain c1 where c1: "(cstep cfg)\<^sup>*\<^sup>* c c1"
      "nodes c1 = (nodes c)(p := f', i := l')" "answers c1 = answers c" by blast
  have lead: "leads cfg i T L c1"
    using rep r(2,3) c1(2) by (auto simp: replicated_by_def leads_def leader_frame_def)
  have "holds_log i L q c1" if "q \<in> set (members cfg) - {i}" for q
    using that rep r(2,4,5) c1(2) ld(3) by (auto simp: replicated_by_def holds_log_def leader_frame_def matched_def)
  with lead have rep1: "replicated_by cfg i T L c1" by (simp add: replicated_by_def)
  have "Log f' = L"
    using held_log_equal [OF assms(1) i reachable_run [OF re c1(1)] lead L p(1)] r(4) c1(2) p(2) by simp
  moreover obtain a where a: "cluster_rel cfg c a" by (rule reachable_related [OF assms(1) re])
  have "CommitIndex (nodes c p) < len L"
    using node_commit_ok [OF a p(1)] held_log_equal [OF assms(1) i re _ L p(1) ld(4)] rep
    by (simp add: commit_ok_def replicated_by_def)
  ultimately have "CommitIndex f' = len L - 1"
    using r(6) leader_commits [OF assms(1-3) re rep L] by auto
  then show ?thesis using c1 rep1 p(2) by (intro exI [of _ c1]) simp
qed

lemma commit_spread:
  assumes "good_config cfg" and "2 \<le> length (members cfg)" and i: "i \<in> set (members cfg)" and re: "reachable cfg c"
    and rep: "replicated_by cfg i T L c" and L: "L \<noteq> []" "Term (last L) = T"
  shows "\<exists>c'. (cstep cfg)\<^sup>*\<^sup>* c c' \<and> answers c' = answers c \<and>
    (\<forall>j \<in> set (members cfg). Log (nodes c' j) = L \<and> CommitIndex (nodes c' j) = len L - 1)"
proof -
  define I where "I d \<longleftrightarrow> replicated_by cfg i T L d \<and> answers d = answers c" for d
  define Q where "Q q d \<longleftrightarrow> q \<noteq> i \<and> CommitIndex (nodes d q) = len L - 1" for q and d :: cluster
  have "\<exists>c'. (cstep cfg)\<^sup>*\<^sup>* c c' \<and> I c' \<and> (\<forall>q \<in> set (filter (\<lambda>q. q \<noteq> i) (members cfg)). Q q c')"
  proof (rule visit_all [where I = I, OF _ re])
    fix d p
    assume "p \<in> set (filter (\<lambda>q. q \<noteq> i) (members cfg))" "reachable cfg d" "I d"
    then obtain d' where "(cstep cfg)\<^sup>*\<^sup>* d d'" "I d'" "Q p d'" "\<forall>j. j \<notin> {i, p} \<longrightarrow> nodes d' j = nodes d j"
      using commit_told [OF assms(1,2) i _ _ L, of d p] by (auto simp: I_def Q_def)
    then show "\<exists>d'. (cstep cfg)\<^sup>*\<^sup>* d d' \<and> I d' \<and> Q p d' \<and> (\<forall>r. r \<noteq> p \<longrightarrow> Q r d \<longrightarrow> Q r d')"
      by (intro exI [of _ d']) (simp add: Q_def)
  qed (use rep in \<open>simp add: I_def\<close>)
  then obtain c' where c': "(cstep cfg)\<^sup>*\<^sup>* c c'" "replicated_by cfg i T L c'" "answers c' = answers c"
      "\<forall>q \<in> set (members cfg) - {i}. CommitIndex (nodes c' q) = len L - 1"
    by (auto simp: I_def Q_def)
  have re': "reachable cfg c'" by (rule reachable_run [OF re c'(1)])
  have lead: "leads cfg i T L c'" using c'(2) by (simp add: replicated_by_def)
  have "prefix L (Log (nodes c' j))" if "j \<in> set (members cfg)" for j
    using that c'(2) by (cases "j = i") (simp_all add: replicated_by_def leads_def holds_log_def)
  then have "Log (nodes c' j) = L" if "j \<in> set (members cfg)" for j
    using that held_log_equal [OF assms(1) i re' lead L] by blast
  moreover have "CommitIndex (nodes c' i) = len L - 1" by (rule leader_commits [OF assms(1-3) re' c'(2) L])
  ultimately show ?thesis using c'(1,3,4) by (intro exI [of _ c']) (metis DiffI singletonD)
qed

text \<open>A turn of the apply loop brings the store up to the commit index.\<close>

lemma apply_caught_up:
  assumes "good_config cfg" and "reachable cfg c" and p: "p \<in> set (members cfg)"
    and log: "Log (nodes c p) = L" "CommitIndex (nodes c p) = len L - 1"
  shows "\<exists>c'. cstep cfg c c' \<and> answers c' = answers c \<and> Log (nodes c' p) = L \<and> CommitIndex (nodes c' p) = len L - 1 \<and>
    LastApplied (nodes c' p) = len L - 1 \<and> (\<forall>j. j \<noteq> p \<longrightarrow> nodes c' j = nodes c j)"
proof -
  let ?n = "nodes c p"
  obtain a where a: "cluster_rel cfg c a" by (rule reachable_related [OF assms(1,2)])
  then have ok: "applied_ok ?n" "LastApplied ?n \<le> CommitIndex ?n" using cluster_relD(3) [OF a p] by (simp_all add: node_ok_def)
  then have t: "apply_target ?n = len L - 1" using log by (simp add: apply_target_def)
  let ?n' = "?n\<lparr>LastApplied := apply_target ?n, KVStore := run_log (Log ?n) (apply_target ?n)\<rparr>"
  have "applyLoop_turn True ?n = Inr ?n'"
    using applyCommittedEntries_result [OF ok(1)] by (simp add: applyLoop_turn_def)
  then have "cstep cfg c (upd p ?n' c)" by (rule cstep.c_apply [OF p])
  then show ?thesis using t log by (intro exI [of _ "upd p ?n' c"]) (simp add: upd_def)
qed

lemma all_applied:
  assumes "good_config cfg" and re: "reachable cfg c"
    and logs: "\<forall>j \<in> set (members cfg). Log (nodes c j) = L \<and> CommitIndex (nodes c j) = len L - 1"
  shows "\<exists>c'. (cstep cfg)\<^sup>*\<^sup>* c c' \<and> answers c' = answers c \<and>
    (\<forall>j \<in> set (members cfg). Log (nodes c' j) = L \<and> LastApplied (nodes c' j) = len L - 1 \<and> KVStore (nodes c' j) = run_log L (len L - 1))"
proof -
  define I where "I d \<longleftrightarrow> answers d = answers c \<and>
    (\<forall>j \<in> set (members cfg). Log (nodes d j) = L \<and> CommitIndex (nodes d j) = len L - 1)" for d :: cluster
  have "\<exists>c'. (cstep cfg)\<^sup>*\<^sup>* c c' \<and> I c' \<and> (\<forall>q \<in> set (members cfg). LastApplied (nodes c' q) = len L - 1)"
  proof (rule visit_all [where I = I, OF _ re])
    fix d p
    assume "p \<in> set (members cfg)" "reachable cfg d" "I d"
    then obtain d' where d': "cstep cfg d d'" "answers d' = answers d" "Log (nodes d' p) = L" "CommitIndex (nodes d' p) = len L - 1"
        "LastApplied (nodes d' p) = len L - 1" "\<forall>j. j \<noteq> p \<longrightarrow> nodes d' j = nodes d j"
      using apply_caught_up [OF assms(1), of d p L] unfolding I_def by blast
    then have "I d'" using \<open>I d\<close> unfolding I_def by metis
    then show "\<exists>d'. (cstep cfg)\<^sup>*\<^sup>* d d' \<and> I d' \<and> LastApplied (nodes d' p) = len L - 1 \<and>
        (\<forall>r. r \<noteq> p \<longrightarrow> LastApplied (nodes d r) = len L - 1 \<longrightarrow> LastApplied (nodes d' r) = len L - 1)"
      using d' by (intro exI [of _ d']) auto
  qed (use logs in \<open>simp add: I_def\<close>)
  then obtain c' where c': "(cstep cfg)\<^sup>*\<^sup>* c c'" "I c'" "\<forall>q \<in> set (members cfg). LastApplied (nodes c' q) = len L - 1" by blast
  obtain a where a: "cluster_rel cfg c' a" by (rule reachable_related [OF assms(1) reachable_run [OF re c'(1)]])
  have "applied_ok (nodes c' j)" if "j \<in> set (members cfg)" for j
    using cluster_relD(3) [OF a that] by (simp add: node_ok_def)
  then show ?thesis using c' by (intro exI [of _ c']) (simp add: I_def applied_ok_def)
qed

subsection \<open>Property\<close>

text \<open>From any reachable cluster to a leader that has answered the request and replicated it.\<close>

lemma cluster_elects_and_answers:
  assumes "good_config cfg" and "2 \<le> length (members cfg)" and "reachable cfg c"
    and "\<forall>j \<in> set (members cfg). CurrentTerm (nodes c j) < max_int"
  shows "\<exists>c' i M t. (cstep cfg)\<^sup>*\<^sup>* c c' \<and> answers c' = answers c @ [(req, Inr (len M, t))] \<and>
    i \<in> set (members cfg) \<and> replicated_by cfg i t (M @ [req_entry req (len M) t]) c'"
proof -
  have "members cfg \<noteq> []" using assms(2) by auto
  then obtain i where i: "i \<in> set (members cfg)" and best: "\<forall>j \<in> set (members cfg). log_le (Log (nodes c j)) (Log (nodes c i))"
    using most_recent [of "members cfg" "\<lambda>j. Log (nodes c j)"] by blast
  define T where "T = Max ((\<lambda>j. CurrentTerm (nodes c j)) ` set (members cfg)) + 1"
  have lt: "CurrentTerm (nodes c j) < T" if "j \<in> set (members cfg)" for j
    using that by (simp add: T_def Max_ge add1_zle_eq)
  have "T - 1 \<in> (\<lambda>j. CurrentTerm (nodes c j)) ` set (members cfg)"
    unfolding T_def add_diff_cancel_right' using i by (intro Max_in) auto
  then have T: "T \<le> max_int" using assms(4) by force
  let ?c1 = "do_crash i c"
  note crash = crash_idle [OF assms(1,3) i]
  have s1: "cstep cfg c ?c1" using i by (rule cstep.c_crash)
  have re1: "reachable cfg ?c1" by (rule reachable_step [OF assms(3) s1])
  obtain c2 where c2: "(cstep cfg)\<^sup>*\<^sup>* ?c1 c2" "campaign cfg i T (map fst (peers_of cfg i)) c2" "undisturbed i ?c1 c2"
      "\<forall>j. j \<noteq> i \<longrightarrow> nodes c2 j = nodes ?c1 j"
    using campaign_in_term [OF assms(1,2) i T re1] crash(1,5) lt [OF i] by auto
  note peers = peers_of_members [OF assms(1) i]
  have re2: "reachable cfg c2" by (rule reachable_run [OF re1 c2(1)])
  have le: "\<forall>j \<in> set (members cfg). CurrentTerm (nodes c2 j) \<le> T"
    using c2(2,4) lt crash(5) by (metis campaign_def order.refl order.strict_implies_order)
  have "\<forall>p \<in> set (map fst (peers_of cfg i)). CurrentTerm (nodes c2 p) < T \<and> log_le (Log (nodes c2 p)) (Log (nodes c2 i))"
    using peers(1) c2(3,4) lt crash(5,6) best by (auto simp: undisturbed_def)
  then obtain c3 where c3: "(cstep cfg)\<^sup>*\<^sup>* c2 c3" "undisturbed i c2 c3" "fresh_leader cfg i T c3"
      "\<forall>j \<in> set (members cfg). CurrentTerm (nodes c3 j) \<le> T"
    using election_won [OF assms(1) i re2 c2(2) peers(2) _ _ le] peers(1) by auto
  have u: "undisturbed i ?c1 c3" by (rule undisturbed_trans [OF c2(3) c3(2)])
  then have "clientCh (nodes c3 i) = []" "handling c3 i = None" and ans: "answers c3 = answers c"
    using crash(2-4) by (simp_all add: undisturbed_def)
  then obtain c4 M where c4: "(cstep cfg)\<^sup>*\<^sup>* c3 c4" "answers c4 = answers c @ [(req, Inr (len M, T))]"
      "replicated_by cfg i T (M @ [req_entry req (len M) T]) c4"
    using leader_answers [OF assms(1,2) i reachable_run [OF re2 c3(1)] c3(3,4)] by metis
  have "(cstep cfg)\<^sup>*\<^sup>* c c4"
    using s1 c2(1) c3(1) c4(1) by (meson converse_rtranclp_into_rtranclp rtranclp_trans)
  then show ?thesis using c4(2,3) i by blast
qed

text \<open>
  C5: the cluster is never stuck. From every reachable cluster of at least two members, none of which
  has used up its terms, there is a continuation in which exactly one further request is answered, with
  OK: any given request, at some index of some term. At its end the members have converged: all have the
  same log, which ends with the entry of that request, have applied all of it, and have the same store,
  which is the run of that log.
\<close>

theorem cluster_can_answer:
  assumes "good_config cfg" and "2 \<le> length (members cfg)" and "reachable cfg c"
    and "\<forall>j \<in> set (members cfg). CurrentTerm (nodes c j) < max_int"
  shows "\<exists>c' M t. (cstep cfg)\<^sup>*\<^sup>* c c' \<and> answers c' = answers c @ [(req, Inr (len M, t))] \<and>
    (\<forall>j \<in> set (members cfg). Log (nodes c' j) = M @ [req_entry req (len M) t] \<and> LastApplied (nodes c' j) = len M \<and>
       KVStore (nodes c' j) = apply_entry (req_entry req (len M) t) (fold apply_entry M NewStore))"
proof -
  obtain c1 i M t where c1: "(cstep cfg)\<^sup>*\<^sup>* c c1" "answers c1 = answers c @ [(req, Inr (len M, t))]" "i \<in> set (members cfg)"
      "replicated_by cfg i t (M @ [req_entry req (len M) t]) c1"
    using cluster_elects_and_answers [OF assms, of req] by blast
  let ?L = "M @ [req_entry req (len M) t]"
  have re1: "reachable cfg c1" by (rule reachable_run [OF assms(3) c1(1)])
  obtain c2 where c2: "(cstep cfg)\<^sup>*\<^sup>* c1 c2" "answers c2 = answers c1"
      "\<forall>j \<in> set (members cfg). Log (nodes c2 j) = ?L \<and> CommitIndex (nodes c2 j) = len ?L - 1"
    using commit_spread [OF assms(1,2) c1(3) re1 c1(4)] by (auto simp: req_entry_def)
  obtain c3 where c3: "(cstep cfg)\<^sup>*\<^sup>* c2 c3" "answers c3 = answers c2"
      "\<forall>j \<in> set (members cfg). Log (nodes c3 j) = ?L \<and> LastApplied (nodes c3 j) = len ?L - 1 \<and> KVStore (nodes c3 j) = run_log ?L (len ?L - 1)"
    using all_applied [OF assms(1) reachable_run [OF re1 c2(1)] c2(3)] by blast
  have "(cstep cfg)\<^sup>*\<^sup>* c c3" using c1(1) c2(1) c3(1) by (meson rtranclp_trans)
  moreover have "nat (len ?L - 1 + 1) = length ?L" by simp
  then have "run_log ?L (len ?L - 1) = apply_entry (req_entry req (len M) t) (fold apply_entry M NewStore)"
    unfolding run_log_def by simp
  ultimately show ?thesis using c1(2) c2(2) c3(2,3) by (intro exI [of _ c3] exI [of _ M] exI [of _ t]) simp
qed

theorem cluster_can_answer_witness:
  "\<exists>c' M t. (cstep cfg3)\<^sup>*\<^sup>* run12 c' \<and> answers c' = answers run12 @ [(set_req, Inr (len M, t))] \<and>
    (\<forall>j \<in> set (members cfg3). Log (nodes c' j) = M @ [req_entry set_req (len M) t] \<and> LastApplied (nodes c' j) = len M \<and>
       KVStore (nodes c' j) = apply_entry (req_entry set_req (len M) t) (fold apply_entry M NewStore))"
proof -
  have "CurrentTerm (nodes run12 ''n1'') \<le> 1" "CurrentTerm (nodes run12 ''n2'') \<le> 1" "CurrentTerm (nodes run12 ''n3'') \<le> 1"
    by code_simp+
  then have "\<forall>j \<in> set (members cfg3). CurrentTerm (nodes run12 j) < max_int"
    by (simp add: members_cfg3 max_int_def)
  moreover have "2 \<le> length (members cfg3)" by code_simp
  ultimately show ?thesis by (intro cluster_can_answer [OF good_cfg3 _ run12_reachable])
qed

end
