(* ===== verification/Well_Formed.thy ===== *)
theory Well_Formed
  imports Progress
begin

text \<open>
  Types that Go does not express: what the fields of a node, the records of its journal and the calls in
  the network can hold. Terms are numbers from 0 to the greatest \<^verbatim>\<open>int\<close>, votes are members, the keys of a
  leader's two index maps are exactly its peers. Each operation keeps this; the checks are one lemma for
  each, collected in \<open>wf_ops\<close>.
\<close>

named_theorems wf_ops "operations that keep a node well-formed"

definition wf_term :: "int \<Rightarrow> bool" where
  "wf_term t \<longleftrightarrow> 0 \<le> t \<and> t \<le> max_int"

definition wf_vote :: "config \<Rightarrow> string \<Rightarrow> bool" where
  "wf_vote cfg v \<longleftrightarrow> v = '''' \<or> v \<in> set (members cfg)"

definition wf_record :: "config \<Rightarrow> WALRecord \<Rightarrow> bool" where
  "wf_record cfg r \<longleftrightarrow> (rec_Type r = RecordState \<longrightarrow> wf_term (rec_Term r) \<and> wf_vote cfg (rec_VotedFor r))"

text \<open>The keys of an index map are among the peers, and all of them on a leader.\<close>

definition wf_index :: "string set \<Rightarrow> bool \<Rightarrow> (string, int) go_map \<Rightarrow> bool" where
  "wf_index P lead m \<longleftrightarrow> go_map_inv m \<and> fst ` set m \<subseteq> P \<and> (lead \<longrightarrow> P \<subseteq> fst ` set m)"

definition wf_node :: "config \<Rightarrow> node \<Rightarrow> bool" where
  "wf_node cfg n \<longleftrightarrow> wf_term (CurrentTerm n) \<and> wf_vote cfg (VotedFor n) \<and> list_all (wf_record cfg) (records n) \<and>
     wf_index (fst ` set (Peers n)) (State n = Leader) (NextIndex n) \<and>
     wf_index (fst ` set (Peers n)) (State n = Leader) (MatchIndex n)"

fun wf_msg :: "config \<Rightarrow> msg \<Rightarrow> bool" where
  "wf_msg cfg (RVReqM p req) \<longleftrightarrow> wf_term (rv_Term req) \<and> rv_CandidateID req \<in> set (members cfg)"
| "wf_msg cfg (RVRespM p req resp) \<longleftrightarrow> wf_term (rvr_Term resp)"
| "wf_msg cfg (AEReqM p rc req) \<longleftrightarrow> wf_term (ae_Term req) \<and> ae_LeaderID req \<in> set (members cfg)"
| "wf_msg cfg (AERespM p rc req resp) \<longleftrightarrow> wf_term (aer_Term resp)"

definition wf_cluster :: "config \<Rightarrow> cluster \<Rightarrow> bool" where
  "wf_cluster cfg c \<longleftrightarrow> (\<forall>i \<in> set (members cfg). wf_node cfg (nodes c i)) \<and> (\<forall>m \<in> set (net c). wf_msg cfg m)"

subsection \<open>Parts\<close>

lemma wf_term_max: "wf_term s \<Longrightarrow> wf_term t \<Longrightarrow> wf_term (max s t)"
  by (simp add: max_def)

lemma wf_vote_empty [simp]: "wf_vote cfg ''''"
  by (simp add: wf_vote_def)

lemma wf_records [simp]:
  "wf_record cfg (state_record t v) \<longleftrightarrow> wf_term t \<and> wf_vote cfg v" "wf_record cfg (entry_record e)"
  "wf_record cfg (truncate_record k)" "wf_record cfg (commit_record k)"
  by (simp_all add: wf_record_def state_record_def entry_record_def truncate_record_def commit_record_def
      RecordState_def RecordEntry_def RecordTruncate_def RecordCommit_def)

lemma wf_wal_append [simp]:
  "list_all (wf_record cfg) (j_records j) \<Longrightarrow> wf_record cfg r \<Longrightarrow> list_all (wf_record cfg) (j_records (wal_append r j))"
  by (simp add: wal_append_def)

lemma wf_index_update: "wf_index P lead m \<Longrightarrow> p \<in> P \<Longrightarrow> wf_index P lead (AList.update p v m)"
  by (auto simp: wf_index_def dom_update)

lemma wf_index_weaken [intro]: "wf_index P lead m \<Longrightarrow> wf_index P False m"
  by (simp add: wf_index_def)

lemma keys_fold_update: "fst ` set (fold (\<lambda>id. AList.update id v) ids m) = fst ` set m \<union> set ids"
  by (induction ids arbitrary: m) (auto simp: dom_update)

lemma wf_index_leader:
  "wf_index (set ids) lead m \<Longrightarrow> wf_index (set ids) True (fold (\<lambda>id. AList.update id v) ids m)"
  by (auto simp: wf_index_def keys_fold_update go_map_inv_fold_update)

subsection \<open>Operations\<close>

lemma wf_resetElectionTimer [wf_ops]: "wf_node cfg n \<Longrightarrow> wf_node cfg (resetElectionTimer n)"
  by (simp add: wf_node_def node_simps)

lemma wf_stepDown [wf_ops]: "wf_node cfg n \<Longrightarrow> wf_term t \<Longrightarrow> wf_node cfg (stepDown t n)"
  by (auto simp: wf_node_def node_simps)

lemma wf_becomeLeader [wf_ops]: "wf_node cfg n \<Longrightarrow> wf_node cfg (becomeLeader n)"
proof (cases "State n = Leader")
  case False
  assume "wf_node cfg n"
  then show ?thesis
    using False wf_index_leader [of "map fst (Peers n)"] by (auto simp: wf_node_def becomeLeader_def Let_def node_simps)
qed (simp add: becomeLeader_def)

lemma wf_election_begin [wf_ops]:
  assumes "wf_node cfg n" and "CurrentTerm n < max_int" and "ID n \<in> set (members cfg)"
  shows "wf_node cfg (fst (startElection_begin n))"
proof -
  have "wf_term (int64 (CurrentTerm n + 1))" using assms by (simp add: wf_node_def wf_term_def int64_succ)
  then show ?thesis
    using assms by (auto simp: startElection_begin_def Let_def node_simps wf_vote_def wf_node_def)
qed

lemma wf_election_rest [wf_ops]:
  "wf_node cfg n \<Longrightarrow> wf_term (rvr_Term resp) \<Longrightarrow> wf_node cfg (fst (startElection_reply el resp n))"
  "wf_node cfg n \<Longrightarrow> wf_node cfg (fst (startElection_count el n))"
  "wf_node cfg n \<Longrightarrow> wf_node cfg (startElection_finish el n)"
  by (simp_all add: startElection_reply_def startElection_count_def startElection_finish_def Let_def wf_ops)

lemma wf_HandleRequestVote [wf_ops]:
  assumes "wf_node cfg n" and "wf_term (rv_Term req)" and "rv_CandidateID req \<in> set (members cfg)"
  shows "wf_node cfg (fst (HandleRequestVote req n)) \<and> wf_term (rvr_Term (snd (HandleRequestVote req n)))"
proof -
  have "wf_node cfg (fst (HandleRequestVote req n))"
    using assms by (auto simp: HandleRequestVote_def Let_def node_simps wf_node_def wf_vote_def)
  moreover have "rvr_Term (snd (HandleRequestVote req n)) = max (CurrentTerm n) (rv_Term req)"
    using HandleRequestVote_frame(4,5) [OF prod.collapse [symmetric], of req n] by simp
  ultimately show ?thesis using assms(1,2) by (simp add: wf_node_def wf_term_max)
qed

lemma wf_log_ops [wf_ops]:
  "wf_node cfg n \<Longrightarrow> wf_node cfg (truncate_log k n)" "wf_node cfg n \<Longrightarrow> wf_node cfg (append_entry e n)"
  "wf_node cfg n \<Longrightarrow> wf_node cfg (follow_commit req n)"
  by (simp_all add: truncate_log_def append_entry_def follow_commit_def Let_def wf_node_def node_simps)

lemma wf_append_new: "append_new idx es n = Inr n' \<Longrightarrow> wf_node cfg n \<Longrightarrow> wf_node cfg n'"
proof (induction idx es n rule: append_new.induct)
  case (2 idx entry rest n)
  have "wf_node cfg (fold append_entry es n)" if "wf_node cfg n" for es n
    using that by (induction es arbitrary: n) (simp_all add: wf_ops)
  then show ?case
    using 2 wf_log_ops(1,2) by (auto simp: go_bind_Inr_iff simp del: fold_simps split: if_splits)
qed simp

lemma wf_HandleAppendEntries:
  assumes "HandleAppendEntries req n = Inr (n', resp)" and "wf_node cfg n" and "wf_term (ae_Term req)"
  shows "wf_node cfg n'" and "wf_term (aer_Term resp)"
proof -
  have a: "wf_node cfg (accept_term req n)" using assms(2,3) by (auto simp: wf_node_def accept_term_def node_simps)
  have c: "wf_node cfg n1" if "check_prev req (accept_term req n) \<in> {Inl n1, Inr n1}" for n1
    using that a by (auto simp: check_prev_def Let_def wf_ops split: if_splits)
  show "wf_node cfg n'"
    using assms(1,2) c wf_append_new wf_log_ops(3) unfolding HandleAppendEntries_def
    by (auto simp: go_bind_Inr_iff Let_def split: if_splits sum.splits)
  show "wf_term (aer_Term resp)"
    using HandleAppendEntries_terms(1,2) [OF assms(1)] assms(2,3) by (simp add: wf_node_def wf_term_max)
qed

lemma wf_advance: "advance_from N n = Inr n' \<Longrightarrow> wf_node cfg n \<Longrightarrow> wf_node cfg n'"
  using advance_from_result [of N n n'] by (auto simp: wf_node_def node_simps)

lemma wf_reply:
  assumes "replicateToPeer_reply rc req resp n = Inr n'" and "wf_node cfg n" and "wf_term (aer_Term resp)"
    and "rc_peer rc \<in> fst ` set (Peers n)"
  shows "wf_node cfg n'"
proof -
  have next_index: "wf_node cfg (n\<lparr>NextIndex := AList.update (rc_peer rc) v (NextIndex n)\<rparr>)" for v
    using assms(2,4) by (simp add: wf_node_def wf_index_update)
  have "wf_node cfg (n\<lparr>MatchIndex := AList.update (rc_peer rc) u (MatchIndex n), NextIndex := AList.update (rc_peer rc) v (NextIndex n)\<rparr>)" for u v
    using assms(2,4) by (simp add: wf_node_def wf_index_update)
  then show ?thesis
    using assms(1-3) next_index wf_advance wf_stepDown [of cfg n "aer_Term resp"]
    unfolding replicateToPeer_reply_def advanceCommitIndex_def Let_def by (auto split: if_splits)
qed

lemma wf_client [wf_ops]:
  "Submit b req n = Some (n', err) \<Longrightarrow> wf_node cfg n \<Longrightarrow> wf_node cfg n'"
  "clientHandler_take b n = Some (n', req) \<Longrightarrow> wf_node cfg n \<Longrightarrow> wf_node cfg n'"
  "wf_node cfg n \<Longrightarrow> wf_node cfg (fst (handleClientReq_begin req n))"
  by (auto simp: Submit_def clientHandler_take_def handleClientReq_begin_def wf_ops split: if_splits list.splits)
    (auto simp: wf_node_def)

lemma wf_apply:
  assumes "applied_ok n" and "applyLoop_turn ticker n = Inr n'" and "wf_node cfg n"
  shows "wf_node cfg n'"
  using assms applyCommittedEntries_result [OF assms(1)] applyCommittedEntries_result [of "n\<lparr>applyNotify := False\<rparr>"]
  by (auto simp: applyLoop_turn_def applied_ok_def wf_node_def split: if_splits)

lemma wf_replay:
  "list_all (wf_record cfg) rs \<Longrightarrow> wf_term (p_term p) \<and> wf_vote cfg (p_vote p) \<Longrightarrow>
   wf_term (p_term (fold persist_replay rs p)) \<and> wf_vote cfg (p_vote (fold persist_replay rs p))"
proof (induction rs arbitrary: p)
  case (Cons r rs)
  then have "wf_term (p_term (persist_replay r p)) \<and> wf_vote cfg (p_vote (persist_replay r p))"
    by (auto simp: persist_replay_defs wf_record_def Let_def split: option.splits)
  then show ?case using Cons by simp
qed simp

lemma wf_restart: "list_all (wf_record cfg) (records n) \<Longrightarrow> wf_node cfg (restart n)"
  using wf_replay [of cfg "records n" persist0]
  by (simp add: wf_node_def restart_eq initial_node_def journal_state_def persist0_def wf_term_def wf_index_def max_int_def)

subsection \<open>Steps of the cluster\<close>

lemma wf_upd: "wf_cluster cfg c \<Longrightarrow> wf_node cfg n \<Longrightarrow> wf_cluster cfg (upd i n c)"
  by (simp add: wf_cluster_def upd_def)

lemma wf_send: "wf_cluster cfg c \<Longrightarrow> list_all (wf_msg cfg) ms \<Longrightarrow> wf_cluster cfg (send ms c)"
  by (auto simp: wf_cluster_def send_def list_all_iff)

lemma wf_other_fields: "nodes c' = nodes c \<Longrightarrow> net c' = net c \<Longrightarrow> wf_cluster cfg c \<Longrightarrow> wf_cluster cfg c'"
  by (simp add: wf_cluster_def)

lemma wf_set_election: "wf_cluster cfg (set_election i t r c) \<longleftrightarrow> wf_cluster cfg c"
  by (simp add: wf_cluster_def set_election_def)

lemma wf_crash:
  assumes "wf_cluster cfg c" and "list_all (wf_record cfg) (records (nodes c i))"
  shows "wf_cluster cfg (do_crash i c)"
  using wf_upd [OF assms(1) wf_restart [OF assms(2)]]
  by (rule wf_other_fields [rotated 2]) (simp_all add: do_crash_def)

lemma wf_crash_during:
  assumes "wf_cluster cfg c" and "wf_node cfg n'" and "p \<in> set (members cfg)"
  shows "wf_cluster cfg (do_crash_during p n' k c)"
proof -
  let ?n = "(nodes c p)\<lparr>wal := (wal n')\<lparr>j_records := take k (records n')\<rparr>\<rparr>"
  have r: "list_all (wf_record cfg) (take k (records n'))"
    using assms(2) by (auto simp: wf_node_def list_all_iff dest: in_set_takeD)
  have "wf_node cfg (nodes c p)" using assms(1,3) by (simp add: wf_cluster_def)
  then have "wf_node cfg ?n" using r by (simp add: wf_node_def)
  then show ?thesis
    unfolding do_crash_during_def using wf_upd [OF assms(1)] r by (intro wf_crash) (simp_all add: upd_def)
qed

text \<open>What is known of a member before a step.\<close>

lemma wf_member:
  assumes "cluster_rel cfg c a" and "wf_cluster cfg c" and "i \<in> set (members cfg)"
  shows "wf_node cfg (nodes c i)" and "ID (nodes c i) = i" and "Peers (nodes c i) = peers_of cfg i" and "applied_ok (nodes c i)"
  using cluster_relD(3) [OF assms(1,3)] assms(2,3) by (simp_all add: node_ok_def wf_cluster_def)

lemma wf_in_net: "wf_cluster cfg c \<Longrightarrow> m \<in> set (net c) \<Longrightarrow> wf_msg cfg m"
  by (simp add: wf_cluster_def)

lemma wf_cluster_timeout:
  assumes rel: "cluster_rel cfg c a" and wf: "wf_cluster cfg c" and i: "i \<in> set (members cfg)" and lt: "CurrentTerm (nodes c i) < max_int"
  shows "wf_cluster cfg (do_timeout i c)"
proof -
  note n = wf_member [OF rel wf i]
  obtain n' el where b: "startElection_begin (nodes c i) = (n', el)" by fastforce
  have n': "wf_node cfg n'" using wf_election_begin [OF n(1) lt] i n(2) b by simp
  have "wf_msg cfg (RVReqM p (vote_request (ID n') e))" if "el = Some e" for p e
    using that b n' i n(2)
    by (auto simp: startElection_begin_def Let_def vote_request_def wf_node_def node_simps split: if_splits)
  then show ?thesis
    using wf_upd [OF wf n', of i] b
    by (auto simp: do_timeout_def wf_set_election list_all_iff intro!: wf_send split: option.splits)
qed

lemma wf_cluster_votes:
  assumes rel: "cluster_rel cfg c a" and wf: "wf_cluster cfg c" and i: "i \<in> set (members cfg)"
  shows "RVReqM i req \<in> set (net c) \<Longrightarrow> wf_cluster cfg (do_handle_rv i req c)"
    and "RVRespM p rv resp \<in> set (net c) \<Longrightarrow> wf_cluster cfg (do_vote_reply i t r p resp c)"
    and "wf_cluster cfg (do_vote_failed i t r p c)" and "wf_cluster cfg (do_vote_count i t r p c)"
    and "wf_cluster cfg (do_election_finish i t r c)"
  using wf_HandleRequestVote [OF wf_member(1) [OF assms], of req] wf_in_net [OF wf, of "RVReqM i req"]
    wf_election_rest [OF wf_member(1) [OF assms]] wf_in_net [OF wf, of "RVRespM p rv resp"] wf
  by (auto simp: do_handle_rv_def do_vote_reply_def do_vote_failed_def do_vote_count_def do_election_finish_def
      case_prod_unfold Let_def wf_set_election intro!: wf_send wf_upd [OF wf])

lemma wf_cluster_replicate:
  assumes rel: "cluster_rel cfg c a" and wf: "wf_cluster cfg c" and i: "i \<in> set (members cfg)"
    and "replicateToPeer_request rc (nodes c i) = Some req"
  shows "wf_cluster cfg (send [AEReqM (rc_peer rc) rc req] c)"
  using wf_member [OF rel wf i] i assms(4)
  by (intro wf_send [OF wf]) (auto simp: replicateToPeer_request_def Let_def wf_node_def split: if_splits)

lemma wf_cluster_handle_ae:
  assumes rel: "cluster_rel cfg c a" and wf: "wf_cluster cfg c" and p: "p \<in> set (members cfg)"
    and m: "AEReqM p rc req \<in> set (net c)" and "do_handle_ae p rc req c = Inr c'"
  shows "wf_cluster cfg c'"
proof -
  obtain n' resp where h: "HandleAppendEntries req (nodes c p) = Inr (n', resp)"
    and c': "c' = send [AERespM p rc req resp] (upd p n' c)"
    using assms(5) by (auto simp: do_handle_ae_def go_bind_Inr_iff)
  then show ?thesis
    using wf_HandleAppendEntries [OF h wf_member(1) [OF rel wf p]] wf_in_net [OF wf m]
    by (auto simp: c' intro!: wf_send wf_upd [OF wf])
qed

lemma wf_cluster_ae_reply:
  assumes rel: "cluster_rel cfg c a" and good: "good_config cfg" and wf: "wf_cluster cfg c" and i: "ae_LeaderID req \<in> set (members cfg)"
    and m: "AERespM p rc req resp \<in> set (net c)" and h: "replicateToPeer_reply rc req resp (nodes c (ae_LeaderID req)) = Inr n'"
  shows "wf_cluster cfg (upd (ae_LeaderID req) n' c)"
proof -
  note n = wf_member [OF rel wf i]
  have "rc_peer rc \<in> set (members cfg) - {ae_LeaderID req}" using cluster_relD(5) [OF rel m] by (auto simp: call_ok_def)
  then have "rc_peer rc \<in> fst ` set (Peers (nodes c (ae_LeaderID req)))"
    using peers_of_members(1) [OF good i] n(3) by simp
  then show ?thesis using wf_reply [OF h n(1)] wf_in_net [OF wf m] by (intro wf_upd [OF wf]) simp
qed

lemma wf_cluster_client:
  assumes rel: "cluster_rel cfg c a" and wf: "wf_cluster cfg c" and i: "i \<in> set (members cfg)"
  shows "wf_cluster cfg (do_submit i req c)" and "wf_cluster cfg (do_take i c)" and "wf_cluster cfg (do_poll i late req idx t c)"
    and "wf_cluster cfg (do_heartbeat i c)"
proof -
  note n = wf_member(1) [OF rel wf i]
  have "wf_node cfg n2" if "clientHandler_take False (nodes c i) = Some (n1, r)" "handleClientReq_begin r n1 = (n2, x)" for n1 n2 r x
    using wf_client(3) [OF wf_client(2) [OF that(1) n], of r] that(2) by simp
  then show "wf_cluster cfg (do_take i c)"
    using wf by (auto simp: do_take_def intro: wf_other_fields [OF _ _ wf_upd [OF wf]] split: option.splits prod.splits sum.splits)
  show "wf_cluster cfg (do_submit i req c)"
    using wf_client(1) [OF _ n, of False req] wf_upd [OF wf] wf
    by (auto simp: do_submit_def intro: wf_other_fields [OF _ _ wf_upd [OF wf]] split: option.splits)
  show "wf_cluster cfg (do_poll i late req idx t c)" "wf_cluster cfg (do_heartbeat i c)"
    using wf by (auto simp: do_poll_def do_heartbeat_def intro: wf_other_fields split: option.splits)
qed

lemma wf_cluster_crash:
  assumes rel: "cluster_rel cfg c a" and wf: "wf_cluster cfg c" and p: "p \<in> set (members cfg)"
  shows "wf_cluster cfg (do_crash p c)"
    and "RVReqM p req \<in> set (net c) \<Longrightarrow> HandleRequestVote req (nodes c p) = (n', resp) \<Longrightarrow> wf_cluster cfg (do_crash_during p n' k c)"
    and "AEReqM p rc ae \<in> set (net c) \<Longrightarrow> HandleAppendEntries ae (nodes c p) = Inr (n', aer) \<Longrightarrow>
      wf_cluster cfg (do_crash_during p n' k c)"
proof -
  note n = wf_member(1) [OF assms]
  show "wf_cluster cfg (do_crash p c)" using n by (intro wf_crash [OF wf]) (simp add: wf_node_def)
  show "wf_cluster cfg (do_crash_during p n' k c)" if "RVReqM p req \<in> set (net c)" "HandleRequestVote req (nodes c p) = (n', resp)"
    using wf_HandleRequestVote [OF n, of req] wf_in_net [OF wf that(1)] that(2) by (intro wf_crash_during [OF wf _ p]) simp
  show "wf_cluster cfg (do_crash_during p n' k c)" if "AEReqM p rc ae \<in> set (net c)" "HandleAppendEntries ae (nodes c p) = Inr (n', aer)"
    using wf_HandleAppendEntries(1) [OF that(2) n] wf_in_net [OF wf that(1)] by (intro wf_crash_during [OF wf _ p]) simp
qed

lemma wf_cluster_apply:
  assumes rel: "cluster_rel cfg c a" and wf: "wf_cluster cfg c" and i: "i \<in> set (members cfg)"
    and "applyLoop_turn ticker (nodes c i) = Inr n'"
  shows "wf_cluster cfg (upd i n' c)"
  by (rule wf_upd [OF wf wf_apply [OF wf_member(4) [OF rel wf i] assms(4) wf_member(1) [OF rel wf i]]])

lemmas wf_cluster_ops = wf_cluster_timeout wf_cluster_votes wf_cluster_replicate wf_cluster_handle_ae wf_cluster_client
  wf_cluster_crash wf_cluster_apply

lemma wf_step:
  assumes "cluster_rel cfg c a" and "good_config cfg" and "wf_cluster cfg c" and "cstep cfg c c'"
  shows "wf_cluster cfg c'"
  using assms(4) by cases (auto intro: wf_cluster_ops [OF assms(1,3)] wf_cluster_ae_reply [OF assms(1-3)])

lemma reachable_wf:
  assumes "good_config cfg" and "reachable cfg c"
  shows "wf_cluster cfg c"
  using assms(2) unfolding reachable_def
proof (induction rule: rtranclp_induct)
  case base
  have "wf_node cfg (start_node cfg i)" for i
    unfolding start_node_restart by (rule wf_restart) (simp add: initial_node_def)
  then show ?case by (simp add: wf_cluster_def start_cluster_def)
next
  case (step d e)
  then have "reachable cfg d" by (simp add: reachable_def)
  then obtain a where "cluster_rel cfg d a" by (rule reachable_related [OF assms(1)])
  then show ?case using wf_step assms(1) step by blast
qed

subsection \<open>Property\<close>

text \<open>
  C14: members and calls are well-formed. In every reachable cluster each member has its own name, the
  address of the configuration and the other members as its peers; its store is a map without
  duplicate keys; its term fits an \<^verbatim>\<open>int\<close>, and so do the terms of the vote records in its journal and of all
  calls and replies in the network; it voted for nobody or for a member; \<^verbatim>\<open>NextIndex\<close> and \<^verbatim>\<open>MatchIndex\<close> are maps
  on its peers, and on all of them when it is leader, so that no lookup there gives a default.
\<close>

theorem members_well_formed:
  assumes "good_config cfg" and "reachable cfg c"
  shows "(\<forall>i \<in> set (members cfg). let n = nodes c i; P = set (members cfg) - {i}
      in ID n = i \<and> Addr n = go_get cfg i '''' \<and> fst ` set (Peers n) = P \<and> store_inv (KVStore n) \<and>
         wf_term (CurrentTerm n) \<and> wf_vote cfg (VotedFor n) \<and> list_all (wf_record cfg) (records n) \<and>
         wf_index P (State n = Leader) (NextIndex n) \<and> wf_index P (State n = Leader) (MatchIndex n)) \<and>
    (\<forall>m \<in> set (net c). wf_msg cfg m)"
proof -
  have wf: "wf_cluster cfg c" by (rule reachable_wf [OF assms])
  have "let n = nodes c i; P = set (members cfg) - {i}
      in ID n = i \<and> Addr n = go_get cfg i '''' \<and> fst ` set (Peers n) = P \<and> store_inv (KVStore n) \<and>
         wf_term (CurrentTerm n) \<and> wf_vote cfg (VotedFor n) \<and> list_all (wf_record cfg) (records n) \<and>
         wf_index P (State n = Leader) (NextIndex n) \<and> wf_index P (State n = Leader) (MatchIndex n)"
    if i: "i \<in> set (members cfg)" for i
  proof -
    obtain a where a: "cluster_rel cfg c a" by (rule reachable_related [OF assms])
    have ok: "ID (nodes c i) = i" "Peers (nodes c i) = peers_of cfg i" "store_inv (KVStore (nodes c i))"
      using cluster_relD(3) [OF a i] run_log_inv by (simp_all add: node_ok_def applied_ok_def)
    have "grows (nodes (start_cluster cfg) i) (nodes c i)"
      using assms by (intro grows_steps) (simp_all add: reachable_def)
    then have "Addr (nodes c i) = go_get cfg i ''''"
      by (simp add: grows_def start_cluster_def start_node_restart restart_eq initial_node_def)
    moreover have P: "set (members cfg) - {i} = fst ` set (Peers (nodes c i))"
      using ok(2) peers_of_members(1) [OF assms(1) i] by simp
    moreover have "wf_node cfg (nodes c i)" using wf i by (simp add: wf_cluster_def)
    ultimately show ?thesis unfolding P using ok(1,3) by (simp add: wf_node_def Let_def)
  qed
  then show ?thesis using wf by (simp add: wf_cluster_def)
qed

theorem members_well_formed_witness:
  "store_inv (KVStore (nodes run12 ''n1'')) \<and> wf_index {''n2'', ''n3''} True (NextIndex (nodes run12 ''n1''))"
proof -
  have "let n = nodes run12 ''n1''; P = set (members cfg3) - {''n1''}
      in ID n = ''n1'' \<and> Addr n = go_get cfg3 ''n1'' '''' \<and> fst ` set (Peers n) = P \<and> store_inv (KVStore n) \<and>
         wf_term (CurrentTerm n) \<and> wf_vote cfg3 (VotedFor n) \<and> list_all (wf_record cfg3) (records n) \<and>
         wf_index P (State n = Leader) (NextIndex n) \<and> wf_index P (State n = Leader) (MatchIndex n)"
    by (rule bspec [OF conjunct1 [OF members_well_formed [OF good_cfg3 run12_reachable]]]) (simp add: members_cfg3)
  moreover have "set (members cfg3) - {''n1''} = {''n2'', ''n3''}" by (auto simp: members_cfg3)
  ultimately show ?thesis by (simp add: Let_def run12_state(1))
qed

end
