(* ===== verification/Spec2Isabelle.thy ===== *)
theory Spec2Isabelle
  imports Split_Brain Orrisctl_Session Reads Shutdown Availability Well_Formed
begin

text \<open>
  Verification of Orris, a replicated key-value store in Go (\<^verbatim>\<open>src/\<close>).

  \<^bold>\<open>The program.\<close> A daemon (\<^verbatim>\<open>cmd/orrisd\<close>) runs one node of a Raft cluster: the consensus code
  (\<^verbatim>\<open>internal/raft\<close>), its write-ahead log (\<^verbatim>\<open>internal/storage\<close>), its store (\<^verbatim>\<open>internal/kv\<close>), the remote
  calls between nodes (\<^verbatim>\<open>internal/transport\<close>) and a text protocol for clients (\<^verbatim>\<open>internal/client\<close>). A control
  tool (\<^verbatim>\<open>cmd/orrisctl\<close>) starts and stops daemons, routes commands to the leader and shows the state of
  the cluster. A node's goroutines share its state under a mutex and release it while they wait for
  a reply; the model has one definition for each section between two releases.

  \<^bold>\<open>Theories and sources.\<close>
  \<^item> \<open>Prelude\<close>, \<open>Go_Strings\<close>, \<open>Go_Os\<close>: panics as values, 64-bit wrap-around, Go maps; \<^verbatim>\<open>strings\<close>,
    \<^verbatim>\<open>strconv\<close>, \<^verbatim>\<open>bufio\<close>, \<^verbatim>\<open>flag\<close> and \<^verbatim>\<open>path/filepath\<close> as far as the programs use them.
  \<^item> \<open>Kv_Store\<close>: \<^verbatim>\<open>kv/store.go\<close>. \<open>State_Machine\<close>: \<^verbatim>\<open>raft/apply.go\<close> and what one entry does to the store.
  \<^item> \<open>Wal_Format\<close>, \<open>Wal\<close>, \<open>Gob\<close>, \<open>Wal_Recovery\<close>: \<^verbatim>\<open>storage/wal.go\<close>, byte by byte with the CRC-32, file
    offsets and faults. The encoder is an argument with the documented law that decoding gives back
    what was encoded; \<open>Gob\<close> is a codec written after the documentation that satisfies it.
  \<^item> \<open>Rpc\<close>: \<^verbatim>\<open>transport/rpc.go\<close> and both ends of a call of \<^verbatim>\<open>transport/tcp.go\<close>.
  \<^item> \<open>Raft_State\<close>, \<open>Election\<close>, \<open>Replication\<close>, \<open>Client_Request\<close>, \<open>Recovery\<close>: \<^verbatim>\<open>raft/state.go\<close>,
    \<^verbatim>\<open>election.go\<close>, \<^verbatim>\<open>replication.go\<close>, \<^verbatim>\<open>client.go\<close>, \<^verbatim>\<open>node.go\<close>. The record \<open>node\<close> is the struct \<^verbatim>\<open>Node\<close>, its
    log file the list of records that reached it.
  \<^item> \<open>Handlers\<close>, \<open>Durability\<close>: what the two handlers of remote calls do on every branch, and what a node's
    records say about it across restarts.
  \<^item> \<open>Client_Server\<close>: \<^verbatim>\<open>client/server.go\<close>. \<open>Daemon\<close>: \<^verbatim>\<open>cmd/orrisd/main.go\<close> and the accept loops.
  \<^item> \<open>Orrisctl\<close> (queries, routing, command lines), \<open>Orrisctl_Main\<close> (which command is run),
    \<open>Orrisctl_Process\<close> (processes and pid files), \<open>Orrisctl_Display\<close> (tables), \<open>Orrisctl_Report\<close> (what starting,
    stopping and killing prints), \<open>Orrisctl_Dashboard\<close> (dashboard, demonstration, benchmark),
    \<open>Orrisctl_Session\<close> (a whole run of the tool, from its arguments and its input to its output, its exit status
    and the processes it leaves): \<^verbatim>\<open>cmd/orrisctl/main.go\<close>.
  \<^item> \<open>Cluster\<close>: nodes that run the program, as a step relation. \<open>Sample_Run\<close> and \<open>Scenario\<close>: runs that are
    evaluated step by step.
  \<^item> \<open>Raft_Spec\<close>, \<open>Raft_Safety\<close>: an abstract transition system of the protocol with its history, and the
    invariants it keeps. \<open>Simulation\<close>, \<open>Refinement\<close>, \<open>Refinement_Election\<close>, \<open>Refinement_Append\<close>,
    \<open>Crash_Points\<close>, \<open>Safety\<close>: the relation between the two, one lemma for each step of the cluster, and
    what follows for the cluster. \<open>Well_Formed\<close>: what every member's fields satisfy. \<open>Single_Node\<close>, \<open>Progress\<close>,
    \<open>Availability\<close>, \<open>Split_Brain\<close>: further properties of runs. \<open>Reads\<close>: what clients of the text protocol read
    from a cluster. \<open>Shutdown\<close>: clusters whose nodes may also be stopped gracefully.

  \<^bold>\<open>Interfaces.\<close> \<open>kv_map\<close> (the store as a map), \<open>log_machine\<close> (a state machine driven by a log), \<open>journal\<close>
  with \<open>gob\<close> (an append adds one record to what is read back), \<open>rpc_handler\<close> (what a handler owes its caller)
  and \<open>quorum_system\<close> (two majorities meet) are locales, each interpreted on the program's definitions.

  \<^bold>\<open>What is shown.\<close> For every reachable cluster, with any interleaving, lost, late and repeated calls, and
  crashes also between two records of a handler: one leader per term, committed entries and answers
  to clients that stay, leaders that have them, logs that match, stores that never diverge, no
  panic, indexes in their bounds, terms and commit indexes that never go back; every cluster
  corresponds to a reachable state of the abstract protocol. The commit scan finds the greatest entry
  a majority has, undisturbed rounds bring a follower's log up to date, and from every reachable cluster
  some run answers a new request and ends with equal logs and stores on all members. For the log file: what was
  appended is read back, a torn append loses at most itself, damage is detected, and what is
  appended behind damage is lost. For the daemon: what the tool starts is the initial cluster, up to a thousand nodes, and a
  daemon started again on its file is the crash step of the cluster. For the text protocol and the
  tool: an acknowledged write is read at every member that has applied it, queries read back what nodes hold,
  a \<^verbatim>\<open>set\<close> at the prompt becomes that proposal, the tables show every key, log entry and record, \<^verbatim>\<open>orrisctl stop\<close>
  undoes \<^verbatim>\<open>orrisctl start\<close> for twenty nodes, the benchmark ends and counts right, and no arguments and no
  input at the prompt make the tool panic.
  Properties that state a defect are listed as findings: a cluster of one node
  never commits, a leader that was replaced answers reads with old values, a node that is stopped gracefully
  votes without keeping it, so that two leaders of one term can answer, records behind damage are
  lost, a negative \<^verbatim>\<open>PrevLogIndex\<close> panics, \<^verbatim>\<open>spawn\<close> can split a cluster, nodes \<open>j\<close> and \<open>1000 + j\<close>
  share an address, an entry that was never committed is shown
  as committed.

  \<^bold>\<open>Bounds and assumptions.\<close> Loops are structural or have a measure; only the refreshing dashboard, which
  runs until it is interrupted, is given by its first turns (\<open>dashboard_loop\<close>). Terms stay
  below the largest \<^verbatim>\<open>int\<close>: a step that would exceed it is not in the step relation. In the cluster a
  record reaches the disk whole or not at all and appending succeeds; torn and damaged records are
  in \<open>Wal_Recovery\<close>, a closed log in \<open>Durability\<close> and \<open>Shutdown\<close>. A cluster's members agree on one configuration
  (\<open>Split_Brain\<close> is what happens when they do not) and its nodes are not stopped gracefully (\<open>Shutdown\<close> is what
  happens when they are). Messages are never removed from the network, so every loss, delay and
  repetition is covered. Timers may fire at any time. Paths are those of a system with slashes. Listening
  succeeds on loopback ports that are not reserved or taken, and fails on a taken one (\<open>tcp_listen\<close>).

  \<^bold>\<open>Not modelled.\<close> What goes to standard error and to the log output, durations (a printed latency is an argument),
  letters outside ASCII in command words beyond what their comparison needs, and the static pages
  \<^verbatim>\<open>index.html\<close> and \<^verbatim>\<open>web/index.html\<close>.
\<close>

subsection \<open>Consensus\<close>

text \<open>
  C1: election safety. In every reachable cluster, with any interleaving of timeouts, votes, counted
  replies, late and repeated calls and crashes, no two members are leader in the same term.
\<close>

theorem election_safety:
  assumes "good_config cfg" and "reachable cfg c"
    and "i \<in> set (members cfg)" and "j \<in> set (members cfg)"
    and "State (nodes c i) = Leader" and "State (nodes c j) = Leader"
    and "CurrentTerm (nodes c i) = CurrentTerm (nodes c j)"
  shows "i = j"
proof -
  obtain a where a: "cluster_rel cfg c a" by (rule reachable_related [OF assms(1,2)])
  note d = cluster_relD [OF a]
  show ?thesis
    using d(2) [OF assms(3)] d(2) [OF assms(4)] assms(5-7)
    by (intro abstract_election_safety [OF d(1) assms(3,4)]) simp_all
qed

theorem election_safety_witness:
  "State (nodes run12 ''n1'') = Leader \<and> CurrentTerm (nodes run12 ''n2'') = CurrentTerm (nodes run12 ''n1'') \<and>
   State (nodes run12 ''n2'') \<noteq> Leader"
  using election_safety [OF good_cfg3 run12_reachable, of "''n1''" "''n2''"] run12_state(1,3) run12_nodes(1)
  by (auto simp: members_cfg3 replicated_def)

text \<open>
  C2: state machine safety. What one member has committed and what any member has committed at any
  later time agree entry by entry as far as both reach: committed entries are never lost, replaced or
  reordered, on the same node or across nodes and crashes.
\<close>

theorem committed_entries_agree:
  assumes "good_config cfg" and "reachable cfg c" and "(cstep cfg)\<^sup>*\<^sup>* c c'"
    and "i \<in> set (members cfg)" and "j \<in> set (members cfg)"
    and "0 \<le> k" and "k \<le> CommitIndex (nodes c i)" and "k \<le> CommitIndex (nodes c' j)"
  shows "nat k < length (Log (nodes c i)) \<and> nat k < length (Log (nodes c' j)) \<and>
    Log (nodes c i) ! nat k = Log (nodes c' j) ! nat k"
proof -
  obtain a a' where a: "cluster_rel cfg c a" "cluster_rel cfg c' a'" "hist_le a a'"
    by (rule reachable_later [OF assms(1-3)])
  have 1: "commit_ok (members cfg) a' (CurrentTerm (nodes c i)) (Log (nodes c i)) (CommitIndex (nodes c i))"
    by (rule commit_ok_mono [OF a(3) node_commit_ok [OF a(1) assms(4)] order_refl])
  note 2 = node_commit_ok [OF a(2) assms(5)]
  have "take (nat (k + 1)) (Log (nodes c i)) = take (nat (k + 1)) (Log (nodes c' j))"
    by (rule commit_ok_agree [OF cluster_relD(1) [OF a(2)] 1 2 assms(7,8)])
  then have "Log (nodes c i) ! nat k = Log (nodes c' j) ! nat k"
    using assms(6) by (elim take_eq_nth) simp
  moreover have "k < len (Log (nodes c i))" "k < len (Log (nodes c' j))"
    using 1 2 assms(7,8) by (simp_all add: commit_ok_def)
  ultimately show ?thesis using assms(6) by auto
qed

theorem committed_entries_agree_witness:
  "Log (nodes run12 ''n1'') ! 0 = Log (nodes run12 ''n2'') ! 0 \<and> Log (nodes run12 ''n1'') \<noteq> []"
  using committed_entries_agree [OF good_cfg3 run12_reachable rtranclp.rtrancl_refl, of "''n1''" "''n2''" 0]
  by (auto simp: members_cfg3 run12_nodes)

text \<open>
  C4: leader completeness. An entry that some member has committed is in the log of every member
  that is leader, then or later, in the same or a higher term.
\<close>

theorem leader_has_committed:
  assumes "good_config cfg" and "reachable cfg c" and "(cstep cfg)\<^sup>*\<^sup>* c c'"
    and "i \<in> set (members cfg)" and "j \<in> set (members cfg)"
    and "0 \<le> k" and "k \<le> CommitIndex (nodes c i)"
    and "State (nodes c' j) = Leader" and "CurrentTerm (nodes c i) \<le> CurrentTerm (nodes c' j)"
  shows "nat k < length (Log (nodes c' j)) \<and> Log (nodes c' j) ! nat k = Log (nodes c i) ! nat k"
proof -
  obtain a a' where a: "cluster_rel cfg c a" "cluster_rel cfg c' a'" "hist_le a a'"
    by (rule reachable_later [OF assms(1-3)])
  have 1: "commit_ok (members cfg) a' (CurrentTerm (nodes c i)) (Log (nodes c i)) (CommitIndex (nodes c i))"
    by (rule commit_ok_mono [OF a(3) node_commit_ok [OF a(1) assms(4)] order_refl])
  note l = leader_log [OF a(2) assms(5,8)]
  have "elected a' (CurrentTerm (nodes c' j))" using l(1) by auto
  from commit_ok_committed [OF cluster_relD(1) [OF a(2)] 1 assms(6,7) this assms(9)]
  have t: "take (nat (k + 1)) (Log (nodes c i)) = take (nat (k + 1)) (Log (nodes c' j))"
    and k: "k < len (Log (nodes c' j))"
    using l(2) by simp_all
  then show ?thesis using take_eq_nth [OF t, of "nat k"] assms(6) by auto
qed

theorem leader_has_committed_witness:
  "Log (nodes run12 ''n1'') ! 0 = Log (nodes run12 ''n2'') ! 0 \<and> CommitIndex (nodes run12 ''n2'') = 0"
proof -
  have "CurrentTerm (nodes run12 ''n2'') = 1" using run12_state(3) by (simp add: replicated_def)
  then show ?thesis
    using leader_has_committed [OF good_cfg3 run12_reachable rtranclp.rtrancl_refl, of "''n2''" "''n1''" 0]
    by (simp add: members_cfg3 run12_nodes run12_state)
qed

text \<open>
  C3: client answers hold. When a client was told OK for a request at index \<open>idx\<close>, then every
  member that has committed that far has exactly this request there, and every leader of the
  answering term or a later one has it in its log, at any later time and after any crashes.
\<close>

theorem client_answer_holds:
  assumes "good_config cfg" and "reachable cfg c" and "(req, Inr (idx, t)) \<in> set (answers c)"
    and "j \<in> set (members cfg)"
    and "idx \<le> CommitIndex (nodes c j) \<or> State (nodes c j) = Leader \<and> t \<le> CurrentTerm (nodes c j)"
  shows "nat idx < length (Log (nodes c j)) \<and> Log (nodes c j) ! nat idx = req_entry req idx t"
  by (rule answer_in_log [OF assms])

theorem client_answer_holds_witness:
  "Log (nodes run12 ''n2'') ! 0 = req_entry set_req 0 1 \<and> (set_req, Inr (0, 1)) \<in> set (answers run12)"
  using client_answer_holds [OF good_cfg3 run12_reachable run12_state(4), of "''n2''"] run12_state(4)
  by (simp add: members_cfg3 run12_nodes)

text \<open>
  C9: log matching. If the logs of two members have an entry with the same term at some position,
  the logs are identical up to and with that position.
\<close>

theorem logs_match:
  assumes "good_config cfg" and "reachable cfg c"
    and "i \<in> set (members cfg)" and "j \<in> set (members cfg)"
    and "k < length (Log (nodes c i))" and "k < length (Log (nodes c j))"
    and "Term (Log (nodes c i) ! k) = Term (Log (nodes c j) ! k)"
  shows "take (Suc k) (Log (nodes c i)) = take (Suc k) (Log (nodes c j))"
proof -
  obtain a where a: "cluster_rel cfg c a" by (rule reachable_related [OF assms(1,2)])
  note d = cluster_relD [OF a]
  show ?thesis
    using d(2) [OF assms(3)] d(2) [OF assms(4)] assms(5-7)
      abstract_log_matching [OF d(1) assms(3,4), of k] by simp
qed

theorem logs_match_witness:
  "take 1 (Log (nodes run12 ''n1'')) = take 1 (Log (nodes run12 ''n2'')) \<and> length (Log (nodes run12 ''n1'')) = 1"
  using logs_match [OF good_cfg3 run12_reachable, of "''n1''" "''n2''" 0]
  by (simp add: members_cfg3 run12_nodes)

text \<open>
  C7: replicated state. The store of a member is the store of any member that had applied no more,
  at that time or earlier, after the entries in between: stores never diverge, and two members that
  applied equally many entries have the same store.
\<close>

theorem stores_never_diverge:
  assumes "good_config cfg" and "reachable cfg c" and "(cstep cfg)\<^sup>*\<^sup>* c c'"
    and "i \<in> set (members cfg)" and "j \<in> set (members cfg)"
    and "LastApplied (nodes c i) \<le> LastApplied (nodes c' j)"
  shows "KVStore (nodes c' j) = fold apply_entry
    (drop (nat (LastApplied (nodes c i) + 1)) (take (nat (LastApplied (nodes c' j) + 1)) (Log (nodes c' j))))
    (KVStore (nodes c i))"
proof -
  obtain a a' where a: "cluster_rel cfg c a" "cluster_rel cfg c' a'" "hist_le a a'"
    by (rule reachable_later [OF assms(1-3)])
  let ?k = "LastApplied (nodes c i)" and ?m = "LastApplied (nodes c' j)"
  have 1: "commit_ok (members cfg) a' (CurrentTerm (nodes c i)) (Log (nodes c i)) (CommitIndex (nodes c i))"
    by (rule commit_ok_mono [OF a(3) node_commit_ok [OF a(1) assms(4)] order_refl])
  note 2 = node_commit_ok [OF a(2) assms(5)]
  have i: "KVStore (nodes c i) = run_log (Log (nodes c i)) ?k" "?k \<le> CommitIndex (nodes c i)" "-1 \<le> ?k"
    using cluster_relD(3) [OF a(1) assms(4)] by (simp_all add: node_ok_def applied_ok_def)
  have j: "KVStore (nodes c' j) = run_log (Log (nodes c' j)) ?m" "?m \<le> CommitIndex (nodes c' j)"
    "?m < len (Log (nodes c' j))"
    using cluster_relD(3) [OF a(2) assms(5)] by (simp_all add: node_ok_def applied_ok_def)
  have "take (nat (?k + 1)) (Log (nodes c i)) = take (nat (?k + 1)) (Log (nodes c' j))"
    using i(2) j(2) assms(6) by (intro commit_ok_agree [OF cluster_relD(1) [OF a(2)] 1 2]) simp_all
  then have "KVStore (nodes c i) = run_log (Log (nodes c' j)) ?k"
    unfolding i(1) by (rule run_log_cong)
  then show ?thesis
    unfolding j(1) using rsm.run_catch_up [OF refl, of "nat (?k + 1)" "nat (?m + 1)" "Log (nodes c' j)"] assms(6) j(3)
    by (simp add: run_log_eq)
qed

theorem stores_never_diverge_witness:
  "KVStore (nodes run12 ''n2'') = KVStore (nodes run12 ''n1'')"
  using stores_never_diverge [OF good_cfg3 run12_reachable rtranclp.rtrancl_refl, of "''n1''" "''n2''"]
  by (simp add: members_cfg3 run12_nodes)

text \<open>
  C11: no panic. In a cluster of the program's nodes no call that is in the network makes
  \<open>HandleAppendEntries\<close> index outside the log, no reply does so in \<open>advanceCommitIndex\<close>, and no
  turn of the apply loop does.
\<close>

theorem cluster_never_panics:
  assumes "good_config cfg" and "reachable cfg c" and "i \<in> set (members cfg)"
  shows "(AEReqM i rc req \<in> set (net c) \<longrightarrow> (\<exists>c'. do_handle_ae i rc req c = Inr c')) \<and>
    (AERespM p rc req resp \<in> set (net c) \<longrightarrow>
       (\<exists>n'. replicateToPeer_reply rc req resp (nodes c i) = Inr n')) \<and>
    (\<exists>n'. applyLoop_turn ticker (nodes c i) = Inr n')"
proof -
  obtain a where a: "cluster_rel cfg c a" by (rule reachable_related [OF assms(1,2)])
  note d = cluster_relD [OF a]
  have "\<exists>c'. do_handle_ae i rc req c = Inr c'" if "AEReqM i rc req \<in> set (net c)"
  proof -
    have "-1 \<le> ae_PrevLogIndex req" using d(5) [OF that] ae_okD(2) [of "members cfg" a req] by simp
    then show ?thesis
      using HandleAppendEntries_total [of req "nodes c i"] by (auto simp: do_handle_ae_def)
  qed
  moreover have ci: "-1 \<le> CommitIndex (nodes c i)"
    using node_commit_ok [OF a assms(3)] by (simp add: commit_ok_def)
  have "\<exists>n'. replicateToPeer_reply rc req resp (nodes c i) = Inr n'"
    using ci by (auto simp: replicateToPeer_reply_def advanceCommitIndex_def Let_def intro!: advance_from_total)
  moreover have "applied_ok (nodes c i)" using d(3) [OF assms(3)] by (simp add: node_ok_def)
  then have "\<exists>n'. applyLoop_turn ticker (nodes c i) = Inr n'"
    using applyCommittedEntries_result [of "nodes c i"]
      applyCommittedEntries_result [of "(nodes c i)\<lparr>applyNotify := False\<rparr>"]
    by (auto simp: applyLoop_turn_def applied_ok_def)
  ultimately show ?thesis by blast
qed

theorem cluster_never_panics_witness:
  "\<exists>c'. do_handle_ae ''n2'' call9 req9 run12 = Inr c'"
proof -
  have "AEReqM ''n2'' call9 req9 \<in> set (net run12)"
  proof -
    have "AEReqM ''n2'' call9 req9 \<in> set (net run10)" by (simp add: run10_def)
    moreover obtain ms where "net run11 = net run10 @ ms"
      using sum.collapse(2) [OF run10_facts(4)] unfolding run11_def
      by (auto simp: do_handle_ae_def go_bind_def split: sum.splits)
    ultimately show ?thesis by (simp add: run12_def)
  qed
  then show ?thesis
    using cluster_never_panics [OF good_cfg3 run12_reachable, of "''n2''" call9 req9] by (simp add: members_cfg3)
qed

text \<open>
  C10: crashes lose nothing. A member of a reachable cluster that crashes and starts again on its
  journal has its term, vote, log and commit index back, and its store is the run of all committed
  entries; only the role is reset.
\<close>

theorem crash_recovers:
  assumes "good_config cfg" and "reachable cfg c" and "i \<in> set (members cfg)"
  shows "let n = nodes c i; n' = nodes (do_crash i c) i
    in CurrentTerm n' = CurrentTerm n \<and> VotedFor n' = VotedFor n \<and> Log n' = Log n \<and>
       CommitIndex n' = CommitIndex n \<and> State n' = Follower \<and> LastApplied n' = CommitIndex n \<and>
       store_abs (KVStore n') = fold entry_spec (take (nat (CommitIndex n + 1)) (Log n)) Map.empty"
proof -
  obtain a where a: "cluster_rel cfg c a" by (rule reachable_related [OF assms(1,2)])
  let ?n = "nodes c i"
  have ok: "durable ?n" "commit_durable ?n"
    using cluster_relD(3) [OF a assms(3)] by (simp_all add: node_ok_def)
  have "CommitIndex ?n < len (Log ?n)"
    using node_commit_ok [OF a assms(3)] by (simp add: commit_ok_def)
  then have la: "LastApplied (restart ?n) = CommitIndex ?n"
    using ok by (simp add: node_simps durable_def commit_durable_def)
  then have "store_abs (KVStore (restart ?n)) = fold entry_spec (take (nat (CommitIndex ?n + 1)) (Log ?n)) Map.empty"
    using applied_ok_restart [of ?n] ok by (simp add: applied_ok_def run_log_spec node_simps durable_def)
  then show ?thesis
    using ok la by (simp add: Let_def do_crash_def node_simps durable_def commit_durable_def)
qed

theorem crash_recovers_witness:
  "Log (nodes (do_crash ''n1'' run12) ''n1'') = [req_entry set_req 0 1] \<and>
   store_abs (KVStore (nodes (do_crash ''n1'' run12) ''n1'')) = [''a'' \<mapsto> ''1'']"
  using crash_recovers [OF good_cfg3 run12_reachable, of "''n1''"]
  by (simp add: members_cfg3 run12_nodes Let_def req_entry_def set_req_def entry_spec_def)

text \<open>
  C8: the cluster refines the abstract protocol. For every reachable cluster there is a state the
  abstract protocol reaches from its start in which every member has the term, vote, role, log and
  commit index of the running node.
\<close>

theorem cluster_refines_spec:
  assumes "good_config cfg" and "reachable cfg c"
  shows "\<exists>a. asteps (members cfg) (a_init (members cfg)) a \<and>
    (\<forall>i \<in> set (members cfg). an a i = abs_node (nodes c i))"
proof -
  obtain a where "asteps (members cfg) (a_init (members cfg)) a" "cluster_rel cfg c a"
    by (rule reachable_related [OF assms])
  then show ?thesis using cluster_relD(2) by blast
qed

theorem cluster_refines_spec_witness:
  "\<exists>a. asteps (members cfg3) (a_init (members cfg3)) a \<and> a_role (an a ''n1'') = Leader \<and>
     a_log (an a ''n2'') = [req_entry set_req 0 1]"
proof -
  obtain a where a: "asteps (members cfg3) (a_init (members cfg3)) a"
      "\<forall>i \<in> set (members cfg3). an a i = abs_node (nodes run12 i)"
    using cluster_refines_spec [OF good_cfg3 run12_reachable] by blast
  then show ?thesis
    by (intro exI [of _ a]) (simp add: members_cfg3 run12_nodes run12_state)
qed

end
